(* ===== verification/Prelude.thy ===== *)
theory Prelude
  imports Complex_Main "HOL-Library.Word" "HOL-Library.Sublist"
begin

text \<open>
  Shared vocabulary of the development: the Python values the components pass around, results
  of code that may raise, big-endian integers as \<open>struct\<close> and \<open>int.from_bytes\<close> read and write
  them, and the list lemmas the component proofs use.

  \<^item> \<open>bytes\<close> is a list of 8-bit words; \<open>pystr\<close> is a Python \<open>str\<close>, a list of code points.
  \<^item> A function that may raise returns a sum: \<open>Inl\<close> of the error, \<open>Inr\<close> of the value.
  \<^item> \<open>be_bytes w n\<close> is \<open>n.to_bytes(w, "big")\<close>; \<open>be_val bs\<close> is \<open>int.from_bytes(bs, "big")\<close>.
\<close>

section \<open>Python values\<close>

type_synonym byte = "8 word"
type_synonym bytes = "byte list"
type_synonym pystr = "nat list"

definition lit :: "string \<Rightarrow> pystr" where
  "lit s = map of_char s"

definition ascii :: "string \<Rightarrow> bytes" where
  "ascii s = map of_char s"

definition MAX_U64 :: int where
  "MAX_U64 = 2 ^ 64 - 1"

lemma MAX_U64_eval: "MAX_U64 = 18446744073709551615"
  by (simp add: MAX_U64_def)

section \<open>Results\<close>

named_theorems result_simps \<open>inversion of results: what a successful step says of its parts\<close>

fun ebind :: "'e + 'a \<Rightarrow> ('a \<Rightarrow> 'e + 'b) \<Rightarrow> 'e + 'b" where
  "ebind (Inl e) f = Inl e"
| "ebind (Inr a) f = f a"

lemma ebind_cong [fundef_cong]:
  "m = m' \<Longrightarrow> (\<And>a. m' = Inr a \<Longrightarrow> f a = g a) \<Longrightarrow> ebind m f = ebind m' g"
  by (cases m') auto

definition ensure :: "bool \<Rightarrow> 'e \<Rightarrow> 'e + unit" where
  "ensure c e = (if c then Inr () else Inl e)"

lemma ebind_Inr [result_simps]: "ebind m f = Inr b \<longleftrightarrow> (\<exists>a. m = Inr a \<and> f a = Inr b)"
  by (cases m) auto

lemma ebind_Inl [result_simps]:
  "ebind m f = Inl e \<longleftrightarrow> m = Inl e \<or> (\<exists>a. m = Inr a \<and> f a = Inl e)"
  by (cases m) auto

lemma ensure_Inr [result_simps]: "ensure c e = Inr u \<longleftrightarrow> c"
  by (simp add: ensure_def)

lemma ensure_Inl [result_simps]: "ensure c e = Inl e' \<longleftrightarrow> \<not> c \<and> e' = e"
  by (auto simp add: ensure_def)

lemma ebind_ensure: "ebind (ensure c e) f = (if c then f () else Inl e)"
  by (simp add: ensure_def)

fun is_ok :: "'e + 'a \<Rightarrow> bool" where
  "is_ok (Inl _) = False"
| "is_ok (Inr _) = True"

lemma is_ok_iff: "is_ok r \<longleftrightarrow> (\<exists>a. r = Inr a)"
  by (cases r) auto

section \<open>Decimal text\<close>

text \<open>\<open>dec_str n\<close> is \<open>str(n)\<close> of a natural number, \<open>dec_val\<close> reads such digits back.\<close>

fun dec_str :: "nat \<Rightarrow> pystr" where
  "dec_str n = (if n < 10 then [48 + n] else dec_str (n div 10) @ [48 + n mod 10])"

declare dec_str.simps [simp del]

definition dec_val :: "pystr \<Rightarrow> nat" where
  "dec_val s = foldl (\<lambda>acc c. acc * 10 + (c - 48)) 0 s"

definition is_digit :: "nat \<Rightarrow> bool" where
  "is_digit c \<longleftrightarrow> 48 \<le> c \<and> c \<le> 57"

lemma dec_str_not_Nil [simp]: "dec_str n \<noteq> []"
  by (subst dec_str.simps) simp

lemma is_digit_add: "k < 10 \<Longrightarrow> is_digit (48 + k)"
  by (simp add: is_digit_def)

lemma dec_str_digits: "list_all is_digit (dec_str n)"
proof (induction n rule: dec_str.induct)
  case (1 n)
  show ?case
  proof (cases "n < 10")
    case True
    then show ?thesis by (subst dec_str.simps) (simp add: is_digit_add)
  next
    case False
    then show ?thesis using 1 by (subst dec_str.simps) (simp add: is_digit_add)
  qed
qed

lemma dec_val_dec_str [simp]: "dec_val (dec_str n) = n"
proof (induction n rule: dec_str.induct)
  case (1 n)
  show ?case
  proof (cases "n < 10")
    case True
    then show ?thesis by (subst dec_str.simps) (simp add: dec_val_def)
  next
    case False
    then show ?thesis using 1 by (subst dec_str.simps) (simp add: dec_val_def)
  qed
qed

lemma dec_str_inject [simp]: "dec_str m = dec_str n \<longleftrightarrow> m = n"
  by (metis dec_val_dec_str)

lemma hd_dec_str_zero: "hd (dec_str n) = 48 \<Longrightarrow> n = 0"
proof (induction n rule: dec_str.induct)
  case (1 n)
  show ?case
  proof (cases "n < 10")
    case True
    then show ?thesis using "1.prems" by (subst (asm) dec_str.simps) simp
  next
    case False
    then have "hd (dec_str (n div 10)) = 48"
      using "1.prems" by (subst (asm) dec_str.simps) simp
    with "1.IH" [OF False] False show ?thesis by simp
  qed
qed

section \<open>Big-endian integers\<close>

definition be_val :: "bytes \<Rightarrow> nat" where
  "be_val bs = foldl (\<lambda>acc b. acc * 256 + unat b) 0 bs"

fun be_bytes :: "nat \<Rightarrow> nat \<Rightarrow> bytes" where
  "be_bytes 0 n = []"
| "be_bytes (Suc w) n = be_bytes w (n div 256) @ [of_nat (n mod 256)]"

lemma be_val_Nil [simp]: "be_val [] = 0"
  by (simp add: be_val_def)

lemma be_val_snoc [simp]: "be_val (bs @ [b]) = be_val bs * 256 + unat b"
  by (simp add: be_val_def)

lemma be_val_single [simp]: "be_val [b] = unat b"
  by (simp add: be_val_def)

lemma length_be_bytes [simp]: "length (be_bytes w n) = w"
  by (induction w arbitrary: n) auto

lemma unat_byte_less [simp]: "unat (b :: byte) < 256"
  using unsigned_less [of b] by simp

lemma be_val_less: "be_val bs < 256 ^ length bs"
proof (induction bs rule: rev_induct)
  case Nil
  show ?case by simp
next
  case (snoc b bs)
  have "be_val bs * 256 + unat b < be_val bs * 256 + 256"
    by simp
  also have "\<dots> = (be_val bs + 1) * 256"
    by simp
  also have "\<dots> \<le> 256 ^ length bs * 256"
    using snoc.IH by (intro mult_le_mono1) simp
  finally show ?case by simp
qed

lemma be_val_be_bytes: "n < 256 ^ w \<Longrightarrow> be_val (be_bytes w n) = n"
proof (induction w arbitrary: n)
  case 0
  then show ?case by simp
next
  case (Suc w)
  from Suc.prems have "n div 256 < 256 ^ w"
    by (simp add: less_mult_imp_div_less mult.commute)
  with Suc.IH show ?case by (simp add: unat_of_nat)
qed

lemma be_bytes_be_val: "be_bytes (length bs) (be_val bs) = bs"
proof (induction bs rule: rev_induct)
  case Nil
  show ?case by simp
next
  case (snoc b bs)
  then show ?case by simp
qed

lemma be_bytes_be_val_eq: "length bs = w \<Longrightarrow> be_bytes w (be_val bs) = bs"
  using be_bytes_be_val by blast

text \<open>An unsigned big-endian field of a \<open>struct\<close> at an offset.\<close>

definition be_field :: "nat \<Rightarrow> nat \<Rightarrow> bytes \<Rightarrow> int" where
  "be_field off n d = int (be_val (take n (drop off d)))"

lemma be_bytes_be_field:
  "off + n \<le> length d \<Longrightarrow> be_bytes n (nat (be_field off n d)) = take n (drop off d)"
  by (simp add: be_field_def be_bytes_be_val_eq)

lemma be_field_take: "off + n \<le> k \<Longrightarrow> be_field off n (take k d) = be_field off n d"
  by (simp add: be_field_def take_drop min_def)

lemma be_field_append: "off + n \<le> length d \<Longrightarrow> be_field off n (d @ d') = be_field off n d"
  by (simp add: be_field_def)

lemma be_field_nonneg [simp]: "0 \<le> be_field off n d"
  by (simp add: be_field_def)

section \<open>Codecs\<close>

text \<open>
  The contract of a byte codec: decoding an encoded valid value gives it back. A codec is
  canonical when, besides, every accepted byte string is the encoding of what it decodes to, so
  that no two byte strings carry the same value.
\<close>

locale codec =
  fixes valid :: "'a \<Rightarrow> bool" and enc :: "'a \<Rightarrow> bytes" and dec :: "bytes \<Rightarrow> 'e + 'a"
  assumes dec_enc: "valid x \<Longrightarrow> dec (enc x) = Inr x"
begin

lemma enc_inject: "valid x \<Longrightarrow> valid y \<Longrightarrow> enc x = enc y \<longleftrightarrow> x = y"
  by (metis dec_enc sum.inject(2))

end

locale canonical_codec = codec +
  assumes dec_valid: "dec bs = Inr x \<Longrightarrow> valid x \<and> enc x = bs"
begin

lemma dec_iff: "dec bs = Inr x \<longleftrightarrow> valid x \<and> bs = enc x"
  using dec_enc dec_valid by blast

lemma dec_inject: "dec bs = Inr x \<Longrightarrow> dec bs' = Inr x \<Longrightarrow> bs = bs'"
  using dec_valid by blast

end

end
