(* ===== verification/Py_Utf8.thy ===== *)
theory Py_Utf8
  imports Prelude
begin

text \<open>
  The strict UTF-8 codec of Python's \<open>str.encode("utf-8")\<close> and \<open>bytes.decode("utf-8")\<close>: what the
  protocol codecs use of the standard library. \<open>None\<close> is the \<open>UnicodeEncodeError\<close> or
  \<open>UnicodeDecodeError\<close>. The two functions are inverse to each other on the strings without
  surrogates and on the byte strings that decode.
\<close>

definition is_surrogate :: "nat \<Rightarrow> bool" where
  "is_surrogate c \<longleftrightarrow> 0xD800 \<le> c \<and> c \<le> 0xDFFF"

definition is_scalar :: "nat \<Rightarrow> bool" where
  "is_scalar c \<longleftrightarrow> c < 0x110000 \<and> \<not> is_surrogate c"

definition utf8_char :: "nat \<Rightarrow> bytes" where
  "utf8_char c =
     (if c < 0x80 then [of_nat c]
      else if c < 0x800 then [of_nat (0xC0 + c div 64), of_nat (0x80 + c mod 64)]
      else if c < 0x10000 then
        [of_nat (0xE0 + c div 4096), of_nat (0x80 + c div 64 mod 64), of_nat (0x80 + c mod 64)]
      else
        [of_nat (0xF0 + c div 262144), of_nat (0x80 + c div 4096 mod 64),
         of_nat (0x80 + c div 64 mod 64), of_nat (0x80 + c mod 64)])"

definition utf8_encode :: "pystr \<Rightarrow> bytes option" where
  "utf8_encode s = (if list_all is_scalar s then Some (concat (map utf8_char s)) else None)"

definition is_cont :: "byte \<Rightarrow> bool" where
  "is_cont b \<longleftrightarrow> 0x80 \<le> unat b \<and> unat b \<le> 0xBF"

definition utf8_next :: "bytes \<Rightarrow> (nat \<times> bytes) option" where
  "utf8_next bs = (case bs of [] \<Rightarrow> None | b0 # r0 \<Rightarrow>
     (let v0 = unat b0 in
      if v0 < 0x80 then Some (v0, r0)
      else if 0xC2 \<le> v0 \<and> v0 \<le> 0xDF then
        (case r0 of b1 # r \<Rightarrow>
           if is_cont b1 then Some ((v0 - 0xC0) * 64 + (unat b1 - 0x80), r) else None
         | _ \<Rightarrow> None)
      else if 0xE0 \<le> v0 \<and> v0 \<le> 0xEF then
        (case r0 of b1 # b2 # r \<Rightarrow>
           if is_cont b1 \<and> is_cont b2
              \<and> \<not> (v0 = 0xE0 \<and> unat b1 < 0xA0) \<and> \<not> (v0 = 0xED \<and> 0xA0 \<le> unat b1)
           then Some ((v0 - 0xE0) * 4096 + (unat b1 - 0x80) * 64 + (unat b2 - 0x80), r) else None
         | _ \<Rightarrow> None)
      else if 0xF0 \<le> v0 \<and> v0 \<le> 0xF4 then
        (case r0 of b1 # b2 # b3 # r \<Rightarrow>
           if is_cont b1 \<and> is_cont b2 \<and> is_cont b3
              \<and> \<not> (v0 = 0xF0 \<and> unat b1 < 0x90) \<and> \<not> (v0 = 0xF4 \<and> 0x90 \<le> unat b1)
           then Some ((v0 - 0xF0) * 262144 + (unat b1 - 0x80) * 4096
                        + (unat b2 - 0x80) * 64 + (unat b3 - 0x80), r) else None
         | _ \<Rightarrow> None)
      else None))"

lemma utf8_next_shorter: "utf8_next bs = Some (c, r) \<Longrightarrow> length r < length bs"
  by (auto simp: utf8_next_def Let_def split: list.splits if_splits)

function utf8_decode :: "bytes \<Rightarrow> pystr option" where
  "utf8_decode bs =
     (if bs = [] then Some []
      else case utf8_next bs of None \<Rightarrow> None
           | Some (c, r) \<Rightarrow> map_option (Cons c) (utf8_decode r))"
  by pat_completeness auto
termination
  by (relation "measure length") (auto dest: utf8_next_shorter)

declare utf8_decode.simps [simp del]

lemma utf8_decode_Nil [simp]: "utf8_decode [] = Some []"
  by (simp add: utf8_decode.simps)

section \<open>Round trips\<close>

lemma unat_of_nat_byte [simp]: "n < 256 \<Longrightarrow> unat (of_nat n :: byte) = n"
  by (simp add: unat_of_nat)

lemma of_nat_unat_byte [simp]: "of_nat (unat b) = (b :: byte)"
  by simp

lemma utf8_char_not_Nil [simp]: "utf8_char c \<noteq> []"
  by (simp add: utf8_char_def)

lemma digits3_64: "c = c div 64 div 64 * 4096 + c div 64 mod 64 * 64 + c mod (64 :: nat)"
  using div_mult_mod_eq [of c 64] div_mult_mod_eq [of "c div 64" 64] by linarith

lemma div_4096: "c div 4096 = c div 64 div (64 :: nat)" "c div 262144 = c div 64 div 64 div (64 :: nat)"
  by (simp_all add: div_mult2_eq)

lemma digits4_64:
  "c = c div 64 div 64 div 64 * 262144 + c div 64 div 64 mod 64 * 4096
         + c div 64 mod 64 * 64 + c mod (64 :: nat)"
  using digits3_64 [of "c div 64"] div_mult_mod_eq [of c 64] by linarith

lemma utf8_next_char:
  assumes "is_scalar c"
  shows "utf8_next (utf8_char c @ r) = Some (c, r)"
proof -
  consider "c < 0x80" | "0x80 \<le> c" "c < 0x800" | "0x800 \<le> c" "c < 0x10000"
    | "0x10000 \<le> c" "c < 0x110000"
    using assms unfolding is_scalar_def by linarith
  then show ?thesis
  proof cases
    case 1
    then show ?thesis by (simp add: utf8_char_def utf8_next_def)
  next
    case 2
    then have "2 \<le> c div 64" "c div 64 < 32" by (simp_all add: less_mult_imp_div_less)
    with 2 show ?thesis
      by (simp add: utf8_char_def utf8_next_def is_cont_def Let_def del: of_nat_add)
  next
    case 3
    define x y z where "x = c div 64 div 64" and "y = c div 64 mod 64" and "z = c mod 64"
    have c: "c = x * 4096 + y * 64 + z" "c div 4096 = x" and yz: "y < 64" "z < 64"
      unfolding x_def y_def z_def by (rule digits3_64) (simp_all add: div_mult2_eq)
    have "\<not> (0xD800 \<le> c \<and> c \<le> 0xDFFF)"
      using assms by (simp add: is_scalar_def is_surrogate_def)
    then have "\<not> (x = 13 \<and> 32 \<le> y)" "x < 16" "\<not> (x = 0 \<and> y < 32)"
      using 3 yz unfolding c(1) by linarith+
    moreover have "utf8_char c = [of_nat (0xE0 + x), of_nat (0x80 + y), of_nat (0x80 + z)]"
      using 3 c(2) by (simp add: utf8_char_def y_def z_def)
    ultimately show ?thesis using yz c(1)
      by (simp add: utf8_next_def is_cont_def Let_def del: of_nat_add)
  next
    case 4
    define w x y z where "w = c div 64 div 64 div 64" and "x = c div 64 div 64 mod 64"
      and "y = c div 64 mod 64" and "z = c mod 64"
    have c: "c = w * 262144 + x * 4096 + y * 64 + z" "c div 262144 = w" "c div 4096 mod 64 = x"
      and xyz: "x < 64" "y < 64" "z < 64"
      unfolding w_def x_def y_def z_def by (rule digits4_64) (simp_all add: div_4096)
    have "w < 5" "\<not> (w = 0 \<and> x < 16)" "\<not> (w = 4 \<and> 16 \<le> x)"
      using 4 xyz unfolding c(1) by linarith+
    moreover have "utf8_char c
        = [of_nat (0xF0 + w), of_nat (0x80 + x), of_nat (0x80 + y), of_nat (0x80 + z)]"
      using 4 c(2,3) by (simp add: utf8_char_def y_def z_def)
    ultimately show ?thesis using xyz c(1)
      by (simp add: utf8_next_def is_cont_def Let_def del: of_nat_add)
  qed
qed

lemma digit64: "z < 64 \<Longrightarrow> (a * 64 + z) div 64 = a \<and> (a * 64 + z) mod 64 = (z :: nat)"
  by simp

lemma utf8_char_2:
  assumes "0xC2 \<le> unat b0" "unat b0 \<le> 0xDF" "is_cont b1"
    and "c = (unat b0 - 0xC0) * 64 + (unat b1 - 0x80)"
  shows "is_scalar c \<and> utf8_char c = [b0, b1]"
proof -
  have "unat b1 - 0x80 < 64" using assms(3) unfolding is_cont_def by linarith
  from digit64 [OF this, of "unat b0 - 0xC0"] assms
  have "0xC0 + c div 64 = unat b0" "0x80 + c mod 64 = unat b1"
    unfolding is_cont_def by simp_all
  moreover have "0x80 \<le> c" "c < 0x800"
    using assms unfolding is_cont_def by linarith+
  ultimately have c: "0x80 \<le> c" "c < 0x800" "0xC0 + c div 64 = unat b0"
    "0x80 + c mod 64 = unat b1"
    by simp_all
  then have "of_nat (0xC0 + c div 64) = b0" "of_nat (0x80 + c mod 64) = b1"
    by (simp_all only: of_nat_unat_byte)
  with c show ?thesis
    by (simp add: utf8_char_def is_scalar_def is_surrogate_def)
qed

lemma utf8_char_3:
  assumes "0xE0 \<le> unat b0" "unat b0 \<le> 0xEF" "is_cont b1" "is_cont b2"
    and "\<not> (unat b0 = 0xE0 \<and> unat b1 < 0xA0)" "\<not> (unat b0 = 0xED \<and> 0xA0 \<le> unat b1)"
    and "c = (unat b0 - 0xE0) * 4096 + (unat b1 - 0x80) * 64 + (unat b2 - 0x80)"
  shows "is_scalar c \<and> utf8_char c = [b0, b1, b2]"
proof -
  define x y z where "x = unat b0 - 0xE0" and "y = unat b1 - 0x80" and "z = unat b2 - 0x80"
  have xyz: "x \<le> 15" "y < 64" "z < 64" "\<not> (x = 0 \<and> y < 32)" "\<not> (x = 13 \<and> 32 \<le> y)"
    and c: "c = x * 4096 + y * 64 + z"
    using assms unfolding is_cont_def x_def y_def z_def by linarith+
  have c': "c = (x * 64 + y) * 64 + z" by (simp add: c)
  have "c div 64 = x * 64 + y" "c mod 64 = z"
    using digit64 [OF xyz(3)] unfolding c' by blast+
  moreover have "(x * 64 + y) div 64 = x" "(x * 64 + y) mod 64 = y"
    using digit64 [OF xyz(2)] by blast+
  moreover have "c div 4096 = c div 64 div 64" by (simp add: div_mult2_eq)
  ultimately have parts: "c div 4096 = x" "c div 64 mod 64 = y" "c mod 64 = z"
    by simp_all
  have "x \<le> 12 \<or> x = 13 \<and> y < 32 \<or> 14 \<le> x"
    using xyz by linarith
  then have "\<not> (0xD800 \<le> c \<and> c \<le> 0xDFFF)"
    using xyz unfolding c by (elim disjE) linarith+
  moreover have "0x800 \<le> c" "c < 0x10000"
    using xyz unfolding c by linarith+
  ultimately have bounds: "0x800 \<le> c" "c < 0x10000" "\<not> (0xD800 \<le> c \<and> c \<le> 0xDFFF)"
    by blast+
  have "of_nat (0xE0 + x) = b0" "of_nat (0x80 + y) = b1" "of_nat (0x80 + z) = b2"
    using assms unfolding x_def y_def z_def is_cont_def by (simp_all del: of_nat_add)
  with parts bounds show ?thesis
    by (simp add: utf8_char_def is_scalar_def is_surrogate_def)
qed

lemma utf8_char_4:
  assumes "0xF0 \<le> unat b0" "unat b0 \<le> 0xF4" "is_cont b1" "is_cont b2" "is_cont b3"
    and "\<not> (unat b0 = 0xF0 \<and> unat b1 < 0x90)" "\<not> (unat b0 = 0xF4 \<and> 0x90 \<le> unat b1)"
    and "c = (unat b0 - 0xF0) * 262144 + (unat b1 - 0x80) * 4096
               + (unat b2 - 0x80) * 64 + (unat b3 - 0x80)"
  shows "is_scalar c \<and> utf8_char c = [b0, b1, b2, b3]"
proof -
  define w x y z where "w = unat b0 - 0xF0" and "x = unat b1 - 0x80" and "y = unat b2 - 0x80"
    and "z = unat b3 - 0x80"
  have wxyz: "w \<le> 4" "x < 64" "y < 64" "z < 64" "\<not> (w = 0 \<and> x < 16)" "\<not> (w = 4 \<and> 16 \<le> x)"
    and c: "c = w * 262144 + x * 4096 + y * 64 + z"
    using assms unfolding is_cont_def w_def x_def y_def z_def by linarith+
  have c': "c = ((w * 64 + x) * 64 + y) * 64 + z" by (simp add: c)
  have "c div 64 = (w * 64 + x) * 64 + y" "c mod 64 = z"
    using digit64 [OF wxyz(4)] unfolding c' by blast+
  moreover have "((w * 64 + x) * 64 + y) div 64 = w * 64 + x" "((w * 64 + x) * 64 + y) mod 64 = y"
    using digit64 [OF wxyz(3)] by blast+
  moreover have "(w * 64 + x) div 64 = w" "(w * 64 + x) mod 64 = x"
    using digit64 [OF wxyz(2)] by blast+
  moreover have "c div 4096 = c div 64 div 64" "c div 262144 = c div 64 div 64 div 64"
    by (simp_all add: div_mult2_eq)
  ultimately have parts: "c div 262144 = w" "c div 4096 mod 64 = x" "c div 64 mod 64 = y"
    "c mod 64 = z"
    by simp_all
  have bounds: "0x10000 \<le> c" "c < 0x110000"
    using wxyz unfolding c by linarith+
  have "of_nat (0xF0 + w) = b0" "of_nat (0x80 + x) = b1" "of_nat (0x80 + y) = b2"
    "of_nat (0x80 + z) = b3"
    using assms unfolding w_def x_def y_def z_def is_cont_def by (simp_all del: of_nat_add)
  with parts bounds show ?thesis
    by (simp add: utf8_char_def is_scalar_def is_surrogate_def)
qed

lemma utf8_char_1: "unat b0 < 0x80 \<Longrightarrow> is_scalar (unat b0) \<and> utf8_char (unat b0) = [b0]"
  by (simp add: utf8_char_def is_scalar_def is_surrogate_def)

lemma utf8_next_inv:
  assumes "utf8_next bs = Some (c, r)"
  shows "is_scalar c \<and> bs = utf8_char c @ r"
proof -
  obtain b0 r0 where bs: "bs = b0 # r0"
    using assms by (cases bs) (auto simp: utf8_next_def)
  consider "unat b0 < 0x80" | "0xC2 \<le> unat b0" "unat b0 \<le> 0xDF"
    | "0xE0 \<le> unat b0" "unat b0 \<le> 0xEF" | "0xF0 \<le> unat b0" "unat b0 \<le> 0xF4"
    using assms unfolding bs utf8_next_def by (auto simp: Let_def split: if_splits)
  then show ?thesis
  proof cases
    case 1
    with assms have "c = unat b0" "r = r0"
      unfolding bs utf8_next_def by auto
    with 1 utf8_char_1 [of b0] bs show ?thesis by simp
  next
    case 2
    with assms obtain b1 where "r0 = b1 # r" "is_cont b1"
      "c = (unat b0 - 0xC0) * 64 + (unat b1 - 0x80)"
      unfolding bs utf8_next_def by (auto simp: Let_def split: list.splits if_splits)
    with 2 utf8_char_2 [of b0 b1 c] bs show ?thesis by simp
  next
    case 3
    with assms obtain b1 b2 where "r0 = b1 # b2 # r" "is_cont b1" "is_cont b2"
      "\<not> (unat b0 = 0xE0 \<and> unat b1 < 0xA0)" "\<not> (unat b0 = 0xED \<and> 0xA0 \<le> unat b1)"
      "c = (unat b0 - 0xE0) * 4096 + (unat b1 - 0x80) * 64 + (unat b2 - 0x80)"
      unfolding bs utf8_next_def by (auto simp: Let_def split: list.splits if_splits)
    with 3 utf8_char_3 [of b0 b1 b2 c] bs show ?thesis by simp
  next
    case 4
    with assms obtain b1 b2 b3 where "r0 = b1 # b2 # b3 # r" "is_cont b1" "is_cont b2" "is_cont b3"
      "\<not> (unat b0 = 0xF0 \<and> unat b1 < 0x90)" "\<not> (unat b0 = 0xF4 \<and> 0x90 \<le> unat b1)"
      "c = (unat b0 - 0xF0) * 262144 + (unat b1 - 0x80) * 4096
             + (unat b2 - 0x80) * 64 + (unat b3 - 0x80)"
      unfolding bs utf8_next_def by (auto simp: Let_def split: list.splits if_splits)
    with 4 utf8_char_4 [of b0 b1 b2 b3 c] bs show ?thesis by simp
  qed
qed

theorem utf8_decode_encode: "utf8_encode s = Some bs \<Longrightarrow> utf8_decode bs = Some s"
proof (induction s arbitrary: bs)
  case Nil
  then show ?case by (simp add: utf8_encode_def)
next
  case (Cons c s)
  then have c: "is_scalar c" and s: "utf8_encode s = Some (concat (map utf8_char s))"
    and bs: "bs = utf8_char c @ concat (map utf8_char s)"
    by (auto simp: utf8_encode_def split: if_splits)
  then show ?case
    using Cons.IH [OF s] by (subst utf8_decode.simps) (simp add: utf8_next_char)
qed

theorem utf8_encode_decode: "utf8_decode bs = Some s \<Longrightarrow> utf8_encode s = Some bs"
proof (induction bs arbitrary: s rule: utf8_decode.induct)
  case (1 bs)
  show ?case
  proof (cases "bs = []")
    case True
    with 1 show ?thesis by (simp add: utf8_encode_def)
  next
    case False
    with "1.prems" obtain c r s' where n: "utf8_next bs = Some (c, r)"
      and d: "utf8_decode r = Some s'" and s: "s = c # s'"
      by (auto simp: utf8_decode.simps [of bs] split: option.splits)
    from "1.IH" [OF False n refl d] utf8_next_inv [OF n] s
    show ?thesis by (auto simp: utf8_encode_def split: if_splits)
  qed
qed

end
