(* ===== verification/Py_Json.thy ===== *)
theory Py_Json
  imports Prelude
begin

text \<open>
  Python's \<open>json\<close> module, as far as the program uses it: \<open>dumps\<close> with compact separators and
  \<open>ensure_ascii=False\<close>, and \<open>loads\<close> with hooks that reject duplicate object keys and the
  constants \<open>NaN\<close>, \<open>Infinity\<close> and \<open>-Infinity\<close>. A dict is the list of its items in insertion
  order. The program never computes with a float, so a finite one is its text; \<open>JNonFinite\<close> is a
  float that \<open>allow_nan=False\<close> refuses. The scanner recurses on fuel, and
  \<open>json_loads_fuel\<close> shows that the fuel given by \<open>json_loads\<close> never runs out.
\<close>

datatype json = JNull | JBool bool | JInt int | JFloat pystr | JNonFinite | JStr pystr
  | JArr "json list" | JObj "(pystr \<times> json) list"

datatype json_error = JMalformed | JConstant string | JDuplicate | JFuel

section \<open>Printing\<close>

definition hex_digit :: "nat \<Rightarrow> nat" where
  "hex_digit n = (if n < 10 then 48 + n else 87 + n)"

definition json_escape :: "nat \<Rightarrow> pystr" where
  "json_escape c =
     (if c = 34 then [92, 34] else if c = 92 then [92, 92] else if c = 10 then [92, 110]
      else if c = 13 then [92, 114] else if c = 9 then [92, 116] else if c = 12 then [92, 102]
      else if c = 8 then [92, 98]
      else if c < 32 then [92, 117, 48, 48, hex_digit (c div 16), hex_digit (c mod 16)]
      else [c])"

definition json_string :: "pystr \<Rightarrow> pystr" where
  "json_string s = [34] @ concat (map json_escape s) @ [34]"

definition int_str :: "int \<Rightarrow> pystr" where
  "int_str i = (if i < 0 then 45 # dec_str (nat (- i)) else dec_str (nat i))"

fun commas :: "pystr list \<Rightarrow> pystr" where
  "commas [] = []"
| "commas [x] = x"
| "commas (x # y # zs) = x @ [44] @ commas (y # zs)"

fun json_text :: "json \<Rightarrow> pystr" where
  "json_text JNull = lit ''null''"
| "json_text (JBool b) = (if b then lit ''true'' else lit ''false'')"
| "json_text (JInt i) = int_str i"
| "json_text (JFloat x) = x"
| "json_text JNonFinite = lit ''NaN''"
| "json_text (JStr s) = json_string s"
| "json_text (JArr vs) = [91] @ commas (map json_text vs) @ [93]"
| "json_text (JObj ps) = [123] @ commas (map (\<lambda>(k, v). json_string k @ [58] @ json_text v) ps) @ [125]"

fun json_finite :: "json \<Rightarrow> bool" where
  "json_finite JNonFinite = False"
| "json_finite (JArr vs) = list_all json_finite vs"
| "json_finite (JObj ps) = list_all (\<lambda>(k, v). json_finite v) ps"
| "json_finite _ = True"

text \<open>\<open>json.dumps(v, ensure_ascii=False, allow_nan=False, separators=(",", ":"))\<close>; \<open>None\<close> is the
  \<open>ValueError\<close> for a float that is not finite.\<close>

definition json_dumps :: "json \<Rightarrow> pystr option" where
  "json_dumps v = (if json_finite v then Some (json_text v) else None)"

section \<open>Scanning\<close>

definition is_ws :: "nat \<Rightarrow> bool" where
  "is_ws c \<longleftrightarrow> c \<in> {32, 9, 10, 13}"

definition skip_ws :: "pystr \<Rightarrow> pystr" where
  "skip_ws s = dropWhile is_ws s"

definition hex_val :: "nat \<Rightarrow> nat option" where
  "hex_val c = (if 48 \<le> c \<and> c \<le> 57 then Some (c - 48) else if 97 \<le> c \<and> c \<le> 102 then Some (c - 87)
     else if 65 \<le> c \<and> c \<le> 70 then Some (c - 55) else None)"

fun hex4 :: "pystr \<Rightarrow> (nat \<times> pystr) option" where
  "hex4 (a # b # c # d # r) =
     (case (hex_val a, hex_val b, hex_val c, hex_val d) of
        (Some w, Some x, Some y, Some z) \<Rightarrow> Some (((w * 16 + x) * 16 + y) * 16 + z, r)
      | _ \<Rightarrow> None)"
| "hex4 _ = None"

text \<open>After a backslash and \<open>u\<close>: a high surrogate directly followed by an escaped low one is one character.\<close>

definition unicode_escape :: "pystr \<Rightarrow> (nat \<times> pystr) option" where
  "unicode_escape r =
     (case hex4 r of
        None \<Rightarrow> None
      | Some (u, r') \<Rightarrow>
          if 0xD800 \<le> u \<and> u \<le> 0xDBFF \<and> take 2 r' = [92, 117]
          then (case hex4 (drop 2 r') of
                  None \<Rightarrow> None
                | Some (v, r'') \<Rightarrow>
                    if 0xDC00 \<le> v \<and> v \<le> 0xDFFF
                    then Some (0x10000 + (u - 0xD800) * 1024 + (v - 0xDC00), r'')
                    else Some (u, r'))
          else Some (u, r'))"

definition simple_escape :: "nat \<Rightarrow> nat option" where
  "simple_escape e =
     (if e \<in> {34, 92, 47} then Some e else if e = 98 then Some 8 else if e = 102 then Some 12
      else if e = 110 then Some 10 else if e = 114 then Some 13 else if e = 116 then Some 9
      else None)"

fun unescape :: "pystr \<Rightarrow> (nat \<times> pystr) option" where
  "unescape [] = None"
| "unescape (e # r) =
     (if e = 117 then unicode_escape r else map_option (\<lambda>c. (c, r)) (simple_escape e))"

lemma hex4_shorter: "hex4 s = Some (u, r) \<Longrightarrow> length r < length s"
  by (cases s rule: hex4.cases) (auto split: option.splits)

lemma unescape_shorter: "unescape s = Some (c, r) \<Longrightarrow> length r < length s"
  by (cases s)
    (auto simp: unicode_escape_def split: if_splits option.splits dest!: hex4_shorter)

function scan_string :: "pystr \<Rightarrow> (pystr \<times> pystr) option" where
  "scan_string s =
     (case s of
        [] \<Rightarrow> None
      | c # r \<Rightarrow>
          if c = 34 then Some ([], r)
          else if c = 92 then
            (case unescape r of
               None \<Rightarrow> None
             | Some (x, r') \<Rightarrow> map_option (\<lambda>(t, q). (x # t, q)) (scan_string r'))
          else if c < 32 then None
          else map_option (\<lambda>(t, q). (c # t, q)) (scan_string r))"
  by pat_completeness auto
termination
  by (relation "measure length") (auto dest: unescape_shorter)

declare scan_string.simps [simp del]

definition scan_int :: "pystr \<Rightarrow> (pystr \<times> pystr) option" where
  "scan_int s =
     (case s of
        [] \<Rightarrow> None
      | c # r \<Rightarrow> if c = 48 then Some ([48], r)
          else if is_digit c then Some (takeWhile is_digit s, dropWhile is_digit s) else None)"

definition scan_frac :: "pystr \<Rightarrow> pystr \<times> pystr" where
  "scan_frac s =
     (case s of
        [] \<Rightarrow> ([], s)
      | c # r \<Rightarrow> if c = 46 \<and> takeWhile is_digit r \<noteq> [] then (c # takeWhile is_digit r, dropWhile is_digit r)
          else ([], s))"

definition scan_sign :: "pystr \<Rightarrow> pystr \<times> pystr" where
  "scan_sign s =
     (case s of [] \<Rightarrow> ([], s) | c # r \<Rightarrow> if c = 43 \<or> c = 45 then ([c], r) else ([], s))"

definition scan_exp :: "pystr \<Rightarrow> pystr \<times> pystr" where
  "scan_exp s =
     (case s of
        [] \<Rightarrow> ([], s)
      | c # r \<Rightarrow>
          case scan_sign r of (g, q) \<Rightarrow>
            if (c = 101 \<or> c = 69) \<and> takeWhile is_digit q \<noteq> []
            then (c # g @ takeWhile is_digit q, dropWhile is_digit q)
            else ([], s))"

definition scan_number :: "pystr \<Rightarrow> (json \<times> pystr) option" where
  "scan_number s =
     (let minus = take 1 s = [45];
          s1 = (if minus then drop 1 s else s)
      in case scan_int s1 of
           None \<Rightarrow> None
         | Some (ds, s2) \<Rightarrow>
             case scan_frac s2 of (fr, s3) \<Rightarrow>
             case scan_exp s3 of (ex, s4) \<Rightarrow>
               if fr = [] \<and> ex = []
               then Some (JInt (if minus then - int (dec_val ds) else int (dec_val ds)), s4)
               else Some (JFloat ((if minus then [45] else []) @ ds @ fr @ ex), s4))"

definition starts_with :: "pystr \<Rightarrow> pystr \<Rightarrow> bool" where
  "starts_with p s \<longleftrightarrow> take (length p) s = p"

text \<open>The \<open>object_pairs_hook\<close>, called with the items of each complete object.\<close>

fun reject_duplicate_pairs :: "(pystr \<times> json) list \<Rightarrow> (pystr \<times> json) list \<Rightarrow> json_error + (pystr \<times> json) list" where
  "reject_duplicate_pairs [] result = Inr result"
| "reject_duplicate_pairs ((k, v) # pairs) result =
     (if map_of result k \<noteq> None then Inl JDuplicate
      else reject_duplicate_pairs pairs (result @ [(k, v)]))"

lemma reject_duplicate_pairs_acc:
  "distinct (map fst result) \<Longrightarrow> reject_duplicate_pairs ps result =
     (if distinct (map fst (result @ ps)) then Inr (result @ ps) else Inl JDuplicate)"
proof (induction ps arbitrary: result)
  case (Cons p ps)
  obtain k v where p: "p = (k, v)"
    by fastforce
  have "map_of result k = None \<longleftrightarrow> k \<notin> fst ` set result"
    by (rule map_of_eq_None_iff)
  then show ?case
    using Cons.prems Cons.IH [of "result @ [(k, v)]"] by (auto simp: p simp del: map_of_eq_None_iff)
qed simp

lemma reject_duplicate_pairs_eq [simp]:
  "reject_duplicate_pairs ps [] = (if distinct (map fst ps) then Inr ps else Inl JDuplicate)"
  by (simp add: reject_duplicate_pairs_acc)

definition reject_constant :: "string \<Rightarrow> json_error + json \<times> pystr" where
  "reject_constant name = Inl (JConstant name)"

text \<open>The scalars: literals, constants (which call the rejecting hook) and numbers.\<close>

definition scan_scalar :: "pystr \<Rightarrow> json_error + json \<times> pystr" where
  "scan_scalar s =
     (if starts_with (lit ''null'') s then Inr (JNull, drop 4 s)
      else if starts_with (lit ''true'') s then Inr (JBool True, drop 4 s)
      else if starts_with (lit ''false'') s then Inr (JBool False, drop 5 s)
      else if starts_with (lit ''NaN'') s then reject_constant ''NaN''
      else if starts_with (lit ''Infinity'') s then reject_constant ''Infinity''
      else if starts_with (lit ''-Infinity'') s then reject_constant ''-Infinity''
      else case scan_number s of None \<Rightarrow> Inl JMalformed | Some (v, r) \<Rightarrow> Inr (v, r))"

fun parse_value :: "nat \<Rightarrow> pystr \<Rightarrow> json_error + json \<times> pystr"
  and parse_items :: "nat \<Rightarrow> pystr \<Rightarrow> json_error + json list \<times> pystr"
  and parse_pairs :: "nat \<Rightarrow> pystr \<Rightarrow> json_error + (pystr \<times> json) list \<times> pystr" where
  "parse_value 0 s = Inl JFuel"
| "parse_value (Suc n) s =
     (case s of
        [] \<Rightarrow> Inl JMalformed
      | c # r \<Rightarrow>
          if c = 34 then
            (case scan_string r of None \<Rightarrow> Inl JMalformed | Some (t, q) \<Rightarrow> Inr (JStr t, q))
          else if c = 123 then
            (if take 1 (skip_ws r) = [125] then Inr (JObj [], drop 1 (skip_ws r))
             else ebind (parse_pairs n (skip_ws r)) (\<lambda>(ps, q).
               ebind (reject_duplicate_pairs ps []) (\<lambda>d. Inr (JObj d, q))))
          else if c = 91 then
            (if take 1 (skip_ws r) = [93] then Inr (JArr [], drop 1 (skip_ws r))
             else ebind (parse_items n (skip_ws r)) (\<lambda>(vs, q). Inr (JArr vs, q)))
          else scan_scalar s)"
| "parse_items 0 s = Inl JFuel"
| "parse_items (Suc n) s =
     ebind (parse_value n s) (\<lambda>(v, r).
       case skip_ws r of
         [] \<Rightarrow> Inl JMalformed
       | c # r' \<Rightarrow>
           if c = 93 then Inr ([v], r')
           else if c = 44 then ebind (parse_items n (skip_ws r')) (\<lambda>(vs, q). Inr (v # vs, q))
           else Inl JMalformed)"
| "parse_pairs 0 s = Inl JFuel"
| "parse_pairs (Suc n) s =
     (case s of
        [] \<Rightarrow> Inl JMalformed
      | c # r \<Rightarrow>
          if c \<noteq> 34 then Inl JMalformed
          else case scan_string r of
            None \<Rightarrow> Inl JMalformed
          | Some (k, r1) \<Rightarrow>
              if take 1 (skip_ws r1) \<noteq> [58] then Inl JMalformed
              else ebind (parse_value n (skip_ws (drop 1 (skip_ws r1)))) (\<lambda>(v, r2).
                case skip_ws r2 of
                  [] \<Rightarrow> Inl JMalformed
                | d # r3 \<Rightarrow>
                    if d = 125 then Inr ([(k, v)], r3)
                    else if d = 44
                    then ebind (parse_pairs n (skip_ws r3)) (\<lambda>(ps, q). Inr ((k, v) # ps, q))
                    else Inl JMalformed))"

definition json_loads :: "pystr \<Rightarrow> json_error + json" where
  "json_loads s =
     ebind (parse_value (2 * length s + 1) (skip_ws s)) (\<lambda>(v, r).
       if skip_ws r = [] then Inr v else Inl JMalformed)"

section \<open>The fuel is enough\<close>

lemma skip_ws_shorter: "length (skip_ws s) \<le> length s"
  by (simp add: skip_ws_def length_dropWhile_le)

lemma scan_string_Nil [simp]: "scan_string [] = None"
  by (simp add: scan_string.simps)

lemmas scan_string_Cons = scan_string.simps [of "c # r" for c r, simplified]

lemma scan_string_shorter: "scan_string s = Some (t, r) \<Longrightarrow> length r < length s"
proof (induction s arbitrary: t r rule: scan_string.induct)
  case (1 s)
  show ?case
  proof (cases s)
    case (Cons c q)
    then show ?thesis
      using 1 by (fastforce simp: scan_string_Cons split: if_splits option.splits dest!: unescape_shorter)
  qed (use 1 in simp)
qed

lemma scan_frac_shorter: "scan_frac s = (f, r) \<Longrightarrow> length r \<le> length s"
  by (auto simp: scan_frac_def length_dropWhile_le le_SucI split: list.splits if_splits)

lemma scan_exp_shorter: "scan_exp s = (f, r) \<Longrightarrow> length r \<le> length s"
  using length_dropWhile_le [of is_digit]
  by (fastforce simp: scan_exp_def scan_sign_def le_SucI split: list.splits if_splits prod.splits)

lemma scan_int_shorter: "scan_int s = Some (f, r) \<Longrightarrow> length r < length s"
  by (auto simp: scan_int_def length_dropWhile_le less_Suc_eq_le split: list.splits if_splits)

lemma scan_number_shorter: "scan_number s = Some (v, r) \<Longrightarrow> length r < length s"
  by (auto simp: scan_number_def Let_def split: option.splits prod.splits if_splits
      dest!: scan_int_shorter scan_frac_shorter scan_exp_shorter)

lemma starts_with_not_Nil: "starts_with p s \<Longrightarrow> p \<noteq> [] \<Longrightarrow> s \<noteq> []"
  by (auto simp: starts_with_def)

lemma scan_scalar_shorter: "scan_scalar s = Inr (v, r) \<Longrightarrow> length r < length s"
  by (auto simp: reject_constant_def scan_scalar_def lit_def split: if_splits option.splits prod.splits
      dest!: scan_number_shorter starts_with_not_Nil)

lemma scan_scalar_fuel: "scan_scalar s \<noteq> Inl JFuel"
  by (auto simp: reject_constant_def scan_scalar_def split: option.splits)

lemma skip_ws_Cons: "skip_ws s = c # r \<Longrightarrow> length r < length s"
  using skip_ws_shorter [of s] by simp

lemma skip_ws_hd: "take 1 (skip_ws s) = [c] \<Longrightarrow> length (drop 1 (skip_ws s)) < length s"
  using skip_ws_shorter [of s] by (cases "skip_ws s") auto

lemma skip_ws_less: "length s < n \<Longrightarrow> length (skip_ws s) < n"
  using skip_ws_shorter [of s] by simp

lemma take_one: "take (Suc 0) s = [c] \<longleftrightarrow> (\<exists>r. s = c # r)"
  by (cases s) auto

lemma parse_items_Inr:
  "parse_items (Suc n) s = Inr (vs, r) \<longleftrightarrow>
   (\<exists>v r1. parse_value n s = Inr (v, r1)
      \<and> (skip_ws r1 = 93 # r \<and> vs = [v]
         \<or> (\<exists>r2 ws. skip_ws r1 = 44 # r2 \<and> parse_items n (skip_ws r2) = Inr (ws, r) \<and> vs = v # ws)))"
proof (cases "parse_value n s")
  case (Inr a)
  then show ?thesis
    by (cases a, cases "skip_ws (snd a)") (auto simp: result_simps)
qed simp

lemma parse_pairs_Inr:
  "parse_pairs (Suc n) s = Inr (ps, r) \<longleftrightarrow>
   (\<exists>q k r1 r2 v r3. s = 34 # q \<and> scan_string q = Some (k, r1) \<and> skip_ws r1 = 58 # r2
      \<and> parse_value n (skip_ws r2) = Inr (v, r3)
      \<and> (skip_ws r3 = 125 # r \<and> ps = [(k, v)]
         \<or> (\<exists>r4 qs. skip_ws r3 = 44 # r4 \<and> parse_pairs n (skip_ws r4) = Inr (qs, r) \<and> ps = (k, v) # qs)))"
proof (cases "\<exists>q k r1 r2. s = 34 # q \<and> scan_string q = Some (k, r1) \<and> skip_ws r1 = 58 # r2")
  case True
  then obtain q k r1 r2 where s: "s = 34 # q" "scan_string q = Some (k, r1)" "skip_ws r1 = 58 # r2"
    by blast
  show ?thesis
  proof (cases "parse_value n (skip_ws r2)")
    case (Inr a)
    then show ?thesis
      using s by (cases a, cases "skip_ws (snd a)") (auto simp: result_simps)
  qed (use s in simp)
next
  case False
  show ?thesis
    using False by (auto simp: take_one split: list.splits option.splits)
qed

lemma parse_value_Inr:
  "parse_value (Suc n) s = Inr (v, r) \<Longrightarrow>
   (\<exists>q t. s = 34 # q \<and> scan_string q = Some (t, r)) \<or> scan_scalar s = Inr (v, r)
   \<or> (\<exists>c q d. s = c # q \<and> skip_ws q = d # r)
   \<or> (\<exists>c q vs. s = c # q \<and> parse_items n (skip_ws q) = Inr (vs, r))
   \<or> (\<exists>c q ps. s = c # q \<and> parse_pairs n (skip_ws q) = Inr (ps, r))"
proof (cases s)
  case (Cons c q)
  assume "parse_value (Suc n) s = Inr (v, r)"
  then show ?thesis
    using Cons by (auto simp: result_simps take_one split: if_splits option.splits)
qed simp

lemma parse_shorter:
  "(\<forall>s v r. parse_value n s = Inr (v, r) \<longrightarrow> length r < length s)
   \<and> (\<forall>s vs r. parse_items n s = Inr (vs, r) \<longrightarrow> length r < length s)
   \<and> (\<forall>s ps r. parse_pairs n s = Inr (ps, r) \<longrightarrow> length r < length s)"
proof (induction n)
  case (Suc n)
  note ws = skip_ws_Cons skip_ws_less
  have "length r < length s" if "parse_value (Suc n) s = Inr (v, r)" for s v r
    using parse_value_Inr [OF that] Suc scan_string_shorter scan_scalar_shorter ws
      skip_ws_shorter
    by (smt (verit, best) length_Cons less_SucI less_le_trans)
  moreover have "length r < length s" if "parse_items (Suc n) s = Inr (vs, r)" for s vs r
    using that Suc unfolding parse_items_Inr by (meson less_trans skip_ws_Cons skip_ws_less)
  moreover have "length r < length s" if "parse_pairs (Suc n) s = Inr (ps, r)" for s ps r
  proof -
    obtain q k r1 r2 v r3 where s: "s = 34 # q" "scan_string q = Some (k, r1)" "skip_ws r1 = 58 # r2"
      "parse_value n (skip_ws r2) = Inr (v, r3)"
      and r: "skip_ws r3 = 125 # r \<or> (\<exists>r4 qs. skip_ws r3 = 44 # r4 \<and> parse_pairs n (skip_ws r4) = Inr (qs, r))"
      using \<open>parse_pairs (Suc n) s = Inr (ps, r)\<close> unfolding parse_pairs_Inr by blast
    have "length r3 < length (skip_ws r2)" "length (skip_ws r2) \<le> length r2" "length r2 < length r1"
      "length r1 < length s"
      using s Suc scan_string_shorter [OF s(2)] skip_ws_Cons [OF s(3)] skip_ws_shorter by auto
    moreover have "length r < length r3"
      using r Suc by (meson less_trans skip_ws_Cons skip_ws_less)
    ultimately show ?thesis
      by linarith
  qed
  ultimately show ?case
    by blast
qed simp

lemma parse_fuel:
  "(\<forall>s. 2 * length s + 1 \<le> n \<longrightarrow> parse_value n s \<noteq> Inl JFuel)
   \<and> (\<forall>s. 2 * length s + 2 \<le> n \<longrightarrow> parse_items n s \<noteq> Inl JFuel)
   \<and> (\<forall>s. 2 * length s + 2 \<le> n \<longrightarrow> parse_pairs n s \<noteq> Inl JFuel)"
proof (induction n)
  case (Suc n)
  note shorter = parse_shorter [of n]
  have "parse_value (Suc n) s \<noteq> Inl JFuel" if "2 * length s + 1 \<le> Suc n" for s
  proof (cases s)
    case (Cons c q)
    then have "2 * length (skip_ws q) + 2 \<le> n"
      using that skip_ws_shorter [of q] by simp
    then have "parse_items n (skip_ws q) \<noteq> Inl JFuel" "parse_pairs n (skip_ws q) \<noteq> Inl JFuel"
      using Suc by blast+
    then show ?thesis
      using Cons scan_scalar_fuel [of s]
      by (auto simp: result_simps split: option.splits)
  qed simp
  moreover have "parse_items (Suc n) s \<noteq> Inl JFuel" if "2 * length s + 2 \<le> Suc n" for s
  proof -
    have "parse_items n (skip_ws r') \<noteq> Inl JFuel" if "parse_value n s = Inr (v, r)" "skip_ws r = c # r'" for v r c r'
    proof -
      have "length (skip_ws r') \<le> length r'" "length r' < length r" "length r < length s"
        using that shorter skip_ws_shorter skip_ws_Cons by blast+
      then show ?thesis
        using \<open>2 * length s + 2 \<le> Suc n\<close>
        by (intro Suc [THEN conjunct2, THEN conjunct1, rule_format]) simp
    qed
    moreover have "parse_value n s \<noteq> Inl JFuel"
      using Suc that by simp
    ultimately show ?thesis
      by (auto simp: result_simps split: list.splits)
  qed
  moreover have "parse_pairs (Suc n) s \<noteq> Inl JFuel" if len: "2 * length s + 2 \<le> Suc n" for s
  proof -
    have val: "parse_value n (skip_ws (drop (Suc 0) (skip_ws r1))) \<noteq> Inl JFuel"
      and pairs: "parse_value n (skip_ws (drop (Suc 0) (skip_ws r1))) = Inr (v, r2) \<Longrightarrow> skip_ws r2 = c # r' \<Longrightarrow>
        parse_pairs n (skip_ws r') \<noteq> Inl JFuel"
      if q: "s = d # q" "scan_string q = Some (k, r1)" for d q k r1 v r2 c r'
    proof -
      let ?t = "skip_ws (drop (Suc 0) (skip_ws r1))"
      have t: "length ?t < length q"
        using scan_string_shorter [OF q(2)] skip_ws_shorter [of r1] skip_ws_shorter [of "drop (Suc 0) (skip_ws r1)"]
        by (simp add: less_imp_diff_less)
      then show "parse_value n ?t \<noteq> Inl JFuel"
        using Suc q len by simp
      assume "parse_value n ?t = Inr (v, r2)" "skip_ws r2 = c # r'"
      then have "length (skip_ws r') \<le> length r'" "length r' < length r2" "length r2 < length ?t"
        using shorter skip_ws_shorter skip_ws_Cons by blast+
      then show "parse_pairs n (skip_ws r') \<noteq> Inl JFuel"
        using t q len by (intro Suc [THEN conjunct2, THEN conjunct2, rule_format]) simp
    qed
    show ?thesis
      using val pairs by (auto simp: result_simps split: list.splits option.splits)
  qed
  ultimately show ?case
    by blast
qed simp

lemma json_loads_fuel: "json_loads s \<noteq> Inl JFuel"
proof -
  have "parse_value (2 * length s + 1) (skip_ws s) \<noteq> Inl JFuel"
    using parse_fuel [of "2 * length s + 1"] skip_ws_shorter [of s] by simp
  then show ?thesis
    by (auto simp: json_loads_def result_simps)
qed

section \<open>Round trip\<close>

definition float_lexeme :: "pystr \<Rightarrow> bool" where
  "float_lexeme x \<longleftrightarrow> scan_number x = Some (JFloat x, [])"

text \<open>The values a Python program can hold: dicts have distinct keys, and a float has its text.\<close>

fun json_ok :: "json \<Rightarrow> bool" where
  "json_ok (JFloat x) = float_lexeme x"
| "json_ok JNonFinite = False"
| "json_ok (JArr vs) = list_all json_ok vs"
| "json_ok (JObj ps) = (distinct (map fst ps) \<and> list_all (\<lambda>(k, v). json_ok v) ps)"
| "json_ok _ = True"

lemma hex_val_digit [simp]: "n < 16 \<Longrightarrow> hex_val (hex_digit n) = Some n"
  by (auto simp: hex_val_def hex_digit_def)

lemma hex_val_zero [simp]: "hex_val 48 = Some 0"
  by (simp add: hex_val_def)

lemma unescape_control:
  "c < 32 \<Longrightarrow> unicode_escape (48 # 48 # hex_digit (c div 16) # hex_digit (c mod 16) # r) = Some (c, r)"
  by (simp add: unicode_escape_def less_mult_imp_div_less)

lemma scan_string_escape:
  "scan_string (json_escape c @ r) = map_option (\<lambda>(t, q). (c # t, q)) (scan_string r)"
  by (auto simp: json_escape_def scan_string_Cons unescape_control simple_escape_def)

lemma scan_string_json: "scan_string (concat (map json_escape t) @ 34 # r) = Some (t, r)"
  by (induction t) (auto simp: scan_string_escape scan_string_Cons)

definition num_end :: "pystr \<Rightarrow> bool" where
  "num_end r \<longleftrightarrow> r = [] \<or> (\<not> is_digit (hd r) \<and> hd r \<notin> {43, 45, 46, 69, 101})"

lemma digits_append:
  assumes "num_end r"
  shows "takeWhile is_digit (s @ r) = takeWhile is_digit s"
    "dropWhile is_digit (s @ r) = dropWhile is_digit s @ r"
  using assms by (induction s) (cases r; auto simp: num_end_def)+

lemma scan_frac_append: "num_end r \<Longrightarrow> scan_frac s = (f, q) \<Longrightarrow> scan_frac (s @ r) = (f, q @ r)"
  by (cases s; cases r) (auto simp: scan_frac_def digits_append num_end_def split: if_splits)

lemma scan_exp_append: "num_end r \<Longrightarrow> scan_exp s = (f, q) \<Longrightarrow> scan_exp (s @ r) = (f, q @ r)"
proof (cases s)
  case Nil
  assume "num_end r" "scan_exp s = (f, q)"
  then show ?thesis
    using Nil by (cases r) (auto simp: scan_exp_def num_end_def split: prod.splits)
next
  case (Cons c t)
  assume *: "num_end r" "scan_exp s = (f, q)"
  then show ?thesis
    using Cons
    by (cases t; cases r)
      (auto simp: scan_exp_def scan_sign_def digits_append num_end_def split: prod.splits if_splits)
qed

lemma scan_int_append: "num_end r \<Longrightarrow> scan_int s = Some (f, q) \<Longrightarrow> scan_int (s @ r) = Some (f, q @ r)"
  by (cases s) (auto simp: scan_int_def digits_append split: if_splits)

lemma scan_number_append:
  assumes "num_end r" "scan_number s = Some (v, q)"
  shows "scan_number (s @ r) = Some (v, q @ r)"
proof -
  have "s \<noteq> []"
    using assms(2) by (auto simp: scan_number_def scan_int_def)
  then have s1: "take 1 (s @ r) = take 1 s" "drop 1 (s @ r) = drop 1 s @ r"
    by (cases s; simp)+
  define t where "t = (if take 1 s = [45] then drop 1 s else s)"
  obtain ds s2 where i: "scan_int t = Some (ds, s2)"
    using assms(2) unfolding scan_number_def Let_def t_def [symmetric] by (auto split: option.splits)
  obtain fr s3 where f: "scan_frac s2 = (fr, s3)"
    by fastforce
  obtain ex s4 where e: "scan_exp s3 = (ex, s4)"
    by fastforce
  note scans = scan_int_append [OF assms(1) i] scan_frac_append [OF assms(1) f] scan_exp_append [OF assms(1) e]
  have t': "(if take 1 s = [45] then drop 1 (s @ r) else s @ r) = t @ r"
    by (simp only: s1 t_def if_distrib [of "\<lambda>x. x @ r"] cong: if_cong)
  show ?thesis
    using assms(2) unfolding scan_number_def Let_def t' t_def [symmetric] s1(1)
    by (auto simp: i f e scans simp del: One_nat_def split: if_splits)
qed

lemma scan_int_dec_str: "scan_int (dec_str n) = Some (dec_str n, [])"
proof (cases "hd (dec_str n) = 48")
  case True
  then have "n = 0"
    by (rule hd_dec_str_zero)
  then show ?thesis
    by (simp add: scan_int_def dec_str.simps)
next
  case False
  then show ?thesis
    using dec_str_digits [of n]
    by (cases "dec_str n") (auto simp: scan_int_def list_all_iff)
qed

lemma hd_dec_str: "is_digit (hd (dec_str n))"
  using dec_str_digits [of n] by (cases "dec_str n") auto

lemma scan_number_int_str: "scan_number (int_str i) = Some (JInt i, [])"
proof (cases "i < 0")
  case True
  then show ?thesis
    by (simp add: scan_number_def int_str_def scan_int_dec_str scan_frac_def scan_exp_def)
next
  case False
  then have "take (Suc 0) (dec_str (nat i)) \<noteq> [45]"
    using hd_dec_str [of "nat i"] by (cases "dec_str (nat i)") (auto simp: is_digit_def)
  then show ?thesis
    using False by (simp add: scan_number_def int_str_def scan_int_dec_str scan_frac_def scan_exp_def)
qed

text \<open>A number starts with a digit, or with a minus sign and a digit.\<close>

lemma scan_number_starts:
  "scan_number s = Some (v, r) \<Longrightarrow> is_digit (hd s) \<and> s \<noteq> [] \<or> hd s = 45 \<and> tl s \<noteq> [] \<and> is_digit (hd (tl s)) \<and> s \<noteq> []"
  by (cases s; cases "tl s")
    (auto simp: scan_number_def Let_def scan_int_def is_digit_def split: option.splits list.splits if_splits)

lemma scan_scalar_number:
  assumes "scan_number s = Some (v, q)"
  shows "scan_scalar s = Inr (v, q)"
proof -
  have "\<not> starts_with p s" if "p \<in> {lit ''null'', lit ''true'', lit ''false'', lit ''NaN'', lit ''Infinity'', lit ''-Infinity''}" for p
    using that scan_number_starts [OF assms]
    by (cases s; cases "tl s") (auto simp: starts_with_def lit_def is_digit_def)
  then show ?thesis
    using assms by (simp add: reject_constant_def scan_scalar_def)
qed

lemma parse_number:
  assumes "scan_number s = Some (v, [])" "num_end r"
  shows "parse_value (Suc n) (s @ r) = Inr (v, r)"
proof -
  obtain c t where s: "s = c # t" "c \<noteq> 34" "c \<noteq> 123" "c \<noteq> 91"
    using scan_number_starts [OF assms(1)] by (cases s) (auto simp: is_digit_def)
  then show ?thesis
    using scan_scalar_number [OF scan_number_append [OF assms(2,1)]] by simp
qed

lemma scan_scalar_literal:
  "parse_value (Suc n) (lit ''null'' @ r) = Inr (JNull, r)"
  "parse_value (Suc n) (lit ''true'' @ r) = Inr (JBool True, r)"
  "parse_value (Suc n) (lit ''false'' @ r) = Inr (JBool False, r)"
  by (simp_all add: scan_scalar_def starts_with_def lit_def)

lemma skip_ws_stop: "s \<noteq> [] \<Longrightarrow> \<not> is_ws (hd s) \<Longrightarrow> skip_ws (s @ r) = s @ r"
  by (cases s) (auto simp: skip_ws_def)

lemma json_text_starts:
  assumes "json_ok v"
  shows "json_text v \<noteq> [] \<and> \<not> is_ws (hd (json_text v)) \<and> hd (json_text v) \<notin> {93, 125}"
proof (cases v)
  case (JInt i)
  then show ?thesis
    using scan_number_starts [OF scan_number_int_str [of i]] by (auto simp: is_ws_def is_digit_def)
next
  case (JFloat x)
  then show ?thesis
    using scan_number_starts [of x "JFloat x" "[]"] assms
    by (auto simp: float_lexeme_def is_ws_def is_digit_def)
qed (use assms in \<open>auto simp: lit_def is_ws_def json_string_def\<close>)

lemma commas_Cons: "commas (x # xs) = x @ (if xs = [] then [] else 44 # commas xs)"
  by (cases xs) auto

lemma parse_items_text:
  assumes "\<And>v n r. v \<in> set (w # ws) \<Longrightarrow> 2 * length (json_text v) + 1 \<le> n \<Longrightarrow> num_end r \<Longrightarrow>
      parse_value n (json_text v @ r) = Inr (v, r)"
    and "list_all json_ok (w # ws)" "2 * length (commas (map json_text (w # ws))) + 2 \<le> n"
  shows "parse_items n (commas (map json_text (w # ws)) @ 93 # r) = Inr (w # ws, r)"
  using assms
proof (induction ws arbitrary: w n)
  case Nil
  then obtain m where "n = Suc m" by (cases n) auto
  moreover have "num_end (93 # r)"
    by (simp add: num_end_def is_digit_def)
  ultimately show ?case
    using Nil(1) [of w m "93 # r"] Nil(3) by (simp add: skip_ws_def is_ws_def)
next
  case (Cons u us)
  then obtain m where n: "n = Suc m" by (cases n) auto
  let ?t = "commas (map json_text (u # us))"
  have end44: "num_end (44 # x)" for x
    by (simp add: num_end_def is_digit_def)
  have "parse_value m (json_text w @ 44 # ?t @ 93 # r) = Inr (w, 44 # ?t @ 93 # r)"
    using Cons(4) n by (intro Cons(2)) (auto simp: end44 commas_Cons)
  moreover have "parse_items m (?t @ 93 # r) = Inr (u # us, r)"
    using Cons(3,4) n by (intro Cons(1) Cons(2)) (auto simp: commas_Cons)
  moreover have "skip_ws (?t @ 93 # r) = ?t @ 93 # r"
    using json_text_starts [of u] Cons(3) by (intro skip_ws_stop) (auto simp: commas_Cons)
  moreover have "skip_ws (44 # x) = 44 # x" for x
    by (simp add: skip_ws_def is_ws_def)
  ultimately show ?case
    using n by simp
qed

definition pair_text :: "pystr \<times> json \<Rightarrow> pystr" where
  "pair_text p = json_string (fst p) @ [58] @ json_text (snd p)"

lemma json_text_JObj [simp]: "json_text (JObj ps) = 123 # commas (map pair_text ps) @ [125]"
  by (simp add: pair_text_def [abs_def] case_prod_unfold)

declare json_text.simps(8) [simp del]

lemma skip_ws_punct:
  "skip_ws (44 # x) = 44 # x" "skip_ws (58 # x) = 58 # x" "skip_ws (93 # x) = 93 # x"
  "skip_ws (125 # x) = 125 # x" "skip_ws (34 # x) = 34 # x"
  by (simp_all add: skip_ws_def is_ws_def)

lemma num_end_punct: "num_end (44 # x)" "num_end (93 # x)" "num_end (125 # x)"
  by (simp_all add: num_end_def is_digit_def)

lemma parse_pair_step:
  assumes "parse_value n (json_text (snd p) @ r) = Inr (snd p, r)" "json_ok (snd p)" "skip_ws r = d # r'"
    "d = 125 \<or> d = 44"
  shows "parse_pairs (Suc n) (pair_text p @ r) =
    (if d = 125 then Inr ([p], r') else ebind (parse_pairs n (skip_ws r')) (\<lambda>(ps, q). Inr (p # ps, q)))"
proof -
  have "skip_ws (json_text (snd p) @ r) = json_text (snd p) @ r"
    using json_text_starts [OF assms(2)] by (intro skip_ws_stop) auto
  then show ?thesis
    using assms by (auto simp: pair_text_def json_string_def scan_string_json skip_ws_punct)
qed

lemma parse_pairs_text:
  assumes "\<And>p n r. p \<in> set (w # ws) \<Longrightarrow> 2 * length (json_text (snd p)) + 1 \<le> n \<Longrightarrow> num_end r \<Longrightarrow>
      parse_value n (json_text (snd p) @ r) = Inr (snd p, r)"
    and "\<forall>p \<in> set (w # ws). json_ok (snd p)" "2 * length (commas (map pair_text (w # ws))) + 2 \<le> n"
  shows "parse_pairs n (commas (map pair_text (w # ws)) @ 125 # r) = Inr (w # ws, r)"
  using assms
proof (induction ws arbitrary: w n)
  case Nil
  then obtain m where n: "n = Suc m" by (cases n) auto
  have "parse_value m (json_text (snd w) @ 125 # r) = Inr (snd w, 125 # r)"
    using Nil(3) n by (intro Nil(1)) (auto simp: num_end_punct pair_text_def)
  then show ?case
    using Nil(2) n parse_pair_step [of m w "125 # r" 125 r] by (simp add: skip_ws_punct)
next
  case (Cons u us)
  then obtain m where n: "n = Suc m" by (cases n) auto
  let ?t = "commas (map pair_text (u # us))"
  have "parse_value m (json_text (snd w) @ 44 # ?t @ 125 # r) = Inr (snd w, 44 # ?t @ 125 # r)"
    using Cons(4) n by (intro Cons(2)) (auto simp: num_end_punct commas_Cons pair_text_def)
  moreover have "parse_pairs m (?t @ 125 # r) = Inr (u # us, r)"
    using Cons(3,4) n by (intro Cons(1) Cons(2)) (auto simp: commas_Cons)
  moreover have "skip_ws (?t @ 125 # r) = ?t @ 125 # r"
    by (simp add: commas_Cons pair_text_def json_string_def skip_ws_punct)
  ultimately show ?case
    using n Cons(3) parse_pair_step [of m w "44 # ?t @ 125 # r" 44 "?t @ 125 # r"]
    by (simp add: skip_ws_punct commas_Cons)
qed

lemma parse_value_text:
  "json_ok v \<Longrightarrow> 2 * length (json_text v) + 1 \<le> n \<Longrightarrow> num_end r \<Longrightarrow>
   parse_value n (json_text v @ r) = Inr (v, r)"
proof (induction v arbitrary: n r)
  case (JArr vs)
  then obtain m where n: "n = Suc m" by (cases n) auto
  show ?case
  proof (cases vs)
    case (Cons w ws)
    have "parse_items m (commas (map json_text vs) @ 93 # r) = Inr (vs, r)"
      using JArr n unfolding Cons by (intro parse_items_text JArr(1)) (auto simp: Cons list_all_iff)
    moreover have "skip_ws (commas (map json_text vs) @ 93 # r) = commas (map json_text vs) @ 93 # r"
      "hd (commas (map json_text vs)) \<noteq> 93" "commas (map json_text vs) \<noteq> []"
      using json_text_starts [of w] JArr(2) Cons
      by (auto intro!: skip_ws_stop simp: commas_Cons)
    ultimately show ?thesis
      using n by (cases "commas (map json_text vs)") auto
  qed (simp add: n skip_ws_punct)
next
  case (JObj ps)
  then obtain m where n: "n = Suc m" by (cases n) auto
  show ?case
  proof (cases ps)
    case (Cons w ws)
    have "parse_pairs m (commas (map pair_text ps) @ 125 # r) = Inr (ps, r)"
      using JObj n unfolding Cons
      by (intro parse_pairs_text JObj(1)) (auto simp: Cons list_all_iff)
    moreover have "skip_ws (commas (map pair_text ps) @ 125 # r) = commas (map pair_text ps) @ 125 # r"
      "hd (commas (map pair_text ps)) = 34" "commas (map pair_text ps) \<noteq> []"
      using Cons by (simp_all add: commas_Cons pair_text_def json_string_def skip_ws_punct)
    moreover have "distinct (map fst ps)"
      using JObj(2) by simp
    ultimately show ?thesis
      using n by (cases "commas (map pair_text ps)") auto
  qed (simp add: n skip_ws_punct)
next
  case (JStr t)
  then show ?case
    by (cases n) (auto simp: json_string_def scan_string_json)
next
  case (JInt i)
  then show ?case
    by (cases n) (auto intro: parse_number scan_number_int_str simp del: parse_value.simps(2))
next
  case (JFloat x)
  then show ?case
    by (cases n) (auto intro: parse_number simp: float_lexeme_def simp del: parse_value.simps(2))
next
  case JNull
  then show ?case
    by (cases n) (simp_all add: scan_scalar_literal del: parse_value.simps(2))
next
  case (JBool b)
  then show ?case
    by (cases n) (simp_all add: scan_scalar_literal del: parse_value.simps(2))
qed simp_all

theorem json_loads_text: "json_ok v \<Longrightarrow> json_loads (json_text v) = Inr v"
proof -
  assume ok: "json_ok v"
  then have "skip_ws (json_text v) = json_text v"
    using skip_ws_stop [of "json_text v" "[]"] json_text_starts [OF ok] by simp
  moreover have "parse_value (2 * length (json_text v) + 1) (json_text v @ []) = Inr (v, [])"
    using ok by (intro parse_value_text) (auto simp: num_end_def)
  ultimately show ?thesis
    by (simp add: json_loads_def skip_ws_def)
qed

lemma json_ok_finite: "json_ok v \<Longrightarrow> json_finite v"
  by (induction v) (fastforce simp: list_all_iff)+

end
