(* ===== verification/Tables.thy ===== *)
theory Tables
  imports Prelude "HOL-Library.AList" "HOL-Library.List_Lexorder"
begin

text \<open>
  Database tables with a primary key: an association list with distinct keys. A lookup is
  \<open>map_of\<close>, an insert or an update of one row is \<open>AList.update\<close>, a delete keeps the other rows.
  A service call runs in one transaction: when it raises, the rows are those from before it.
\<close>

definition table :: "('k \<times> 'r) list \<Rightarrow> bool" where
  "table t \<longleftrightarrow> distinct (map fst t)"

definition count_rows :: "('k \<Rightarrow> bool) \<Rightarrow> ('k \<times> 'r) list \<Rightarrow> nat" where
  "count_rows P t = length (filter (P \<circ> fst) t)"

definition delete_rows :: "('k \<times> 'r \<Rightarrow> bool) \<Rightarrow> ('k \<times> 'r) list \<Rightarrow> ('k \<times> 'r) list" where
  "delete_rows P t = filter (\<lambda>x. \<not> P x) t"

named_theorems table_simps

lemma table_Nil [simp]: "table []"
  by (simp add: table_def)

lemma table_update [simp]: "table t \<Longrightarrow> table (AList.update k r t)"
  by (simp add: table_def distinct_update)

lemma table_delete [simp]: "table t \<Longrightarrow> table (delete_rows P t)"
  by (auto simp: table_def delete_rows_def distinct_map intro: inj_on_subset)

lemma lookup_update [table_simps]: "map_of (AList.update k r t) k' = (if k' = k then Some r else map_of t k')"
  by (simp add: update_conv')

lemma update_fresh: "map_of t k = None \<Longrightarrow> AList.update k r t = t @ [(k, r)]"
  by (induction t) auto

lemma length_update: "length (AList.update k r t) = (if map_of t k = None then Suc (length t) else length t)"
  by (induction t) auto

lemma count_update:
  "count_rows P (AList.update k r t) = count_rows P t + (if map_of t k = None \<and> P k then 1 else 0)"
  by (induction t) (auto simp: count_rows_def)

lemma length_delete: "length (delete_rows P t) \<le> length t"
  by (simp add: delete_rows_def)

lemma lookup_delete:
  "table t \<Longrightarrow> map_of (delete_rows P t) k =
     (case map_of t k of None \<Rightarrow> None | Some r \<Rightarrow> if P (k, r) then None else Some r)"
  by (induction t) (auto simp: table_def delete_rows_def map_of_eq_None_iff split: option.splits dest: map_of_SomeD)

lemma lookup_mem: "table t \<Longrightarrow> (k, r) \<in> set t \<longleftrightarrow> map_of t k = Some r"
  by (simp add: table_def)

end
