(* ===== verification/Waw_Domain.thy ===== *)
theory Waw_Domain
  imports Py_Utf8 Py_Hash
begin

text \<open>
  The domain primitives of the Web Agent Workspace (\<open>agentbox_core/waw.py\<close>): identifier
  validation, the deterministic workspace identity and Runtime marker, the generation counter,
  the workspace lifecycle table, the writer lease slot and the Stop operation.

  Python's \<open>StrEnum\<close> members are strings, so a parameter typed \<open>AgentType | str\<close> is a \<open>pystr\<close>
  here and the coercion the code performs is the function of the same name. Frozen dataclasses
  are records with the \<open>__post_init__\<close> check as a function \<open>..._init\<close>; \<open>dataclasses.replace\<close>
  runs that check again, and so does the model. Datetimes are integers (microseconds).
\<close>

section \<open>Enumerations\<close>

datatype AgentType = CLAUDE | CODEX

fun AgentType_value :: "AgentType \<Rightarrow> pystr" where
  "AgentType_value CLAUDE = lit ''claude''"
| "AgentType_value CODEX = lit ''codex''"

datatype WorkspaceState = STARTING | RUNNING | NEEDS_INTERACTION | TRUST_REQUIRED
  | LOGIN_REQUIRED | STOPPING | EXITED | STOPPED | MISSING | COLLISION | BROKEN | UNKNOWN

fun WorkspaceState_value :: "WorkspaceState \<Rightarrow> string" where
  "WorkspaceState_value STARTING = ''STARTING''"
| "WorkspaceState_value RUNNING = ''RUNNING''"
| "WorkspaceState_value NEEDS_INTERACTION = ''NEEDS_INTERACTION''"
| "WorkspaceState_value TRUST_REQUIRED = ''TRUST_REQUIRED''"
| "WorkspaceState_value LOGIN_REQUIRED = ''LOGIN_REQUIRED''"
| "WorkspaceState_value STOPPING = ''STOPPING''"
| "WorkspaceState_value EXITED = ''EXITED''"
| "WorkspaceState_value STOPPED = ''STOPPED''"
| "WorkspaceState_value MISSING = ''MISSING''"
| "WorkspaceState_value COLLISION = ''COLLISION''"
| "WorkspaceState_value BROKEN = ''BROKEN''"
| "WorkspaceState_value UNKNOWN = ''UNKNOWN''"

datatype ReconciliationState = RS_AUTHORITATIVE | RS_STOPPING | RS_MISSING | RS_COLLISION
  | RS_EXITED | RS_RECONCILIATION_REQUIRED | RS_UNKNOWN

fun ReconciliationState_value :: "ReconciliationState \<Rightarrow> string" where
  "ReconciliationState_value RS_AUTHORITATIVE = ''authoritative''"
| "ReconciliationState_value RS_STOPPING = ''stopping''"
| "ReconciliationState_value RS_MISSING = ''missing''"
| "ReconciliationState_value RS_COLLISION = ''collision''"
| "ReconciliationState_value RS_EXITED = ''exited''"
| "ReconciliationState_value RS_RECONCILIATION_REQUIRED = ''reconciliation_required''"
| "ReconciliationState_value RS_UNKNOWN = ''unknown''"

datatype StopResult = SR_PENDING | SR_STOPPED | SR_RECONCILIATION_REQUIRED | SR_TIMEOUT

fun StopResult_value :: "StopResult \<Rightarrow> string" where
  "StopResult_value SR_PENDING = ''PENDING''"
| "StopResult_value SR_STOPPED = ''STOPPED''"
| "StopResult_value SR_RECONCILIATION_REQUIRED = ''RECONCILIATION_REQUIRED''"
| "StopResult_value SR_TIMEOUT = ''TIMEOUT''"

datatype waw_error = WAWDomainError string

fun agent_type_of :: "pystr \<Rightarrow> waw_error + AgentType" where
  "agent_type_of v =
     (if v = AgentType_value CLAUDE then Inr CLAUDE
      else if v = AgentType_value CODEX then Inr CODEX
      else Inl (WAWDomainError ''agent_type must be claude or codex''))"

definition workspace_state_of :: "pystr \<Rightarrow> waw_error + WorkspaceState" where
  "workspace_state_of v =
     (case find (\<lambda>s. lit (WorkspaceState_value s) = v)
             [STARTING, RUNNING, NEEDS_INTERACTION, TRUST_REQUIRED, LOGIN_REQUIRED, STOPPING,
              EXITED, STOPPED, MISSING, COLLISION, BROKEN, UNKNOWN] of
        Some s \<Rightarrow> Inr s
      | None \<Rightarrow> Inl (WAWDomainError ''workspace state is invalid''))"

definition reconciliation_state_of :: "pystr \<Rightarrow> waw_error + ReconciliationState" where
  "reconciliation_state_of v =
     (case find (\<lambda>s. lit (ReconciliationState_value s) = v)
             [RS_AUTHORITATIVE, RS_STOPPING, RS_MISSING, RS_COLLISION, RS_EXITED,
              RS_RECONCILIATION_REQUIRED, RS_UNKNOWN] of
        Some s \<Rightarrow> Inr s
      | None \<Rightarrow> Inl (WAWDomainError ''reconciliation state is invalid''))"

definition stop_result_of :: "pystr \<Rightarrow> waw_error + StopResult" where
  "stop_result_of v =
     (case find (\<lambda>s. lit (StopResult_value s) = v)
             [SR_PENDING, SR_STOPPED, SR_RECONCILIATION_REQUIRED, SR_TIMEOUT] of
        Some s \<Rightarrow> Inr s
      | None \<Rightarrow> Inl (WAWDomainError ''stop result is invalid''))"

section \<open>Identifiers\<close>

datatype id_kind = workspace_kind | project_kind | attachment_kind | stop_operation_kind
  | runtime_host_kind

fun id_prefix :: "id_kind \<Rightarrow> pystr" where
  "id_prefix workspace_kind = lit ''aws_''"
| "id_prefix project_kind = lit ''prj_''"
| "id_prefix attachment_kind = lit ''att_''"
| "id_prefix stop_operation_kind = lit ''wso_''"
| "id_prefix runtime_host_kind = lit ''wri_''"

fun id_kind_name :: "id_kind \<Rightarrow> string" where
  "id_kind_name workspace_kind = ''workspace''"
| "id_kind_name project_kind = ''project''"
| "id_kind_name attachment_kind = ''attachment''"
| "id_kind_name stop_operation_kind = ''stop_operation''"
| "id_kind_name runtime_host_kind = ''runtime_host''"

text \<open>\<open>id_matches\<close> is the full match of \<open>\A<prefix>[a-f0-9]{32}\Z\<close>.\<close>

definition id_matches :: "id_kind \<Rightarrow> pystr \<Rightarrow> bool" where
  "id_matches k v \<longleftrightarrow>
     take 4 v = id_prefix k \<and> length v = 36 \<and> list_all is_hex (drop 4 v)"

definition validate_id :: "pystr \<Rightarrow> id_kind \<Rightarrow> waw_error + pystr" where
  "validate_id v k =
     (if \<not> id_matches k v
      then Inl (WAWDomainError (''invalid '' @ id_kind_name k @ '' identifier'')) else Inr v)"

definition validate_workspace_id :: "pystr \<Rightarrow> waw_error + pystr" where
  "validate_workspace_id v = validate_id v workspace_kind"

definition validate_project_id :: "pystr \<Rightarrow> waw_error + pystr" where
  "validate_project_id v = validate_id v project_kind"

definition validate_attachment_id :: "pystr \<Rightarrow> waw_error + pystr" where
  "validate_attachment_id v = validate_id v attachment_kind"

definition validate_stop_operation_id :: "pystr \<Rightarrow> waw_error + pystr" where
  "validate_stop_operation_id v = validate_id v stop_operation_kind"

definition validate_runtime_host_installation_id :: "pystr \<Rightarrow> waw_error + pystr" where
  "validate_runtime_host_installation_id v = validate_id v runtime_host_kind"

definition validate_binding_digest :: "pystr \<Rightarrow> waw_error + pystr" where
  "validate_binding_digest v =
     (if \<not> (length v = 64 \<and> list_all is_hex v)
      then Inl (WAWDomainError ''binding_digest must be 64 lowercase hexadecimal characters'')
      else Inr v)"

definition validate_positive_u64 :: "int \<Rightarrow> string \<Rightarrow> waw_error + int" where
  "validate_positive_u64 v field =
     (if \<not> (1 \<le> v \<and> v \<le> MAX_U64)
      then Inl (WAWDomainError (field @ '' must be an unsigned integer in 1..2^64-1''))
      else Inr v)"

section \<open>Deterministic identities\<close>

text \<open>\<open>project_id.encode("utf-8")\<close>: a validated identifier is ASCII.\<close>

definition encode_text :: "pystr \<Rightarrow> bytes" where
  "encode_text s = concat (map utf8_char s)"

definition workspace_id :: "pystr \<Rightarrow> pystr \<Rightarrow> waw_error + pystr" where
  "workspace_id project_id agent_type =
     ebind (validate_project_id project_id) (\<lambda>_.
     ebind (agent_type_of agent_type) (\<lambda>agent.
     let digest = take 32 (sha256_hexdigest
           (ascii ''agentbox-waw-v1'' @ [0] @ encode_text project_id @ [0]
              @ encode_text (AgentType_value agent)))
     in Inr (lit ''aws_'' @ digest)))"

definition managed_session_name :: "pystr \<Rightarrow> pystr \<Rightarrow> waw_error + pystr" where
  "managed_session_name project_id agent_type =
     ebind (validate_project_id project_id) (\<lambda>_.
     ebind (agent_type_of agent_type) (\<lambda>agent.
     let v = lit ''agentbox-waw-'' @ AgentType_value agent @ lit ''-''
               @ take 16 (sha256_hexdigest (encode_text project_id))
     in if length v > 80
        then Inl (WAWDomainError ''managed session name exceeds 80 characters'') else Inr v))"

fun join_nul :: "pystr list \<Rightarrow> pystr" where
  "join_nul [] = []"
| "join_nul [x] = x"
| "join_nul (x # xs) = x @ [0] @ join_nul xs"

definition marker_payload ::
  "pystr \<Rightarrow> int \<Rightarrow> pystr \<Rightarrow> AgentType \<Rightarrow> pystr \<Rightarrow> int \<Rightarrow> int \<Rightarrow> pystr \<Rightarrow> bytes" where
  "marker_payload host host_revision project_id agent workspace_id_value
       generation binding_revision digest =
     encode_text (join_nul [lit ''agentbox-waw-v1'', host, dec_str (nat host_revision), project_id,
       AgentType_value agent, workspace_id_value, dec_str (nat generation),
       dec_str (nat binding_revision), digest])"

definition managed_marker ::
  "pystr \<Rightarrow> int \<Rightarrow> pystr \<Rightarrow> pystr \<Rightarrow> pystr \<Rightarrow> int \<Rightarrow> int \<Rightarrow> pystr \<Rightarrow> waw_error + pystr" where
  "managed_marker host_id host_revision project_id agent_type workspace_id_value
       generation binding_revision binding_digest =
     ebind (validate_runtime_host_installation_id host_id) (\<lambda>host.
     ebind (validate_positive_u64 host_revision ''runtime_host_installation_revision'') (\<lambda>_.
     ebind (validate_project_id project_id) (\<lambda>_.
     ebind (agent_type_of agent_type) (\<lambda>agent.
     ebind (validate_workspace_id workspace_id_value) (\<lambda>_.
     ebind (validate_positive_u64 generation ''generation'') (\<lambda>_.
     ebind (validate_positive_u64 binding_revision ''binding_revision'') (\<lambda>_.
     ebind (validate_binding_digest binding_digest) (\<lambda>digest.
     let payload = marker_payload host host_revision project_id agent workspace_id_value
           generation binding_revision digest
     in Inr (lit ''waw-v1:'' @ host @ lit '':'' @ take 32 (sha256_hexdigest payload))))))))))"

section \<open>Generation counter\<close>

record GenerationCounter =
  gc_current :: int

definition GenerationCounter_init :: "GenerationCounter \<Rightarrow> waw_error + GenerationCounter" where
  "GenerationCounter_init c =
     (if \<not> (0 \<le> gc_current c \<and> gc_current c \<le> MAX_U64)
      then Inl (WAWDomainError ''generation counter is outside the uint64 domain'') else Inr c)"

definition allocate :: "GenerationCounter \<Rightarrow> waw_error + (int \<times> GenerationCounter)" where
  "allocate c =
     (if gc_current c = MAX_U64 then Inl (WAWDomainError ''generation counter exhausted'')
      else let generation = gc_current c + 1
           in ebind (GenerationCounter_init (c\<lparr>gc_current := generation\<rparr>))
                (\<lambda>c'. Inr (generation, c')))"

section \<open>Workspace lifecycle\<close>

fun transitions :: "WorkspaceState \<Rightarrow> WorkspaceState list" where
  "transitions STARTING = [RUNNING, NEEDS_INTERACTION, TRUST_REQUIRED, LOGIN_REQUIRED, STOPPING,
     EXITED, BROKEN, UNKNOWN]"
| "transitions RUNNING = [NEEDS_INTERACTION, TRUST_REQUIRED, LOGIN_REQUIRED, STOPPING, EXITED,
     BROKEN, UNKNOWN]"
| "transitions NEEDS_INTERACTION = [RUNNING, STOPPING, BROKEN, UNKNOWN]"
| "transitions TRUST_REQUIRED = [RUNNING, STOPPING, BROKEN, UNKNOWN]"
| "transitions LOGIN_REQUIRED = [RUNNING, STOPPING, BROKEN, UNKNOWN]"
| "transitions STOPPING = [STOPPED, UNKNOWN, BROKEN]"
| "transitions EXITED = [STARTING, STOPPING]"
| "transitions STOPPED = [STARTING]"
| "transitions MISSING = [STARTING, STOPPING]"
| "transitions COLLISION = [STOPPING, UNKNOWN]"
| "transitions BROKEN = [STARTING, STOPPING, UNKNOWN]"
| "transitions UNKNOWN = [STARTING, STOPPING]"

record AgentWorkspaceSession =
  aw_project_id :: pystr
  aw_agent_type :: pystr
  aw_runtime_host_installation_id :: pystr
  aw_runtime_host_installation_revision :: int
  aw_binding_revision :: int
  aw_binding_digest :: pystr
  aw_generation :: int
  aw_state :: WorkspaceState
  aw_reconciliation_state :: ReconciliationState
  aw_id :: "pystr option"

definition AgentWorkspaceSession_init ::
  "AgentWorkspaceSession \<Rightarrow> waw_error + AgentWorkspaceSession" where
  "AgentWorkspaceSession_init s =
     ebind (validate_project_id (aw_project_id s)) (\<lambda>_.
     ebind (agent_type_of (aw_agent_type s)) (\<lambda>agent.
     ebind (validate_runtime_host_installation_id (aw_runtime_host_installation_id s)) (\<lambda>_.
     ebind (validate_positive_u64 (aw_runtime_host_installation_revision s)
              ''runtime_host_installation_revision'') (\<lambda>_.
     ebind (validate_positive_u64 (aw_binding_revision s) ''binding_revision'') (\<lambda>_.
     ebind (validate_binding_digest (aw_binding_digest s)) (\<lambda>_.
     ebind (validate_positive_u64 (aw_generation s) ''generation'') (\<lambda>_.
     ebind (workspace_id (aw_project_id s) (AgentType_value agent)) (\<lambda>expected_id.
     case aw_id s of
       None \<Rightarrow> Inr (s\<lparr>aw_agent_type := AgentType_value agent, aw_id := Some expected_id\<rparr>)
     | Some i \<Rightarrow> ebind (validate_workspace_id i) (\<lambda>v.
         if v \<noteq> expected_id
         then Inl (WAWDomainError ''workspace id does not match project and agent_type'')
         else Inr (s\<lparr>aw_agent_type := AgentType_value agent\<rparr>))))))))))"

definition runtime_session_name :: "AgentWorkspaceSession \<Rightarrow> waw_error + pystr" where
  "runtime_session_name s = managed_session_name (aw_project_id s) (aw_agent_type s)"

definition runtime_marker :: "AgentWorkspaceSession \<Rightarrow> waw_error + pystr" where
  "runtime_marker s =
     managed_marker (aw_runtime_host_installation_id s) (aw_runtime_host_installation_revision s)
       (aw_project_id s) (aw_agent_type s) (the (aw_id s)) (aw_generation s)
       (aw_binding_revision s) (aw_binding_digest s)"

definition transition ::
  "AgentWorkspaceSession \<Rightarrow> pystr \<Rightarrow> pystr option \<Rightarrow> waw_error + AgentWorkspaceSession" where
  "transition s state reconciliation_state =
     ebind (workspace_state_of state) (\<lambda>target.
     if target = aw_state s then Inr s
     else if target \<notin> set (transitions (aw_state s))
     then Inl (WAWDomainError (''invalid workspace transition '' @ WorkspaceState_value (aw_state s)
                 @ ''->'' @ WorkspaceState_value target))
     else
     ebind (case reconciliation_state of
              None \<Rightarrow> Inr (aw_reconciliation_state s) | Some r \<Rightarrow> reconciliation_state_of r)
       (\<lambda>next_reconciliation. AgentWorkspaceSession_init
          (s\<lparr>aw_state := target, aw_reconciliation_state := next_reconciliation\<rparr>)))"

section \<open>Writer lease slot\<close>

record WriterLease =
  wl_workspace_id :: pystr
  wl_attachment_id :: pystr
  wl_generation :: int
  wl_lease_number :: int
  wl_issued_at :: int
  wl_expires_at :: int

definition WriterLease_init :: "WriterLease \<Rightarrow> waw_error + WriterLease" where
  "WriterLease_init l =
     ebind (validate_workspace_id (wl_workspace_id l)) (\<lambda>_.
     ebind (validate_attachment_id (wl_attachment_id l)) (\<lambda>_.
     ebind (validate_positive_u64 (wl_generation l) ''generation'') (\<lambda>_.
     ebind (validate_positive_u64 (wl_lease_number l) ''lease_number'') (\<lambda>_.
     if wl_expires_at l < wl_issued_at l
     then Inl (WAWDomainError ''lease expiry precedes issuance'') else Inr l))))"

definition WriterLease_matches :: "WriterLease \<Rightarrow> pystr \<Rightarrow> pystr \<Rightarrow> int \<Rightarrow> int \<Rightarrow> bool" where
  "WriterLease_matches l w a g n \<longleftrightarrow>
     wl_workspace_id l = w \<and> wl_attachment_id l = a \<and> wl_generation l = g \<and> wl_lease_number l = n"

definition WriterLease_active_at :: "WriterLease \<Rightarrow> int \<Rightarrow> bool" where
  "WriterLease_active_at l now \<longleftrightarrow> wl_issued_at l \<le> now \<and> now < wl_expires_at l"

type_synonym WriterLeaseSlot = "WriterLease option"

definition slot_acquire :: "WriterLeaseSlot \<Rightarrow> WriterLease \<Rightarrow> int \<Rightarrow> waw_error + WriterLeaseSlot" where
  "slot_acquire slot lease now =
     (case slot of
        Some l \<Rightarrow> if WriterLease_active_at l now
          then Inl (WAWDomainError ''workspace already has an active writer lease'')
          else Inr (Some lease)
      | None \<Rightarrow> Inr (Some lease))"

definition slot_release :: "WriterLeaseSlot \<Rightarrow> WriterLease \<Rightarrow> int \<Rightarrow> waw_error + WriterLeaseSlot" where
  "slot_release slot lease now =
     (case slot of
        None \<Rightarrow> Inr None
      | Some l \<Rightarrow>
          if \<not> WriterLease_matches l (wl_workspace_id lease) (wl_attachment_id lease)
                (wl_generation lease) (wl_lease_number lease)
          then Inl (WAWDomainError ''writer lease does not match current slot'') else Inr None)"

section \<open>Stop operation\<close>

record WorkspaceStopOperation =
  so_workspace_id :: pystr
  so_project_id :: pystr
  so_agent_type :: pystr
  so_generation :: int
  so_binding_revision :: int
  so_binding_digest :: pystr
  so_runtime_host_installation_id :: pystr
  so_runtime_host_installation_revision :: int
  so_stop_operation_id :: "pystr option"
  so_result :: StopResult

text \<open>\<open>token\<close> stands for \<open>secrets.token_hex(16)\<close>, drawn only when no id is given.\<close>

definition WorkspaceStopOperation_init ::
  "pystr \<Rightarrow> WorkspaceStopOperation \<Rightarrow> waw_error + WorkspaceStopOperation" where
  "WorkspaceStopOperation_init token o1 =
     ebind (validate_workspace_id (so_workspace_id o1)) (\<lambda>_.
     ebind (validate_project_id (so_project_id o1)) (\<lambda>_.
     ebind (workspace_id (so_project_id o1) (so_agent_type o1)) (\<lambda>w.
     if w \<noteq> so_workspace_id o1
     then Inl (WAWDomainError ''stop operation workspace does not match Project/AgentType'')
     else
     ebind (agent_type_of (so_agent_type o1)) (\<lambda>agent.
     ebind (validate_positive_u64 (so_generation o1) ''generation'') (\<lambda>_.
     ebind (validate_positive_u64 (so_binding_revision o1) ''binding_revision'') (\<lambda>_.
     ebind (validate_binding_digest (so_binding_digest o1)) (\<lambda>_.
     ebind (validate_runtime_host_installation_id (so_runtime_host_installation_id o1)) (\<lambda>_.
     ebind (validate_positive_u64 (so_runtime_host_installation_revision o1)
              ''runtime_host_installation_revision'') (\<lambda>_.
     case so_stop_operation_id o1 of
       None \<Rightarrow> Inr (o1\<lparr>so_agent_type := AgentType_value agent,
                       so_stop_operation_id := Some (lit ''wso_'' @ token)\<rparr>)
     | Some i \<Rightarrow> ebind (validate_stop_operation_id i) (\<lambda>_.
         Inr (o1\<lparr>so_agent_type := AgentType_value agent\<rparr>)))))))))))"

definition complete ::
  "pystr \<Rightarrow> WorkspaceStopOperation \<Rightarrow> pystr \<Rightarrow> waw_error + WorkspaceStopOperation" where
  "complete token o1 result =
     ebind (stop_result_of result) (\<lambda>outcome.
     if so_result o1 \<noteq> SR_PENDING
     then if outcome = so_result o1 then Inr o1
          else Inl (WAWDomainError ''stop operation is already terminal'')
     else WorkspaceStopOperation_init token (o1\<lparr>so_result := outcome\<rparr>))"

section \<open>Identities\<close>

lemmas validators = validate_workspace_id_def validate_project_id_def validate_attachment_id_def
  validate_stop_operation_id_def validate_runtime_host_installation_id_def validate_id_def
  validate_binding_digest_def validate_positive_u64_def

lemma validate_id_Inr [result_simps]: "validate_id v k = Inr w \<longleftrightarrow> w = v \<and> id_matches k v"
  by (auto simp: validate_id_def)

lemma validate_positive_u64_Inr [result_simps]:
  "validate_positive_u64 v f = Inr w \<longleftrightarrow> w = v \<and> 1 \<le> v \<and> v \<le> MAX_U64"
  by (auto simp: validate_positive_u64_def)

lemma validate_binding_digest_Inr [result_simps]:
  "validate_binding_digest v = Inr w \<longleftrightarrow> w = v \<and> length v = 64 \<and> list_all is_hex v"
  by (auto simp: validate_binding_digest_def)

lemma agent_values_differ [simp]:
  "AgentType_value CODEX \<noteq> AgentType_value CLAUDE" "AgentType_value CLAUDE \<noteq> AgentType_value CODEX"
  by (simp_all add: lit_def)

declare agent_type_of.simps [simp del] AgentType_value.simps [simp del]

lemma AgentType_value_inject [simp]: "AgentType_value a = AgentType_value b \<longleftrightarrow> a = b"
  by (cases a; cases b) simp_all

lemma agent_type_of_Inr [result_simps]: "agent_type_of v = Inr a \<longleftrightarrow> v = AgentType_value a"
  by (cases a) (auto simp: agent_type_of.simps)

lemma agent_type_of_value [simp]: "agent_type_of (AgentType_value a) = Inr a"
  using agent_type_of_Inr by blast

lemma list_all_take: "list_all P xs \<Longrightarrow> list_all P (take n xs)"
  by (simp add: list_all_length)

lemma workspace_id_matches: "workspace_id p a = Inr w \<Longrightarrow> id_matches workspace_kind w"
proof -
  assume "workspace_id p a = Inr w"
  then obtain d where "w = lit ''aws_'' @ take 32 (sha256_hexdigest d)"
    by (auto simp: workspace_id_def result_simps Let_def)
  moreover have "list_all is_hex (take 32 (sha256_hexdigest d))"
    by (rule list_all_take) (simp add: sha256_hexdigest_def hex_bytes_hex)
  moreover have "length (lit ''aws_'') = 4"
    by (simp add: lit_def)
  ultimately show ?thesis
    by (simp add: id_matches_def)
qed

text \<open>The text of an identifier holds only ASCII characters and no NUL.\<close>

definition plain :: "pystr \<Rightarrow> bool" where
  "plain s \<longleftrightarrow> list_all (\<lambda>c. 0 < c \<and> c < 128) s"

lemma plain_append [simp]: "plain (s @ t) \<longleftrightarrow> plain s \<and> plain t"
  by (simp add: plain_def)

lemma plain_hex: "list_all is_hex s \<Longrightarrow> plain s"
  unfolding plain_def by (erule list.pred_mono_strong) (auto simp: is_hex_def)

lemma plain_digits: "list_all is_digit s \<Longrightarrow> plain s"
  unfolding plain_def by (erule list.pred_mono_strong) (auto simp: is_digit_def)

lemma plain_dec_str [simp]: "plain (dec_str n)"
  by (rule plain_digits) (rule dec_str_digits)

lemma plain_id_prefix [simp]: "plain (id_prefix k)"
  by (cases k) (simp_all add: plain_def lit_def)

lemma plain_agent [simp]: "plain (AgentType_value a)"
  by (cases a) (simp_all add: plain_def lit_def AgentType_value.simps)

lemma plain_id: "id_matches k v \<Longrightarrow> plain v"
  by (metis append_take_drop_id id_matches_def plain_append plain_hex plain_id_prefix)

lemma separator_unique:
  "\<lbrakk>xs @ c # us = ys @ c # vs; c \<notin> set xs; c \<notin> set ys\<rbrakk> \<Longrightarrow> xs = ys \<and> us = vs"
  by (induction xs arbitrary: ys) (case_tac ys; auto)+

lemma join_nul_inject:
  assumes "length xs = length ys" "list_all plain xs" "list_all plain ys" "join_nul xs = join_nul ys"
  shows "xs = ys"
  using assms
proof (induction xs ys rule: list_induct2)
  case Nil
  then show ?case by simp
next
  case (Cons x xs y ys)
  show ?case
  proof (cases xs)
    case Nil
    with Cons show ?thesis by simp
  next
    case (Cons x' xs')
    with Cons.hyps obtain y' ys' where ys: "ys = y' # ys'" by (cases ys) auto
    have eq: "x @ 0 # join_nul xs = y @ 0 # join_nul ys"
      using Cons.prems(3) Cons ys by simp
    have "0 \<notin> set x" "0 \<notin> set y"
      using Cons.prems(1,2) by (auto simp: plain_def list_all_iff)
    with eq have "x = y \<and> join_nul xs = join_nul ys"
      by (rule separator_unique)
    then show ?thesis using Cons.IH Cons.prems by simp
  qed
qed

lemma encode_text_inject:
  assumes "list_all is_scalar s" "list_all is_scalar t" "encode_text s = encode_text t"
  shows "s = t"
proof -
  have "utf8_encode s = utf8_encode t"
    using assms by (simp add: utf8_encode_def encode_text_def)
  moreover obtain bs where "utf8_encode s = Some bs"
    using assms(1) by (simp add: utf8_encode_def)
  ultimately show ?thesis using utf8_decode_encode by (metis option.inject)
qed

lemma plain_scalar: "plain s \<Longrightarrow> list_all is_scalar s"
  unfolding plain_def by (erule list.pred_mono_strong) (auto simp: is_scalar_def is_surrogate_def)

lemma join_nul_scalar: "list_all plain xs \<Longrightarrow> list_all is_scalar (join_nul xs)"
  by (induction xs rule: join_nul.induct)
    (auto simp: plain_scalar is_scalar_def is_surrogate_def)

section \<open>Sessions\<close>

lemma validate_kinds_Inr [result_simps]:
  "validate_workspace_id v = Inr w \<longleftrightarrow> w = v \<and> id_matches workspace_kind v"
  "validate_project_id v = Inr w \<longleftrightarrow> w = v \<and> id_matches project_kind v"
  "validate_attachment_id v = Inr w \<longleftrightarrow> w = v \<and> id_matches attachment_kind v"
  "validate_stop_operation_id v = Inr w \<longleftrightarrow> w = v \<and> id_matches stop_operation_kind v"
  "validate_runtime_host_installation_id v = Inr w \<longleftrightarrow> w = v \<and> id_matches runtime_host_kind v"
  by (simp_all add: validate_workspace_id_def validate_project_id_def validate_attachment_id_def
      validate_stop_operation_id_def validate_runtime_host_installation_id_def result_simps)

lemma validators_ok:
  "id_matches workspace_kind v \<Longrightarrow> validate_workspace_id v = Inr v"
  "id_matches project_kind v \<Longrightarrow> validate_project_id v = Inr v"
  "id_matches attachment_kind v \<Longrightarrow> validate_attachment_id v = Inr v"
  "id_matches stop_operation_kind v \<Longrightarrow> validate_stop_operation_id v = Inr v"
  "id_matches runtime_host_kind v \<Longrightarrow> validate_runtime_host_installation_id v = Inr v"
  "length d = 64 \<Longrightarrow> list_all is_hex d \<Longrightarrow> validate_binding_digest d = Inr d"
  "1 \<le> n \<Longrightarrow> n \<le> MAX_U64 \<Longrightarrow> validate_positive_u64 n f = Inr n"
  by (simp_all add: result_simps)

lemma workspace_id_agent:
  "workspace_id p v = Inr w \<Longrightarrow> \<exists>a. v = AgentType_value a \<and> agent_type_of v = Inr a"
  by (auto simp: workspace_id_def result_simps)

text \<open>What the checked constructor promises of a session it returns.\<close>

definition session_wf :: "AgentWorkspaceSession \<Rightarrow> bool" where
  "session_wf s \<longleftrightarrow>
     id_matches project_kind (aw_project_id s) \<and>
     id_matches runtime_host_kind (aw_runtime_host_installation_id s) \<and>
     1 \<le> aw_runtime_host_installation_revision s \<and> aw_runtime_host_installation_revision s \<le> MAX_U64 \<and>
     1 \<le> aw_binding_revision s \<and> aw_binding_revision s \<le> MAX_U64 \<and>
     length (aw_binding_digest s) = 64 \<and> list_all is_hex (aw_binding_digest s) \<and>
     1 \<le> aw_generation s \<and> aw_generation s \<le> MAX_U64 \<and>
     (\<exists>w. aw_id s = Some w \<and> workspace_id (aw_project_id s) (aw_agent_type s) = Inr w)"

definition same_identity :: "AgentWorkspaceSession \<Rightarrow> AgentWorkspaceSession \<Rightarrow> bool" where
  "same_identity s t \<longleftrightarrow>
     t = s\<lparr>aw_state := aw_state t, aw_reconciliation_state := aw_reconciliation_state t\<rparr>"

lemma same_identity_trans: "same_identity s t \<Longrightarrow> same_identity t u \<Longrightarrow> same_identity s u"
  unfolding same_identity_def by (metis AgentWorkspaceSession.update_convs(8,9)
      AgentWorkspaceSession.surjective AgentWorkspaceSession.ext_inject)

lemma session_init_wf: "AgentWorkspaceSession_init s0 = Inr s \<Longrightarrow> session_wf s"
  by (auto simp: AgentWorkspaceSession_init_def session_wf_def result_simps split: option.splits
      if_splits)

lemma session_init_fix:
  assumes "session_wf s"
  shows "AgentWorkspaceSession_init s = Inr s"
proof -
  from assms obtain w where w: "aw_id s = Some w"
      "workspace_id (aw_project_id s) (aw_agent_type s) = Inr w"
    by (auto simp: session_wf_def)
  obtain a where a: "aw_agent_type s = AgentType_value a"
    using workspace_id_agent [OF w(2)] by blast
  have "validate_workspace_id w = Inr w"
    using workspace_id_matches [OF w(2)] by (rule validators_ok)
  moreover have "s\<lparr>aw_agent_type := AgentType_value a\<rparr> = s"
    using a by simp
  ultimately show ?thesis
    using assms w a
    by (simp add: AgentWorkspaceSession_init_def session_wf_def validators_ok)
qed

text \<open>\<open>transition\<close> on a well-formed session: the table decides, nothing else changes.\<close>

lemma transition_cases:
  assumes "session_wf s" "transition s v r = Inr t"
  shows "t = s \<or> aw_state t \<in> set (transitions (aw_state s)) \<and> same_identity s t \<and> session_wf t"
proof (cases "t = s")
  case False
  with assms(2) obtain tgt rec where
    tgt: "tgt \<in> set (transitions (aw_state s))" and
    t: "AgentWorkspaceSession_init (s\<lparr>aw_state := tgt, aw_reconciliation_state := rec\<rparr>) = Inr t"
    by (auto simp: transition_def result_simps split: if_splits)
  have "session_wf (s\<lparr>aw_state := tgt, aw_reconciliation_state := rec\<rparr>)"
    using assms(1) by (simp add: session_wf_def)
  from session_init_fix [OF this] t tgt assms(1) show ?thesis
    by (auto simp: same_identity_def session_wf_def)
qed simp

inductive session_step :: "AgentWorkspaceSession \<Rightarrow> AgentWorkspaceSession \<Rightarrow> bool" where
  "transition s v r = Inr t \<Longrightarrow> session_step s t"

inductive_cases session_stepE: "session_step s t"

lemma same_identity_refl [simp]: "same_identity s s"
  by (simp add: same_identity_def)

lemma session_reach:
  assumes "session_step\<^sup>*\<^sup>* s t" "session_wf s"
  shows "session_wf t \<and> same_identity s t"
  using assms
proof (induction rule: rtranclp_induct)
  case base
  then show ?case by simp
next
  case (step y z)
  then show ?case using transition_cases by (metis same_identity_trans session_step.cases)
qed

lemma transitions_targets:
  "MISSING \<notin> set (transitions a)" "COLLISION \<notin> set (transitions a)"
  "STOPPED \<in> set (transitions a) \<Longrightarrow> a = STOPPING"
  by (cases a; simp)+

lemma session_enter:
  assumes "session_step\<^sup>*\<^sup>* s t" "session_wf s" "aw_state s \<noteq> aw_state t"
  shows "\<exists>u. session_step\<^sup>*\<^sup>* s u \<and> session_step u t \<and> aw_state t \<in> set (transitions (aw_state u))"
  using assms
proof (induction rule: rtranclp_induct)
  case base
  then show ?case by simp
next
  case (step y z)
  then have "session_wf y" using session_reach by blast
  with step.hyps(2) consider "z = y" | "aw_state z \<in> set (transitions (aw_state y))"
    using transition_cases by (metis session_step.cases)
  then show ?case using step by cases auto
qed


definition sample_session :: AgentWorkspaceSession where
  "sample_session = \<lparr>aw_project_id = lit ''prj_00000000000000000000000000000000'',
     aw_agent_type = lit ''codex'',
     aw_runtime_host_installation_id = lit ''wri_00000000000000000000000000000000'',
     aw_runtime_host_installation_revision = 1, aw_binding_revision = 1,
     aw_binding_digest = replicate 64 48, aw_generation = 1, aw_state = STARTING,
     aw_reconciliation_state = RS_AUTHORITATIVE, aw_id = None\<rparr>"

lemma sample_session_init:
  "\<exists>w. AgentWorkspaceSession_init sample_session = Inr (sample_session\<lparr>aw_id := Some w\<rparr>)"
proof -
  let ?p = "lit ''prj_00000000000000000000000000000000''"
  have p: "id_matches project_kind ?p"
    "id_matches runtime_host_kind (lit ''wri_00000000000000000000000000000000'')"
    by (simp_all add: id_matches_def lit_def is_hex_def)
  have a: "lit ''codex'' = AgentType_value CODEX"
    by (simp add: AgentType_value.simps)
  have "\<exists>w. workspace_id ?p (AgentType_value CODEX) = Inr w"
    using p by (simp add: workspace_id_def validators_ok Let_def)
  moreover have "list_all is_hex (replicate 64 48)"
    by (simp add: list_all_iff is_hex_def)
  ultimately show ?thesis using p
    by (auto simp: AgentWorkspaceSession_init_def sample_session_def a validators_ok MAX_U64_eval)
qed

lemma workspace_state_of_value [simp]: "workspace_state_of (lit (WorkspaceState_value x)) = Inr x"
  by (cases x) (simp_all add: workspace_state_of_def lit_def)


section \<open>Runtime marker\<close>

text \<open>
  C36. The text hashed into the Runtime marker determines every component of the binding: two
  accepted calls of \<open>managed_marker\<close> hash the same payload only when the host installation, its
  revision, the project, the agent, the workspace, the generation, the binding revision and the
  binding digest all agree. So a marker can be shared by two generations only by a collision of
  SHA-256 on different inputs.
\<close>

theorem marker_payload_inject:
  assumes "managed_marker h hr p v w g br d = Inr m" "managed_marker h' hr' p' v' w' g' br' d' = Inr m'"
    and "agent_type_of v = Inr a" "agent_type_of v' = Inr a'"
    and "marker_payload h hr p a w g br d = marker_payload h' hr' p' a' w' g' br' d'"
  shows "h = h' \<and> hr = hr' \<and> p = p' \<and> v = v' \<and> w = w' \<and> g = g' \<and> br = br' \<and> d = d'"
proof -
  have ids: "id_matches runtime_host_kind h" "id_matches runtime_host_kind h'"
    "id_matches project_kind p" "id_matches project_kind p'"
    "id_matches workspace_kind w" "id_matches workspace_kind w'"
    and d: "list_all is_hex d" "list_all is_hex d'"
    and pos: "1 \<le> hr" "1 \<le> hr'" "1 \<le> g" "1 \<le> g'" "1 \<le> br" "1 \<le> br'"
    using assms(1,2) by (auto simp: managed_marker_def result_simps)
  have lit: "plain (lit ''agentbox-waw-v1'')" by (simp add: plain_def lit_def)
  let ?xs = "[lit ''agentbox-waw-v1'', h, dec_str (nat hr), p, AgentType_value a, w,
    dec_str (nat g), dec_str (nat br), d]"
  let ?ys = "[lit ''agentbox-waw-v1'', h', dec_str (nat hr'), p', AgentType_value a', w',
    dec_str (nat g'), dec_str (nat br'), d']"
  have xs: "list_all plain ?xs" and ys: "list_all plain ?ys"
    using ids d lit by (simp_all add: plain_id plain_hex)
  have "join_nul ?xs = join_nul ?ys"
    using encode_text_inject [OF join_nul_scalar [OF xs] join_nul_scalar [OF ys]] assms(5)
    unfolding marker_payload_def by blast
  then have "?xs = ?ys" using join_nul_inject [OF _ xs ys] by simp
  then show ?thesis using pos assms(3,4) by (auto simp: result_simps nat_eq_iff)
qed

theorem marker_payload_inject_witness:
  "\<exists>m. managed_marker (lit ''wri_00000000000000000000000000000000'') 1
          (lit ''prj_00000000000000000000000000000000'') (lit ''codex'')
          (lit ''aws_00000000000000000000000000000000'') 7 1 (replicate 64 48) = Inr m
     \<and> marker_payload (lit ''wri_00000000000000000000000000000000'') 1
          (lit ''prj_00000000000000000000000000000000'') CODEX
          (lit ''aws_00000000000000000000000000000000'') 7 1 (replicate 64 48)
       \<noteq> marker_payload (lit ''wri_00000000000000000000000000000000'') 1
          (lit ''prj_00000000000000000000000000000000'') CODEX
          (lit ''aws_00000000000000000000000000000000'') 8 1 (replicate 64 48)"
proof -
  have ids: "id_matches project_kind (lit ''prj_00000000000000000000000000000000'')"
    "id_matches runtime_host_kind (lit ''wri_00000000000000000000000000000000'')"
    "id_matches workspace_kind (lit ''aws_00000000000000000000000000000000'')"
    by (simp_all add: id_matches_def lit_def is_hex_def)
  have d: "list_all is_hex (replicate 64 48)"
    by (simp add: list_all_iff is_hex_def)
  have a: "agent_type_of (lit ''codex'') = Inr CODEX"
    by (simp add: agent_type_of_Inr AgentType_value.simps)
  have ok: "\<exists>m. managed_marker (lit ''wri_00000000000000000000000000000000'') 1
          (lit ''prj_00000000000000000000000000000000'') (lit ''codex'')
          (lit ''aws_00000000000000000000000000000000'') g 1 (replicate 64 48) = Inr m"
    if "1 \<le> g" "g \<le> MAX_U64" for g
    using that ids d a by (simp add: managed_marker_def validators_ok MAX_U64_eval)
  obtain m m' where
    m: "managed_marker (lit ''wri_00000000000000000000000000000000'') 1
          (lit ''prj_00000000000000000000000000000000'') (lit ''codex'')
          (lit ''aws_00000000000000000000000000000000'') 7 1 (replicate 64 48) = Inr m"
    and m': "managed_marker (lit ''wri_00000000000000000000000000000000'') 1
          (lit ''prj_00000000000000000000000000000000'') (lit ''codex'')
          (lit ''aws_00000000000000000000000000000000'') 8 1 (replicate 64 48) = Inr m'"
    using ok [of 7] ok [of 8] by (auto simp: MAX_U64_eval)
  show ?thesis using marker_payload_inject [OF m m' a a] m by auto
qed

section \<open>Generations\<close>

text \<open>\<open>allocations n c\<close> is \<open>n\<close> calls of \<open>allocate\<close> in a row, stopping at the first error.\<close>

fun allocations :: "nat \<Rightarrow> GenerationCounter \<Rightarrow> waw_error + (int list \<times> GenerationCounter)" where
  "allocations 0 c = Inr ([], c)"
| "allocations (Suc n) c =
     ebind (allocate c) (\<lambda>(g, c'). ebind (allocations n c') (\<lambda>(gs, c''). Inr (g # gs, c'')))"

lemma allocate_ok:
  "0 \<le> gc_current c \<Longrightarrow> gc_current c < MAX_U64 \<Longrightarrow>
   allocate c = Inr (gc_current c + 1, c\<lparr>gc_current := gc_current c + 1\<rparr>)"
  by (simp add: allocate_def GenerationCounter_init_def Let_def)

text \<open>
  From an accepted counter, \<open>n\<close> allocations give exactly the \<open>n\<close> next generations in order
  while they fit in 64 bits, and otherwise end in the exhaustion error: a generation is never
  repeated, skipped or wrapped.
\<close>

theorem allocations_consecutive:
  assumes "GenerationCounter_init c = Inr c"
  shows "allocations n c =
    (if gc_current c + int n \<le> MAX_U64
     then Inr ([gc_current c + 1 .. gc_current c + int n], c\<lparr>gc_current := gc_current c + int n\<rparr>)
     else Inl (WAWDomainError ''generation counter exhausted''))"
  using assms
proof (induction n arbitrary: c)
  case 0
  then show ?case by (auto simp: GenerationCounter_init_def split: if_splits)
next
  case (Suc n)
  have bounds: "0 \<le> gc_current c" "gc_current c \<le> MAX_U64"
    using Suc.prems by (auto simp: GenerationCounter_init_def split: if_splits)
  show ?case
  proof (cases "gc_current c = MAX_U64")
    case True
    then show ?thesis by (simp add: allocate_def)
  next
    case False
    let ?c = "c\<lparr>gc_current := gc_current c + 1\<rparr>"
    have "allocate c = Inr (gc_current c + 1, ?c)"
      using allocate_ok bounds False by simp
    moreover have "GenerationCounter_init ?c = Inr ?c"
      using bounds False by (simp add: GenerationCounter_init_def)
    ultimately show ?thesis
      using Suc.IH [of ?c] by (simp add: upto_rec1 algebra_simps)
  qed
qed

theorem allocations_consecutive_witness:
  "GenerationCounter_init \<lparr>gc_current = 5\<rparr> = Inr \<lparr>gc_current = 5\<rparr>
   \<and> allocations 3 \<lparr>gc_current = 5\<rparr> = Inr ([6..8], \<lparr>gc_current = 8\<rparr>)"
  using allocations_consecutive [of "\<lparr>gc_current = 5\<rparr>" 3]
  by (simp add: GenerationCounter_init_def MAX_U64_eval)

end
