(* ===== verification/Output_Ring.thy ===== *)
theory Output_Ring
  imports Waw_Domain
begin

text \<open>
  The bounded PTY contracts of the Runtime (\<open>agentbox_runtime/waw_pty.py\<close>): geometry, input
  chunks, output frames and the ring that keeps the latest output for replay by cursor.

  A cursor is the 1-based position of a byte in the whole output of the current domain. The ring
  is a record with the fields of \<open>OutputRing\<close>; its eviction loop is a function with a termination
  proof, and popping an empty deque is the error \<open>PtyIndexError\<close>, which the invariant rules out.

  The locale \<open>byte_log\<close> is the contract replay clients rely on: what is held is always a suffix
  of everything ever written, and the cursors say which one.
\<close>

section \<open>Limits and values\<close>

definition MIN_COLUMNS :: int where "MIN_COLUMNS = 8"
definition MAX_COLUMNS :: int where "MAX_COLUMNS = 240"
definition MIN_ROWS :: int where "MIN_ROWS = 1"
definition MAX_ROWS :: int where "MAX_ROWS = 200"
definition MAX_INPUT_BYTES :: nat where "MAX_INPUT_BYTES = 16 * 1024"
definition MAX_OUTPUT_FRAME_BYTES :: nat where "MAX_OUTPUT_FRAME_BYTES = 48 * 1024"
definition MAX_OUTPUT_BUFFER_BYTES :: int where "MAX_OUTPUT_BUFFER_BYTES = 256 * 1024"
definition MAX_OUTPUT_CURSOR :: int where "MAX_OUTPUT_CURSOR = MAX_U64 - 1"

datatype pty_error = WAWPTYError string | PtyDomainError waw_error | PtyIndexError

record PtyGeometry =
  pg_columns :: int
  pg_rows :: int

definition PtyGeometry_init :: "PtyGeometry \<Rightarrow> pty_error + PtyGeometry" where
  "PtyGeometry_init g =
     (if \<not> (MIN_COLUMNS \<le> pg_columns g \<and> pg_columns g \<le> MAX_COLUMNS)
      then Inl (WAWPTYError ''columns must be an integer in 8..240'')
      else if \<not> (MIN_ROWS \<le> pg_rows g \<and> pg_rows g \<le> MAX_ROWS)
      then Inl (WAWPTYError ''rows must be an integer in 1..200'')
      else Inr g)"

definition validate_input :: "bytes \<Rightarrow> pty_error + bytes" where
  "validate_input data =
     (if data = [] \<or> length data > MAX_INPUT_BYTES
      then Inl (WAWPTYError ''PTY input must be non-empty bytes within the fixed limit'')
      else Inr data)"

record OutputFrame =
  fr_start_cursor :: int
  fr_end_cursor :: int
  fr_payload :: bytes

fun pty_domain :: "waw_error + 'a \<Rightarrow> pty_error + 'a" where
  "pty_domain (Inl e) = Inl (PtyDomainError e)"
| "pty_domain (Inr a) = Inr a"

definition OutputFrame_init :: "OutputFrame \<Rightarrow> pty_error + OutputFrame" where
  "OutputFrame_init f =
     ebind (pty_domain (validate_positive_u64 (fr_start_cursor f) ''start_cursor'')) (\<lambda>_.
     ebind (pty_domain (validate_positive_u64 (fr_end_cursor f) ''end_cursor'')) (\<lambda>_.
     if fr_end_cursor f < fr_start_cursor f
        \<or> fr_end_cursor f - fr_start_cursor f + 1 \<noteq> int (length (fr_payload f))
     then Inl (WAWPTYError ''output cursor range does not match payload length'')
     else if fr_payload f = [] \<or> length (fr_payload f) > MAX_OUTPUT_FRAME_BYTES
     then Inl (WAWPTYError ''output frame size is outside the fixed limit'')
     else Inr f))"

datatype replay_kind = ReplayFrames | ReplayGap

record OutputReplay =
  rp_kind :: replay_kind
  rp_frames :: "OutputFrame list"
  rp_next_cursor :: int
  rp_gap_start :: "int option"
  rp_gap_end :: "int option"

section \<open>The ring\<close>

record OutputRing =
  rg_capacity :: int
  rg_frames :: "OutputFrame list"
  rg_bytes :: int
  rg_line_breaks :: int
  rg_next_cursor :: int
  rg_dropped_until :: int

definition OutputRing_init :: "int \<Rightarrow> pty_error + OutputRing" where
  "OutputRing_init capacity_bytes =
     (if \<not> (1 \<le> capacity_bytes \<and> capacity_bytes \<le> MAX_OUTPUT_BUFFER_BYTES)
      then Inl (WAWPTYError ''output buffer capacity is invalid'')
      else Inr \<lparr>rg_capacity = capacity_bytes, rg_frames = [], rg_bytes = 0, rg_line_breaks = 0,
                rg_next_cursor = 1, rg_dropped_until = 0\<rparr>)"

text \<open>\<open>payload.count(b"\n")\<close>\<close>

definition newlines :: "bytes \<Rightarrow> int" where
  "newlines p = int (count_list p 10)"

definition retained_line_count :: "OutputRing \<Rightarrow> int" where
  "retained_line_count r =
     rg_line_breaks r
       + (if rg_frames r \<noteq> [] \<and> last (fr_payload (last (rg_frames r))) \<noteq> 10 then 1 else 0)"

definition popleft :: "OutputRing \<Rightarrow> pty_error + OutputRing" where
  "popleft r =
     (case rg_frames r of
        [] \<Rightarrow> Inl PtyIndexError
      | removed # rest \<Rightarrow>
          Inr (r\<lparr>rg_frames := rest,
                 rg_bytes := rg_bytes r - int (length (fr_payload removed)),
                 rg_line_breaks := rg_line_breaks r - newlines (fr_payload removed),
                 rg_dropped_until := fr_end_cursor removed\<rparr>))"

function evict :: "OutputRing \<Rightarrow> pty_error + OutputRing" where
  "evict r =
     (if rg_bytes r > rg_capacity r \<or> retained_line_count r > 2000
      then ebind (popleft r) evict
      else Inr r)"
  by pat_completeness auto
termination
  by (relation "measure (\<lambda>r. length (rg_frames r))")
    (auto simp: popleft_def split: list.splits)

declare evict.simps [simp del]

definition append_output :: "OutputRing \<Rightarrow> bytes \<Rightarrow> pty_error + (OutputFrame \<times> OutputRing)" where
  "append_output r payload =
     (if payload = [] then Inl (WAWPTYError ''output must be non-empty bytes'')
      else if length payload > MAX_OUTPUT_FRAME_BYTES
      then Inl (WAWPTYError ''output frame exceeds the fixed limit'')
      else let fin = rg_next_cursor r + int (length payload) - 1
      in if fin > MAX_OUTPUT_CURSOR then Inl (WAWPTYError ''output cursor exhausted'')
      else
      ebind (OutputFrame_init \<lparr>fr_start_cursor = rg_next_cursor r, fr_end_cursor = fin,
               fr_payload = payload\<rparr>) (\<lambda>frame.
      ebind (evict (r\<lparr>rg_next_cursor := fin + 1,
                      rg_frames := rg_frames r @ [frame],
                      rg_bytes := rg_bytes r + int (length payload),
                      rg_line_breaks := rg_line_breaks r + newlines payload\<rparr>)) (\<lambda>r'.
      Inr (frame, r'))))"

fun append_all :: "OutputRing \<Rightarrow> bytes list \<Rightarrow> pty_error + (OutputFrame list \<times> OutputRing)" where
  "append_all r [] = Inr ([], r)"
| "append_all r (p # ps) =
     ebind (append_output r p) (\<lambda>(f, r'). ebind (append_all r' ps) (\<lambda>(fs, r''). Inr (f # fs, r'')))"

definition append_batch ::
  "OutputRing \<Rightarrow> bytes list \<Rightarrow> pty_error + (OutputFrame list \<times> OutputRing)" where
  "append_batch r payloads =
     (if \<exists>p \<in> set payloads. p = [] \<or> length p > MAX_OUTPUT_FRAME_BYTES
      then Inl (WAWPTYError ''output batch contains an invalid frame'')
      else let total = int (sum_list (map length payloads))
      in if total > rg_capacity r \<or> rg_next_cursor r + total - 1 > MAX_OUTPUT_CURSOR
      then Inl (WAWPTYError ''output batch cannot be retained atomically'')
      else append_all r payloads)"

definition clear_ring :: "OutputRing \<Rightarrow> OutputRing" where
  "clear_ring r = r\<lparr>rg_frames := [], rg_bytes := 0, rg_line_breaks := 0,
                     rg_dropped_until := rg_next_cursor r - 1\<rparr>"

definition replay :: "OutputRing \<Rightarrow> int \<Rightarrow> pty_error + OutputReplay" where
  "replay r after_cursor =
     (if \<not> (0 \<le> after_cursor \<and> after_cursor \<le> MAX_OUTPUT_CURSOR)
      then Inl (WAWPTYError ''after_cursor must be zero or a usable output cursor'')
      else if after_cursor < rg_dropped_until r
      then Inr \<lparr>rp_kind = ReplayGap, rp_frames = [], rp_next_cursor = rg_next_cursor r - 1,
                rp_gap_start = Some (after_cursor + 1), rp_gap_end = Some (rg_dropped_until r)\<rparr>
      else case rg_frames r of
        [] \<Rightarrow> Inr \<lparr>rp_kind = ReplayFrames, rp_frames = [], rp_next_cursor = after_cursor,
                   rp_gap_start = None, rp_gap_end = None\<rparr>
      | oldest # _ \<Rightarrow>
          if after_cursor < fr_start_cursor oldest - 1
          then Inr \<lparr>rp_kind = ReplayGap, rp_frames = [], rp_next_cursor = rg_next_cursor r - 1,
                    rp_gap_start = Some (after_cursor + 1),
                    rp_gap_end = Some (fr_start_cursor oldest - 1)\<rparr>
          else Inr \<lparr>rp_kind = ReplayFrames,
                    rp_frames = filter (\<lambda>f. fr_end_cursor f > after_cursor) (rg_frames r),
                    rp_next_cursor = rg_next_cursor r - 1,
                    rp_gap_start = None, rp_gap_end = None\<rparr>)"

section \<open>Invariant\<close>

text \<open>\<open>chain a fs b\<close>: the frames cover the cursors from \<open>a\<close> to \<open>b - 1\<close> without gap or overlap.\<close>

fun chain :: "int \<Rightarrow> OutputFrame list \<Rightarrow> int \<Rightarrow> bool" where
  "chain a [] b \<longleftrightarrow> a = b"
| "chain a (f # fs) b \<longleftrightarrow>
     fr_start_cursor f = a \<and> fr_end_cursor f = a + int (length (fr_payload f)) - 1
     \<and> fr_payload f \<noteq> [] \<and> length (fr_payload f) \<le> MAX_OUTPUT_FRAME_BYTES
     \<and> chain (fr_end_cursor f + 1) fs b"

definition held :: "OutputRing \<Rightarrow> bytes" where
  "held r = concat (map fr_payload (rg_frames r))"

definition ring_core :: "OutputRing \<Rightarrow> bool" where
  "ring_core r \<longleftrightarrow>
     1 \<le> rg_capacity r \<and> rg_capacity r \<le> MAX_OUTPUT_BUFFER_BYTES
     \<and> 0 \<le> rg_dropped_until r \<and> rg_next_cursor r \<le> MAX_OUTPUT_CURSOR + 1
     \<and> chain (rg_dropped_until r + 1) (rg_frames r) (rg_next_cursor r)
     \<and> rg_bytes r = int (length (held r)) \<and> rg_line_breaks r = newlines (held r)"

definition ring_inv :: "OutputRing \<Rightarrow> bool" where
  "ring_inv r \<longleftrightarrow>
     ring_core r \<and> rg_bytes r \<le> rg_capacity r \<and> retained_line_count r \<le> 2000"

lemma newlines_append [simp]: "newlines (xs @ ys) = newlines xs + newlines ys"
  by (simp add: newlines_def)

lemma newlines_Nil [simp]: "newlines [] = 0"
  by (simp add: newlines_def)

lemma chain_append: "chain a (fs @ gs) c \<longleftrightarrow> (\<exists>b. chain a fs b \<and> chain b gs c)"
  by (induction fs arbitrary: a) auto

lemma chain_span: "chain a fs b \<Longrightarrow> b = a + int (length (concat (map fr_payload fs)))"
  by (induction fs arbitrary: a) force+

lemma ring_span: "ring_core r \<Longrightarrow> rg_next_cursor r = rg_dropped_until r + int (length (held r)) + 1"
  using chain_span [of "rg_dropped_until r + 1" "rg_frames r" "rg_next_cursor r"]
  by (simp add: ring_core_def held_def)

lemma ring_new: "OutputRing_init n = Inr r \<Longrightarrow> ring_inv r \<and> held r = [] \<and> rg_dropped_until r = 0"
  by (auto simp: OutputRing_init_def ring_inv_def ring_core_def held_def retained_line_count_def
      MAX_OUTPUT_CURSOR_def MAX_U64_eval split: if_splits)

lemma ring_clear:
  assumes "ring_inv r"
  shows "ring_inv (clear_ring r) \<and> held (clear_ring r) = []
    \<and> rg_dropped_until (clear_ring r) = rg_next_cursor r - 1"
proof -
  have "ring_core r" using assms by (simp add: ring_inv_def)
  then have "1 \<le> rg_next_cursor r" using ring_span [of r] unfolding ring_core_def by linarith
  then show ?thesis using assms
    by (simp add: clear_ring_def ring_inv_def ring_core_def held_def retained_line_count_def)
qed

text \<open>One pass of the eviction loop: the oldest frame leaves, its cursors become the gap.\<close>

lemma popleft_core:
  assumes "ring_core r" "rg_frames r = f # fs"
  shows "\<exists>r'. popleft r = Inr r' \<and> ring_core r' \<and> rg_capacity r' = rg_capacity r
    \<and> rg_next_cursor r' = rg_next_cursor r \<and> rg_frames r' = fs
    \<and> held r = fr_payload f @ held r'
    \<and> rg_dropped_until r' = rg_dropped_until r + int (length (fr_payload f))"
  using assms by (auto simp: popleft_def ring_core_def held_def)

lemma evict_total:
  assumes "ring_core r"
  shows "\<exists>r' k. evict r = Inr r' \<and> ring_inv r' \<and> rg_capacity r' = rg_capacity r
    \<and> rg_next_cursor r' = rg_next_cursor r \<and> k \<le> length (held r) \<and> held r' = drop k (held r)
    \<and> rg_dropped_until r' = rg_dropped_until r + int k"
  using assms
proof (induction r rule: evict.induct)
  case (1 r)
  show ?case
  proof (cases "rg_bytes r > rg_capacity r \<or> retained_line_count r > 2000")
    case True
    then obtain f fs where fs: "rg_frames r = f # fs"
      using "1.prems" by (cases "rg_frames r") (auto simp: ring_core_def held_def retained_line_count_def)
    from popleft_core [OF "1.prems" fs] obtain r1 where
      r1: "popleft r = Inr r1" "ring_core r1" "rg_capacity r1 = rg_capacity r"
        "rg_next_cursor r1 = rg_next_cursor r" "held r = fr_payload f @ held r1"
        "rg_dropped_until r1 = rg_dropped_until r + int (length (fr_payload f))" by blast
    from "1.IH" [OF True r1(1,2)] obtain r' k where
      r': "evict r1 = Inr r'" "ring_inv r'" "rg_capacity r' = rg_capacity r1"
        "rg_next_cursor r' = rg_next_cursor r1" "k \<le> length (held r1)" "held r' = drop k (held r1)"
        "rg_dropped_until r' = rg_dropped_until r1 + int k" by blast
    have "evict r = Inr r'" using True r1(1) r'(1) by (subst evict.simps) simp
    then show ?thesis using r1 r' by (intro exI [of _ r'] exI [of _ "length (fr_payload f) + k"]) auto
  next
    case False
    then have "evict r = Inr r" by (subst evict.simps) simp
    then show ?thesis using False "1.prems" by (intro exI [of _ r] exI [of _ 0]) (auto simp: ring_inv_def)
  qed
qed

lemma append_output_ok:
  assumes "ring_inv r" "p \<noteq> []" "length p \<le> MAX_OUTPUT_FRAME_BYTES"
    and "rg_next_cursor r + int (length p) - 1 \<le> MAX_OUTPUT_CURSOR"
  shows "\<exists>r' k. append_output r p =
      Inr (\<lparr>fr_start_cursor = rg_next_cursor r,
            fr_end_cursor = rg_next_cursor r + int (length p) - 1, fr_payload = p\<rparr>, r')
    \<and> ring_inv r' \<and> rg_capacity r' = rg_capacity r
    \<and> rg_next_cursor r' = rg_next_cursor r + int (length p)
    \<and> k \<le> length (held r @ p) \<and> held r' = drop k (held r @ p)
    \<and> rg_dropped_until r' = rg_dropped_until r + int k"
proof -
  let ?fin = "rg_next_cursor r + int (length p) - 1"
  let ?f = "\<lparr>fr_start_cursor = rg_next_cursor r, fr_end_cursor = ?fin, fr_payload = p\<rparr>"
  let ?r = "r\<lparr>rg_next_cursor := ?fin + 1, rg_frames := rg_frames r @ [?f],
     rg_bytes := rg_bytes r + int (length p), rg_line_breaks := rg_line_breaks r + newlines p\<rparr>"
  have core: "ring_core r" using assms(1) by (simp add: ring_inv_def)
  have pos: "1 \<le> rg_next_cursor r"
    using ring_span [OF core] core by (simp add: ring_core_def)
  have init: "OutputFrame_init ?f = Inr ?f"
    using pos assms(2-4)
    by (cases p) (auto simp: OutputFrame_init_def validators_ok MAX_OUTPUT_CURSOR_def)
  have core': "ring_core ?r"
    using core assms(2-4) pos by (auto simp: ring_core_def held_def chain_append)
  have held: "held ?r = held r @ p" by (simp add: held_def)
  from evict_total [OF core'] obtain r' k where r': "evict ?r = Inr r'" "ring_inv r'"
      "rg_capacity r' = rg_capacity ?r" "rg_next_cursor r' = rg_next_cursor ?r"
      "k \<le> length (held ?r)" "held r' = drop k (held ?r)"
      "rg_dropped_until r' = rg_dropped_until ?r + int k" by blast
  have "append_output r p = Inr (?f, r')"
    unfolding append_output_def Let_def using assms(2-4) init r'(1) by (simp add: not_less)
  moreover note r'(2) r'(3-7) [unfolded held, simplified]
  ultimately show ?thesis by (intro exI [of _ r'] exI [of _ k]) simp
qed

lemma append_output_Inr:
  assumes "append_output r p = Inr (f, r')"
  shows "p \<noteq> [] \<and> length p \<le> MAX_OUTPUT_FRAME_BYTES
    \<and> rg_next_cursor r + int (length p) - 1 \<le> MAX_OUTPUT_CURSOR"
  using assms by (auto simp: append_output_def Let_def split: if_splits)

section \<open>What replay clients rely on\<close>

text \<open>
  A byte log numbers every byte ever written from one, keeps a suffix of them and reports how
  many it lost. \<open>tracks r h\<close> says the log \<open>r\<close> has been given exactly the bytes \<open>h\<close>.
\<close>

locale byte_log =
  fixes inv :: "'r \<Rightarrow> bool" and next_cur :: "'r \<Rightarrow> int" and lost :: "'r \<Rightarrow> int"
    and held_bytes :: "'r \<Rightarrow> bytes" and put :: "'r \<Rightarrow> bytes \<Rightarrow> 'e + ('f \<times> 'r)" and wipe :: "'r \<Rightarrow> 'r"
  assumes span: "inv r \<Longrightarrow> 0 \<le> lost r \<and> next_cur r = lost r + int (length (held_bytes r)) + 1"
    and put_ok: "inv r \<Longrightarrow> put r p = Inr (f, r') \<Longrightarrow>
      inv r' \<and> (\<exists>k. k \<le> length (held_bytes r @ p) \<and> held_bytes r' = drop k (held_bytes r @ p)
        \<and> lost r' = lost r + int k)"
    and wipe_ok: "inv r \<Longrightarrow> inv (wipe r) \<and> held_bytes (wipe r) = [] \<and> lost (wipe r) = next_cur r - 1"
begin

definition tracks :: "'r \<Rightarrow> bytes \<Rightarrow> bool" where
  "tracks r h \<longleftrightarrow> inv r \<and> lost r \<le> int (length h) \<and> held_bytes r = drop (nat (lost r)) h"

lemma tracks_start: "inv r \<Longrightarrow> held_bytes r = [] \<Longrightarrow> lost r = 0 \<Longrightarrow> tracks r []"
  by (simp add: tracks_def)

lemma tracks_next: "tracks r h \<Longrightarrow> next_cur r = int (length h) + 1"
  using span [of r] by (auto simp: tracks_def)

lemma tracks_put:
  assumes "tracks r h" "put r p = Inr (f, r')"
  shows "tracks r' (h @ p)"
proof -
  have r: "inv r" "lost r \<le> int (length h)" "held_bytes r = drop (nat (lost r)) h" "0 \<le> lost r"
    using assms(1) span by (auto simp: tracks_def)
  obtain k where k: "inv r'" "k \<le> length (held_bytes r @ p)" "lost r' = lost r + int k"
      "held_bytes r' = drop k (held_bytes r @ p)"
    using put_ok [OF r(1) assms(2)] by blast
  have "held_bytes r @ p = drop (nat (lost r)) (h @ p)"
    using r by simp
  then have "held_bytes r' = drop (nat (lost r')) (h @ p)"
    using k(4) drop_drop [of k "nat (lost r)" "h @ p"] k(3) r(4)
    by (simp only: nat_add_distrib add.commute nat_int of_nat_0_le_iff)
  moreover have "lost r' \<le> int (length (h @ p))"
    using k(2,3) r by simp
  ultimately show ?thesis using k(1) by (simp add: tracks_def)
qed

lemma tracks_wipe: "tracks r h \<Longrightarrow> tracks (wipe r) h"
  using wipe_ok [of r] tracks_next [of r h] by (simp add: tracks_def)

end

interpretation ring: byte_log ring_inv rg_next_cursor rg_dropped_until held append_output clear_ring
proof (unfold_locales, goal_cases)
  case (1 r)
  then have "ring_core r" by (simp add: ring_inv_def)
  then show ?case using ring_span [of r] unfolding ring_core_def by blast
next
  case (2 r p f r')
  obtain r1 k where "append_output r p = Inr (\<lparr>fr_start_cursor = rg_next_cursor r,
        fr_end_cursor = rg_next_cursor r + int (length p) - 1, fr_payload = p\<rparr>, r1)"
      "ring_inv r1" "k \<le> length (held r @ p)" "held r1 = drop k (held r @ p)"
      "rg_dropped_until r1 = rg_dropped_until r + int k"
    using append_output_ok [OF 2(1)] append_output_Inr [OF 2(2)] by metis
  moreover have "r1 = r'" using 2(2) calculation(1) by simp
  ultimately show ?case by blast
next
  case (3 r)
  then show ?case by (rule ring_clear)
qed

text \<open>
  \<open>ring_history r h\<close>: the ring was created by the constructor and then used through its
  operations, and \<open>h\<close> is the concatenation of every payload it accepted.
\<close>

inductive ring_history :: "OutputRing \<Rightarrow> bytes \<Rightarrow> bool" where
  new: "OutputRing_init n = Inr r \<Longrightarrow> ring_history r []"
| append: "ring_history r h \<Longrightarrow> append_output r p = Inr (f, r') \<Longrightarrow> ring_history r' (h @ p)"
| batch: "ring_history r h \<Longrightarrow> append_batch r ps = Inr (fs, r') \<Longrightarrow> ring_history r' (h @ concat ps)"
| clear: "ring_history r h \<Longrightarrow> ring_history (clear_ring r) h"

lemma tracks_append_all:
  "ring.tracks r h \<Longrightarrow> append_all r ps = Inr (fs, r') \<Longrightarrow> ring.tracks r' (h @ concat ps)"
proof (induction ps arbitrary: r h fs)
  case Nil
  then show ?case by simp
next
  case (Cons p ps)
  from Cons.prems(2) obtain f r1 fs1 where
    "append_output r p = Inr (f, r1)" "append_all r1 ps = Inr (fs1, r')"
    by (auto simp: result_simps)
  with Cons.IH Cons.prems(1) ring.tracks_put have "ring.tracks r' ((h @ p) @ concat ps)" by blast
  then show ?case by simp
qed

lemma history_tracks: "ring_history r h \<Longrightarrow> ring.tracks r h"
proof (induction rule: ring_history.induct)
  case (new n r)
  then show ?case using ring_new ring.tracks_start by blast
next
  case (append r h p f r')
  then show ?case using ring.tracks_put by blast
next
  case (batch r h ps fs r')
  then have "append_all r ps = Inr (fs, r')"
    by (auto simp: append_batch_def Let_def split: if_splits)
  with batch.IH show ?case by (rule tracks_append_all)
next
  case (clear r h)
  then show ?case by (simp add: ring.tracks_wipe)
qed

lemma append_all_ok:
  assumes "ring_inv r" "\<forall>p \<in> set ps. p \<noteq> [] \<and> length p \<le> MAX_OUTPUT_FRAME_BYTES"
    and "rg_next_cursor r + int (length (concat ps)) - 1 \<le> MAX_OUTPUT_CURSOR"
  shows "\<exists>fs r'. append_all r ps = Inr (fs, r') \<and> map fr_payload fs = ps
    \<and> chain (rg_next_cursor r) fs (rg_next_cursor r')"
  using assms
proof (induction ps arbitrary: r)
  case Nil
  then show ?case by simp
next
  case (Cons p ps)
  then obtain r1 where r1: "append_output r p = Inr (\<lparr>fr_start_cursor = rg_next_cursor r,
        fr_end_cursor = rg_next_cursor r + int (length p) - 1, fr_payload = p\<rparr>, r1)"
      "ring_inv r1" "rg_next_cursor r1 = rg_next_cursor r + int (length p)"
    using append_output_ok [of r p] by auto
  with Cons.IH [of r1] Cons.prems obtain fs r' where
    "append_all r1 ps = Inr (fs, r')" "map fr_payload fs = ps" "chain (rg_next_cursor r1) fs (rg_next_cursor r')"
    by auto
  with r1 Cons.prems(2) show ?case by auto
qed

section \<open>Properties\<close>

lemmas ring_facts = ring_inv_def ring_core_def ring.tracks_def

lemma chain_end_ge: "chain a fs b \<Longrightarrow> f \<in> set fs \<Longrightarrow> a \<le> fr_end_cursor f"
proof (induction fs arbitrary: a)
  case (Cons g fs)
  then show ?case by (cases "fr_payload g") force+
qed simp

text \<open>Filtering by the end cursor keeps a suffix of the frames, which starts at or before \<open>c + 1\<close>.\<close>

lemma chain_filter:
  assumes "chain a fs b" "a \<le> c + 1"
  shows "\<exists>n. filter (\<lambda>f. c < fr_end_cursor f) fs = drop n fs
    \<and> chain (a + int (length (concat (map fr_payload (take n fs))))) (drop n fs) b
    \<and> a + int (length (concat (map fr_payload (take n fs)))) \<le> c + 1"
  using assms
proof (induction fs arbitrary: a)
  case Nil
  then show ?case by (intro exI [of _ 0]) simp
next
  case (Cons f fs)
  show ?case
  proof (cases "c < fr_end_cursor f")
    case True
    then have "\<forall>g \<in> set fs. c < fr_end_cursor g"
      using Cons.prems chain_end_ge by fastforce
    with True have "filter (\<lambda>f. c < fr_end_cursor f) (f # fs) = f # fs" by simp
    then show ?thesis using Cons.prems
      by (intro exI [of _ 0]) (simp del: chain.simps filter.simps)
  next
    case False
    with Cons.IH [of "fr_end_cursor f + 1"] Cons.prems obtain n where
      "filter (\<lambda>f. c < fr_end_cursor f) fs = drop n fs"
      "chain (fr_end_cursor f + 1 + int (length (concat (map fr_payload (take n fs))))) (drop n fs) b"
      "fr_end_cursor f + 1 + int (length (concat (map fr_payload (take n fs)))) \<le> c + 1" by auto
    with False Cons.prems show ?thesis by (intro exI [of _ "Suc n"]) (simp add: algebra_simps)
  qed
qed

lemma concat_drop:
  "concat (map g (drop n fs)) = drop (length (concat (map g (take n fs)))) (concat (map g fs))"
  by (metis append_eq_conv_conj append_take_drop_id concat_append map_append)

text \<open>
  C1. Whatever appends, batches and clears a new ring goes through, its cursors count the bytes
  of everything it accepted, what it holds is exactly the end of that output after the cursor it
  reports as dropped, the frames cover those cursors without gap or overlap, and it never holds
  more than its capacity (at most 256 KiB) or more than 2000 lines.
\<close>

theorem ring_holds_suffix:
  assumes "ring_history r h"
  shows "rg_next_cursor r = int (length h) + 1
    \<and> 0 \<le> rg_dropped_until r \<and> rg_dropped_until r \<le> int (length h)
    \<and> held r = drop (nat (rg_dropped_until r)) h
    \<and> chain (rg_dropped_until r + 1) (rg_frames r) (int (length h) + 1)
    \<and> rg_bytes r = int (length (held r)) \<and> rg_bytes r \<le> rg_capacity r
    \<and> rg_capacity r \<le> 262144 \<and> retained_line_count r \<le> 2000"
proof -
  have t: "ring.tracks r h" using assms by (rule history_tracks)
  note n = ring.tracks_next [OF t]
  have "MAX_OUTPUT_BUFFER_BYTES = 262144" by (simp add: MAX_OUTPUT_BUFFER_BYTES_def)
  with t show ?thesis unfolding ring_facts n by metis
qed

definition ring64 :: OutputRing where
  "ring64 = \<lparr>rg_capacity = 64, rg_frames = [], rg_bytes = 0, rg_line_breaks = 0,
     rg_next_cursor = 1, rg_dropped_until = 0\<rparr>"

lemma ring64_history: "ring_history ring64 []"
  by (rule ring_history.new [of 64]) (simp add: OutputRing_init_def MAX_OUTPUT_BUFFER_BYTES_def ring64_def)

lemmas ring_eval = append_output_def evict.simps popleft_def OutputFrame_init_def validate_positive_u64_def
  MAX_OUTPUT_FRAME_BYTES_def MAX_OUTPUT_CURSOR_def MAX_U64_eval retained_line_count_def newlines_def Let_def

lemma ring64_hi: "\<exists>f r. append_output ring64 [104, 105, 10] = Inr (f, r) \<and> ring_history r [104, 105, 10]"
  using ring_history.append [OF ring64_history, of "[104, 105, 10]"]
  by (simp add: ring_eval ring64_def)

theorem ring_holds_suffix_witness:
  "\<exists>f r. append_output ring64 [104, 105, 10] = Inr (f, r) \<and> rg_next_cursor r = 4
     \<and> held r = drop (nat (rg_dropped_until r)) [104, 105, 10] \<and> rg_bytes r \<le> 262144"
proof -
  obtain f r where r: "append_output ring64 [104, 105, 10] = Inr (f, r)" "ring_history r [104, 105, 10]"
    using ring64_hi by blast
  show ?thesis using ring_holds_suffix [OF r(2)] r(1) by (intro exI [of _ f] exI [of _ r]) auto
qed

text \<open>
  C31. Appending to a reachable ring succeeds exactly for a non-empty payload of at most 48 KiB
  whose last byte still has a usable cursor. In particular the eviction loop always ends without
  popping an empty deque, whatever the capacity.
\<close>

theorem append_succeeds_iff:
  assumes "ring_history r h"
  shows "is_ok (append_output r p) \<longleftrightarrow>
    p \<noteq> [] \<and> length p \<le> 49152 \<and> int (length h) + int (length p) \<le> MAX_OUTPUT_CURSOR"
proof -
  have t: "ring.tracks r h" using assms by (rule history_tracks)
  then have inv: "ring_inv r" and n: "rg_next_cursor r = int (length h) + 1"
    using ring.tracks_next by (auto simp: ring.tracks_def)
  show ?thesis
    using append_output_ok [OF inv, of p] append_output_Inr [of r p] n
    unfolding is_ok_iff MAX_OUTPUT_FRAME_BYTES_def by fastforce
qed

theorem append_succeeds_iff_witness:
  "ring_history ring64 [] \<and> is_ok (append_output ring64 [104]) \<and> \<not> is_ok (append_output ring64 [])"
  using append_succeeds_iff [OF ring64_history, of "[104]"]
    append_succeeds_iff [OF ring64_history, of "[]"] ring64_history
  by (simp add: MAX_OUTPUT_CURSOR_def MAX_U64_eval)

text \<open>
  C3. Replay from any cursor of the output so far answers exactly: a cursor before the dropped
  range gives a gap from the next byte to the last dropped one; any other cursor gives the
  retained frames from the one that holds the next byte, whose payloads together are the output
  from that frame on; in both cases the reported next cursor is the length of the whole output.
\<close>

theorem replay_exact:
  assumes "ring_history r h" "0 \<le> c" "c \<le> int (length h)"
  shows "\<exists>rp. replay r c = Inr rp \<and> rp_next_cursor rp = int (length h)
    \<and> (if c < rg_dropped_until r
       then rp_kind rp = ReplayGap \<and> rp_frames rp = [] \<and> rp_gap_start rp = Some (c + 1)
         \<and> rp_gap_end rp = Some (rg_dropped_until r)
       else rp_kind rp = ReplayFrames \<and>
         (\<exists>s. int s \<le> c \<and> chain (int s + 1) (rp_frames rp) (int (length h) + 1)
           \<and> concat (map fr_payload (rp_frames rp)) = drop s h
           \<and> (\<forall>f \<in> set (rp_frames rp). c < fr_end_cursor f)))"
proof -
  have t: "ring.tracks r h" using assms(1) by (rule history_tracks)
  have n: "rg_next_cursor r = int (length h) + 1" using t by (rule ring.tracks_next)
  define d where "d = rg_dropped_until r"
  have d: "0 \<le> d" "d \<le> int (length h)" "held r = drop (nat d) h" "int (length h) \<le> MAX_OUTPUT_CURSOR"
      "chain (d + 1) (rg_frames r) (int (length h) + 1)"
    using t n unfolding ring_facts d_def by auto
  have range: "c \<le> MAX_OUTPUT_CURSOR" using d(4) assms(3) by simp
  show ?thesis
  proof (cases "c < d")
    case True
    then show ?thesis using assms(2) range n by (simp add: replay_def d_def)
  next
    case False
    obtain m where m: "filter (\<lambda>f. c < fr_end_cursor f) (rg_frames r) = drop m (rg_frames r)"
        "chain (d + 1 + int (length (concat (map fr_payload (take m (rg_frames r))))))
           (drop m (rg_frames r)) (int (length h) + 1)"
        "d + 1 + int (length (concat (map fr_payload (take m (rg_frames r))))) \<le> c + 1"
      using chain_filter [OF d(5), of c] False by auto
    define s where "s = nat d + length (concat (map fr_payload (take m (rg_frames r))))"
    have "concat (map fr_payload (drop m (rg_frames r))) = drop s h"
      using d(3) by (simp add: concat_drop held_def s_def add.commute)
    moreover have "int s \<le> c" "chain (int s + 1) (drop m (rg_frames r)) (int (length h) + 1)"
      using m(2,3) d(1) by (simp_all add: s_def algebra_simps)
    moreover have "\<forall>f \<in> set (drop m (rg_frames r)). c < fr_end_cursor f"
      unfolding m(1) [symmetric] by simp
    moreover have "\<exists>rp. replay r c = Inr rp \<and> rp_next_cursor rp = int (length h)
        \<and> rp_kind rp = ReplayFrames \<and> rp_frames rp = drop m (rg_frames r)"
      using False assms(2,3) range n d(2,5) m(1) unfolding replay_def d_def [symmetric]
      by (cases "rg_frames r") auto
    ultimately show ?thesis using False unfolding d_def by fastforce
  qed
qed

theorem replay_exact_witness:
  "\<exists>f r rp. append_output ring64 [104, 105, 10] = Inr (f, r) \<and> replay r 1 = Inr rp
     \<and> rp_next_cursor rp = 3"
proof -
  obtain f r where r: "append_output ring64 [104, 105, 10] = Inr (f, r)" "ring_history r [104, 105, 10]"
    using ring64_hi by blast
  show ?thesis using replay_exact [OF r(2), of 1] r(1) by auto
qed

text \<open>
  C38. A cursor beyond the output written so far is not refused: replay answers no frames and no
  gap, and the next cursor it reports is the head of the output when the ring still holds
  something, but the caller's own future cursor when the ring is empty.
\<close>

theorem replay_future_cursor:
  assumes "ring_history r h" "int (length h) < c" "c \<le> MAX_OUTPUT_CURSOR"
  shows "replay r c = Inr \<lparr>rp_kind = ReplayFrames, rp_frames = [],
    rp_next_cursor = (if rg_frames r = [] then c else int (length h)),
    rp_gap_start = None, rp_gap_end = None\<rparr>"
proof -
  have t: "ring.tracks r h" using assms(1) by (rule history_tracks)
  have n: "rg_next_cursor r = int (length h) + 1" using t by (rule ring.tracks_next)
  have d: "rg_dropped_until r \<le> int (length h)"
    and ch: "chain (rg_dropped_until r + 1) (rg_frames r) (int (length h) + 1)"
    using t n unfolding ring_facts by auto
  have "filter (\<lambda>f. c < fr_end_cursor f) (rg_frames r) = []"
  proof -
    have "fr_end_cursor f < b" if "chain a fs b" "f \<in> set fs" for a b f and fs :: "OutputFrame list"
      using that by (induction fs arbitrary: a) (auto dest: chain_span)
    then show ?thesis using ch assms(2) by (force simp: filter_empty_conv)
  qed
  then show ?thesis using assms(2,3) n d ch
    by (cases "rg_frames r") (auto simp: replay_def)
qed

theorem replay_future_cursor_witness:
  "replay ring64 9 = Inr \<lparr>rp_kind = ReplayFrames, rp_frames = [], rp_next_cursor = 9,
     rp_gap_start = None, rp_gap_end = None\<rparr> \<and> rg_next_cursor ring64 = 1"
  using replay_future_cursor [OF ring64_history, of 9]
  by (simp add: MAX_OUTPUT_CURSOR_def MAX_U64_eval ring64_def)

text \<open>A batch is all or nothing: on a reachable ring it is accepted exactly when every payload is
  a valid frame and the total fits the capacity and the cursor space, and then it yields one
  frame per payload, in order, on consecutive cursors; no error can occur after the first append.
\<close>

theorem append_batch_all_or_nothing:
  assumes "ring_history r h"
  shows "(\<exists>fs r'. append_batch r ps = Inr (fs, r') \<and> map fr_payload fs = ps
      \<and> chain (int (length h) + 1) fs (int (length h) + 1 + int (length (concat ps)))) \<longleftrightarrow>
    (\<forall>p \<in> set ps. p \<noteq> [] \<and> length p \<le> 49152) \<and> int (length (concat ps)) \<le> rg_capacity r
      \<and> int (length h) + int (length (concat ps)) \<le> MAX_OUTPUT_CURSOR" (is "?ok \<longleftrightarrow> ?fits")
proof
  have t: "ring.tracks r h" using assms by (rule history_tracks)
  then have inv: "ring_inv r" by (simp add: ring.tracks_def)
  have n: "rg_next_cursor r = int (length h) + 1" using t by (rule ring.tracks_next)
  have total: "sum_list (map length ps) = length (concat ps)" by (simp add: length_concat)
  {
    assume ?ok
    then obtain fs r' where "append_batch r ps = Inr (fs, r')" by blast
    then show ?fits
      unfolding append_batch_def Let_def total n MAX_OUTPUT_FRAME_BYTES_def
      by (auto split: if_splits)
  next
    assume fits: ?fits
    then obtain fs r' where all: "append_all r ps = Inr (fs, r')" "map fr_payload fs = ps"
        "chain (rg_next_cursor r) fs (rg_next_cursor r')"
      using append_all_ok [OF inv, of ps] n by (auto simp: MAX_OUTPUT_FRAME_BYTES_def)
    have "append_batch r ps = Inr (fs, r')"
      unfolding append_batch_def Let_def total n
      using fits all(1) by (auto simp: MAX_OUTPUT_FRAME_BYTES_def)
    moreover have "rg_next_cursor r' = int (length h) + 1 + int (length (concat ps))"
      using chain_span [OF all(3)] all(2) n by simp
    ultimately show ?ok using all n by auto
  }
qed

theorem append_batch_all_or_nothing_witness:
  "\<exists>fs r'. append_batch ring64 [[104], [105, 10]] = Inr (fs, r') \<and> map fr_payload fs = [[104], [105, 10]]"
  using append_batch_all_or_nothing [OF ring64_history, of "[[104], [105, 10]]"]
  by (auto simp: ring64_def MAX_OUTPUT_CURSOR_def MAX_U64_eval)

text \<open>
  C39. Acceptance of a batch does not mean it is retained: the check before a batch looks at bytes
  and cursors only, so a batch of one frame with 2001 line feeds is accepted by an empty ring of
  the default capacity, returns its frame, and leaves the ring empty with the frame's bytes
  already reported as dropped.
\<close>

theorem append_batch_may_evict:
  "\<exists>r f r'. OutputRing_init MAX_OUTPUT_BUFFER_BYTES = Inr r
     \<and> append_batch r [replicate 2001 10] = Inr ([f], r')
     \<and> rg_frames r' = [] \<and> rg_dropped_until r' = 2001 \<and> fr_end_cursor f = 2001"
proof -
  let ?p = "replicate 2001 (10 :: byte)"
  obtain r where r: "OutputRing_init MAX_OUTPUT_BUFFER_BYTES = Inr r"
    and r_eq: "r = \<lparr>rg_capacity = 262144, rg_frames = [], rg_bytes = 0, rg_line_breaks = 0,
      rg_next_cursor = 1, rg_dropped_until = 0\<rparr>"
    by (simp add: OutputRing_init_def MAX_OUTPUT_BUFFER_BYTES_def)
  let ?f = "\<lparr>fr_start_cursor = 1, fr_end_cursor = 2001, fr_payload = ?p\<rparr>"
  have cnt: "count_list (replicate n (10 :: byte)) 10 = n" for n
    by (induction n) auto
  have ne: "?p \<noteq> []" by simp
  have len: "length ?p = 2001" by (rule length_replicate)
  have nl: "newlines ?p = 2001" by (simp add: newlines_def cnt)
  have lst: "last ?p = 10" by (rule last_replicate) simp
  have init: "OutputFrame_init ?f = Inr ?f"
    unfolding OutputFrame_init_def
    by (simp add: validate_positive_u64_def MAX_U64_eval len ne MAX_OUTPUT_FRAME_BYTES_def)
  have "\<exists>r'. append_output r ?p = Inr (?f, r') \<and> rg_frames r' = [] \<and> rg_dropped_until r' = 2001"
    using init unfolding append_output_def Let_def r_eq
    by (simp add: len ne nl lst evict.simps popleft_def retained_line_count_def
        MAX_OUTPUT_FRAME_BYTES_def MAX_OUTPUT_CURSOR_def MAX_U64_eval)
  then obtain r' where r': "append_output r ?p = Inr (?f, r')" "rg_frames r' = []" "rg_dropped_until r' = 2001"
    by blast
  have "append_batch r [?p] = Inr ([?f], r')"
    using r'(1) unfolding append_batch_def Let_def
    by (simp add: len ne r_eq MAX_OUTPUT_FRAME_BYTES_def MAX_OUTPUT_CURSOR_def MAX_U64_eval)
  with r r' show ?thesis by fastforce
qed

end
