(* ===== verification/Redraw.thy ===== *)
theory Redraw
  imports Output_Ring
begin

text \<open>
  The bounded redraw contracts (\<open>agentbox_runtime/waw_redraw.py\<close>). A capture is read with one
  byte and one row of look-ahead; \<open>trim_redraw_sentinels\<close> cuts the look-ahead off again. It is
  shown equal to a reference definition: the first 24 rows of the first 60 KiB.
\<close>

definition REDRAW_MAX_ROWS :: nat where "REDRAW_MAX_ROWS = 24"
definition ROW_READ_LIMIT :: nat where "ROW_READ_LIMIT = REDRAW_MAX_ROWS + 1"
definition REDRAW_MAX_BYTES :: nat where "REDRAW_MAX_BYTES = 60 * 1024"
definition BYTE_READ_LIMIT :: nat where "BYTE_READ_LIMIT = REDRAW_MAX_BYTES + 1"
definition MAX_FRAME_BYTES :: nat where "MAX_FRAME_BYTES = 32 * 1024"

datatype redraw_error = WAWRedrawError string

definition physical_rows :: "bytes \<Rightarrow> nat" where
  "physical_rows payload =
     count_list payload 10 + (if payload \<noteq> [] \<and> last payload \<noteq> 10 then 1 else 0)"

record BoundedRedraw =
  br_payload :: bytes
  br_has_more :: bool

definition BoundedRedraw_init :: "BoundedRedraw \<Rightarrow> redraw_error + BoundedRedraw" where
  "BoundedRedraw_init b =
     (if length (br_payload b) > REDRAW_MAX_BYTES \<or> physical_rows (br_payload b) > REDRAW_MAX_ROWS
      then Inl (WAWRedrawError ''redraw payload is outside the fixed bounds'') else Inr b)"

text \<open>
  The loop over \<open>enumerate(payload)\<close>: \<open>Some row_start\<close> when it breaks at the 25th line feed.
\<close>

fun scan_rows :: "bytes \<Rightarrow> nat \<Rightarrow> nat \<Rightarrow> nat \<Rightarrow> nat option" where
  "scan_rows [] offset newline_count row_start = None"
| "scan_rows (v # vs) offset newline_count row_start =
     (if v = 10
      then if newline_count + 1 = ROW_READ_LIMIT then Some row_start
           else scan_rows vs (offset + 1) (newline_count + 1) (offset + 1)
      else scan_rows vs (offset + 1) newline_count row_start)"

text \<open>\<open>payload.rfind(b"\n") + 1\<close>: the length of the longest prefix that ends in a line feed.\<close>

definition after_last_newline :: "bytes \<Rightarrow> nat" where
  "after_last_newline payload = length payload - length (takeWhile (\<lambda>b. b \<noteq> 10) (rev payload))"

definition trim_redraw_sentinels :: "bytes \<Rightarrow> redraw_error + BoundedRedraw" where
  "trim_redraw_sentinels raw =
     (if length raw > BYTE_READ_LIMIT
      then Inl (WAWRedrawError ''redraw read must be bytes within the sentinel limit'')
      else
      let byte_sentinel = (length raw = BYTE_READ_LIMIT);
          payload = (if byte_sentinel then take REDRAW_MAX_BYTES raw else raw)
      in case scan_rows payload 0 0 0 of
           Some row_start \<Rightarrow> BoundedRedraw_init \<lparr>br_payload = take row_start payload, br_has_more = True\<rparr>
         | None \<Rightarrow>
             if physical_rows payload = ROW_READ_LIMIT
             then BoundedRedraw_init \<lparr>br_payload = take (after_last_newline payload) payload,
                    br_has_more = True\<rparr>
             else BoundedRedraw_init \<lparr>br_payload = payload, br_has_more = byte_sentinel\<rparr>)"

record RuntimeRedrawPublication =
  rr_frames :: "OutputFrame list"
  rr_baseline_cursor :: int
  rr_has_more :: bool

fun check_frames :: "int option \<Rightarrow> OutputFrame list \<Rightarrow> redraw_error + int option" where
  "check_frames previous_end [] = Inr previous_end"
| "check_frames previous_end (frame # frames) =
     (if length (fr_payload frame) > MAX_FRAME_BYTES
      then Inl (WAWRedrawError ''redraw frame is outside the publication limit'')
      else if previous_end \<noteq> None \<and> fr_start_cursor frame \<noteq> the previous_end + 1
      then Inl (WAWRedrawError ''redraw frame cursors are not continuous'')
      else check_frames (Some (fr_end_cursor frame)) frames)"

definition RuntimeRedrawPublication_init ::
  "RuntimeRedrawPublication \<Rightarrow> redraw_error + RuntimeRedrawPublication" where
  "RuntimeRedrawPublication_init p =
     (if \<not> (0 \<le> rr_baseline_cursor p \<and> rr_baseline_cursor p \<le> MAX_OUTPUT_CURSOR)
      then Inl (WAWRedrawError ''baseline cursor is outside the output range'')
      else ebind (check_frames None (rr_frames p)) (\<lambda>previous_end.
        if previous_end \<noteq> None \<and> rr_baseline_cursor p \<noteq> the previous_end
        then Inl (WAWRedrawError ''baseline cursor must end the redraw publication'')
        else Inr p))"

section \<open>Reference definition\<close>

fun first_rows :: "nat \<Rightarrow> bytes \<Rightarrow> bytes" where
  "first_rows 0 bs = []"
| "first_rows (Suc n) [] = []"
| "first_rows (Suc n) (b # bs) = b # (if b = 10 then first_rows n bs else first_rows (Suc n) bs)"

lemma first_rows_prefix: "\<exists>k. first_rows n bs = take k bs"
proof (induction n bs rule: first_rows.induct)
  case (3 n b bs)
  then obtain k where "(if b = 10 then first_rows n bs else first_rows (Suc n) bs) = take k bs"
    by (cases "b = 10") auto
  then show ?case by (intro exI [of _ "Suc k"]) (simp split: if_splits)
qed (auto intro: exI [of _ 0])

lemma physical_rows_Cons:
  "physical_rows (b # bs) = (if b = 10 then 1 + physical_rows bs else if bs = [] then 1 else physical_rows bs)"
  by (auto simp: physical_rows_def)

lemma physical_rows_first: "physical_rows (first_rows n bs) \<le> n"
proof (induction n bs rule: first_rows.induct)
  case (3 n b bs)
  then show ?case by (auto simp: physical_rows_Cons)
qed (auto simp: physical_rows_def)

lemma first_rows_id: "physical_rows bs \<le> n \<Longrightarrow> first_rows n bs = bs"
proof (induction n bs rule: first_rows.induct)
  case (1 bs)
  have "bs = []"
  proof (rule ccontr)
    assume "bs \<noteq> []"
    moreover from 1 have "10 \<notin> set bs" by (simp add: physical_rows_def count_list_0_iff)
    ultimately have "last bs \<noteq> 10" using last_in_set by metis
    with 1 \<open>bs \<noteq> []\<close> show False by (simp add: physical_rows_def)
  qed
  then show ?case by simp
next
  case (3 n b bs)
  then show ?case by (cases bs) (auto simp: physical_rows_Cons split: if_splits)
qed simp

text \<open>The scan breaks exactly when the payload holds 25 line feeds, at the end of the 24th row.\<close>

lemma scan_rows_spec:
  "newline_count \<le> REDRAW_MAX_ROWS \<Longrightarrow>
   scan_rows vs off newline_count rs =
     (if ROW_READ_LIMIT - newline_count \<le> count_list vs 10
      then Some (if newline_count = REDRAW_MAX_ROWS then rs
                 else off + length (first_rows (REDRAW_MAX_ROWS - newline_count) vs))
      else None)"
proof (induction vs off newline_count rs rule: scan_rows.induct)
  case (1 off nc rs)
  then show ?case by (simp add: ROW_READ_LIMIT_def)
next
  case (2 v vs off nc rs)
  show ?case
  proof (cases "nc = REDRAW_MAX_ROWS")
    case True
    with 2 show ?thesis by (auto simp: ROW_READ_LIMIT_def)
  next
    case False
    then obtain k where k: "REDRAW_MAX_ROWS - nc = Suc k" "Suc nc \<le> REDRAW_MAX_ROWS"
      using "2.prems" by (metis Suc_diff_Suc le_neq_implies_less Suc_leI)
    then have "REDRAW_MAX_ROWS - Suc nc = k" by simp
    with 2 False k show ?thesis
      by (cases k) (auto simp: ROW_READ_LIMIT_def)
  qed
qed

lemma first_rows_cut:
  "count_list bs 10 = n \<Longrightarrow> bs \<noteq> [] \<Longrightarrow> last bs \<noteq> 10 \<Longrightarrow>
   first_rows n bs = take (after_last_newline bs) bs"
proof (induction n bs rule: first_rows.induct)
  case (1 bs)
  then have "takeWhile (\<lambda>b. b \<noteq> 10) (rev bs) = rev bs"
    by (auto simp: count_list_0_iff takeWhile_eq_all_conv)
  then show ?case
    by (simp only: after_last_newline_def length_rev diff_self_eq_0 take0 first_rows.simps)
next
  case (3 n b bs)
  have "length (takeWhile (\<lambda>b. b \<noteq> 10) (rev bs)) \<le> length bs"
    by (metis length_rev length_takeWhile_le)
  moreover have "10 \<in> set bs \<Longrightarrow> takeWhile (\<lambda>b. b \<noteq> 10) (rev bs @ [b]) = takeWhile (\<lambda>b. b \<noteq> 10) (rev bs)"
    by (simp add: takeWhile_append1)
  moreover have "10 \<notin> set bs \<Longrightarrow> takeWhile (\<lambda>b. b \<noteq> 10) (rev bs) = rev bs"
    by (auto simp: takeWhile_eq_all_conv)
  ultimately show ?case
    using 3 by (cases "bs = []"; cases "10 \<in> set bs")
      (auto simp: after_last_newline_def Suc_diff_le takeWhile_append count_list_0_iff split: if_splits)
qed simp

text \<open>The three ways a scan ends: cut inside, cut before an unfinished 25th row, or nothing cut.\<close>

lemma scan_rows_cases:
  obtains
    (many) "scan_rows pay 0 0 0 = Some (length (first_rows 24 pay))" "first_rows 24 pay \<noteq> pay"
  | (tail) "scan_rows pay 0 0 0 = None" "physical_rows pay = ROW_READ_LIMIT"
      "first_rows 24 pay = take (after_last_newline pay) pay" "first_rows 24 pay \<noteq> pay"
  | (all) "scan_rows pay 0 0 0 = None" "physical_rows pay \<noteq> ROW_READ_LIMIT" "first_rows 24 pay = pay"
proof -
  note lims = REDRAW_MAX_ROWS_def ROW_READ_LIMIT_def
  note spec = scan_rows_spec [of 0 pay 0 0]
  note rows = physical_rows_first [of 24 pay]
  consider (m) "25 \<le> count_list pay 10" | (t) "count_list pay 10 = 24" "pay \<noteq> []" "last pay \<noteq> 10"
    | (a) "physical_rows pay \<le> 24"
    unfolding physical_rows_def by (cases "pay \<noteq> [] \<and> last pay \<noteq> 10") (simp, linarith, simp, linarith)
  then show thesis
  proof cases
    case m
    then have "first_rows 24 pay \<noteq> pay" using rows by (auto simp: physical_rows_def)
    then show thesis using many spec m by (simp add: lims)
  next
    case t
    then have "first_rows 24 pay \<noteq> pay" using rows by (auto simp: physical_rows_def)
    then show thesis using tail spec t first_rows_cut by (simp add: lims physical_rows_def)
  next
    case a
    then show thesis using all spec first_rows_id by (simp add: lims physical_rows_def)
  qed
qed

lemma rows_cut:
  fixes raw :: bytes
  defines "pay \<equiv> take REDRAW_MAX_BYTES raw"
  shows "pay \<noteq> raw \<or> first_rows 24 pay \<noteq> pay \<longleftrightarrow> first_rows 24 pay \<noteq> raw"
proof -
  obtain k where k: "first_rows 24 pay = take k pay" using first_rows_prefix by blast
  have "length (first_rows 24 pay) < length raw" if "first_rows 24 pay \<noteq> pay"
    using that k by (metis length_take linorder_not_less min_less_iff_conj nat_le_linear order_le_less_trans
        pay_def take_all_iff)
  then show ?thesis by force
qed

text \<open>
  C32. The scanner agrees with its reference definition on every read within the limit: it always
  returns, the payload is exactly the first 24 physical rows of the first 60 KiB of the read, and
  the flag says whether anything of the read was left out.
\<close>

theorem trim_redraw_reference:
  assumes "length raw \<le> BYTE_READ_LIMIT"
  shows "trim_redraw_sentinels raw =
    (let p = first_rows 24 (take REDRAW_MAX_BYTES raw)
     in Inr \<lparr>br_payload = p, br_has_more = (p \<noteq> raw)\<rparr>)"
proof -
  define pay where "pay = take REDRAW_MAX_BYTES raw"
  note cut = rows_cut [of raw, folded pay_def]
  have pay: "(if length raw = BYTE_READ_LIMIT then take REDRAW_MAX_BYTES raw else raw) = pay"
    using assms by (simp add: pay_def BYTE_READ_LIMIT_def)
  obtain k where k: "first_rows 24 pay = take k pay" using first_rows_prefix by blast
  then have bounds: "length (first_rows 24 pay) \<le> REDRAW_MAX_BYTES" by (simp add: pay_def)
  have ok: "BoundedRedraw_init \<lparr>br_payload = first_rows 24 pay, br_has_more = m\<rparr>
      = Inr \<lparr>br_payload = first_rows 24 pay, br_has_more = m\<rparr>" for m
    using bounds physical_rows_first [of 24 pay] by (simp add: BoundedRedraw_init_def REDRAW_MAX_ROWS_def)
  have raw: "raw = pay \<longleftrightarrow> length raw \<noteq> BYTE_READ_LIMIT"
    using assms unfolding pay_def BYTE_READ_LIMIT_def
    by (metis One_nat_def Suc_eq_plus1 le_SucE length_take lessI min.absorb4 n_not_Suc_n nat_le_linear
        order.strict_iff_order take_all_iff)
  have take_rows: "take (length (first_rows 24 pay)) pay = first_rows 24 pay"
    unfolding k by (simp add: min_def)
  note unfolded = trim_redraw_sentinels_def Let_def pay_def [symmetric]
  show ?thesis
  proof (cases rule: scan_rows_cases [of pay])
    case many
    then show ?thesis using assms pay ok cut take_rows unfolding unfolded by simp
  next
    case tail
    then show ?thesis using assms pay ok cut unfolding unfolded by simp
  next
    case all
    then show ?thesis using assms pay ok raw unfolding unfolded by auto
  qed
qed

theorem trim_redraw_reference_witness:
  "length [104, 10 :: byte] \<le> BYTE_READ_LIMIT
   \<and> trim_redraw_sentinels [104, 10] = Inr \<lparr>br_payload = [104, 10], br_has_more = False\<rparr>"
  using trim_redraw_reference [of "[104, 10]"]
  by (simp add: BYTE_READ_LIMIT_def REDRAW_MAX_BYTES_def Let_def first_rows_id physical_rows_def)

section \<open>Publications\<close>

text \<open>\<open>joined c fs\<close>: every frame starts one cursor after the previous one, the first after \<open>c\<close>.\<close>

fun joined :: "int \<Rightarrow> OutputFrame list \<Rightarrow> bool" where
  "joined c [] \<longleftrightarrow> True"
| "joined c (f # fs) \<longleftrightarrow> fr_start_cursor f = c + 1 \<and> joined (fr_end_cursor f) fs"

lemma check_frames_Some:
  "check_frames (Some c) fs = Inr r \<longleftrightarrow>
     (\<forall>f \<in> set fs. length (fr_payload f) \<le> MAX_FRAME_BYTES) \<and> joined c fs
     \<and> r = Some (if fs = [] then c else fr_end_cursor (last fs))"
  by (induction fs arbitrary: c) auto

text \<open>
  A frame list that the ring produced for one redraw, that is one covering consecutive
  cursors, is a valid publication exactly when its frames are at most 32 KiB and the baseline is
  the end of the last frame; a publication without frames may name any usable cursor.
\<close>

theorem publication_accepts:
  assumes "chain a fs b"
  shows "is_ok (RuntimeRedrawPublication_init \<lparr>rr_frames = fs, rr_baseline_cursor = c, rr_has_more = m\<rparr>)
    \<longleftrightarrow> 0 \<le> c \<and> c \<le> MAX_OUTPUT_CURSOR \<and> (\<forall>f \<in> set fs. length (fr_payload f) \<le> MAX_FRAME_BYTES)
      \<and> (fs \<noteq> [] \<longrightarrow> c = b - 1)"
proof -
  have joined: "joined (x - 1) gs \<and> (gs \<noteq> [] \<longrightarrow> fr_end_cursor (last gs) = y - 1)" if "chain x gs y" for x gs y
    using that by (induction gs arbitrary: x) (fastforce dest: chain_span)+
  show ?thesis
  proof (cases fs)
    case Nil
    then show ?thesis by (auto simp: is_ok_iff RuntimeRedrawPublication_init_def)
  next
    case (Cons f gs)
    then have "joined (fr_end_cursor f) gs" "fr_end_cursor (last fs) = b - 1"
      using joined [OF assms] assms joined [of "fr_end_cursor f + 1" gs b] by auto
    with Cons show ?thesis
      by (auto simp: is_ok_iff RuntimeRedrawPublication_init_def result_simps check_frames_Some
          split: if_splits)
  qed
qed

end
