(* ===== verification/Recovery.thy ===== *)
theory Recovery
  imports Output_Ring
begin

text \<open>
  Resume fencing (\<open>agentbox_core/waw_recovery.py\<close>): the identity a client must present to resume
  output, the cursor and epoch hint that goes with it, and \<open>classify_resume\<close>, which decides
  between replay, a fresh attachment and refusal. The cursor of a granted replay is one the output
  ring (\<open>agentbox_runtime/waw_pty.py\<close>) is asked for.
\<close>

datatype recovery_error = RecoveryError string string

datatype RecoveryDecision = RD_REPLAY | RD_FRESH_ATTACHMENT | RD_RECONCILIATION_REQUIRED

record RecoveryIdentity =
  ri_workspace_id :: pystr
  ri_project_id :: pystr
  ri_agent_type :: pystr
  ri_generation :: int
  ri_binding_revision :: int
  ri_binding_digest :: pystr
  ri_runtime_host_installation_id :: pystr
  ri_runtime_host_installation_revision :: int
  ri_runtime_epoch :: int
  ri_api_authority_epoch :: int
  ri_attachment_id :: pystr
  ri_lease_number :: int
  ri_session_id :: pystr
  ri_auth_epoch :: int
  ri_mode :: pystr

text \<open>The body of the \<open>try\<close> block: any error in it becomes the one identity error.\<close>

definition canonical_identity :: "RecoveryIdentity \<Rightarrow> bool" where
  "canonical_identity i \<longleftrightarrow>
     is_ok (validate_workspace_id (ri_workspace_id i)) \<and>
     is_ok (validate_project_id (ri_project_id i)) \<and>
     is_ok (validate_attachment_id (ri_attachment_id i)) \<and>
     is_ok (validate_runtime_host_installation_id (ri_runtime_host_installation_id i)) \<and>
     is_ok (validate_binding_digest (ri_binding_digest i)) \<and>
     (case agent_type_of (ri_agent_type i) of
        Inl _ \<Rightarrow> False
      | Inr agent \<Rightarrow>
          workspace_id (ri_project_id i) (AgentType_value agent) = Inr (ri_workspace_id i))"

fun check_u64_fields :: "(string \<times> int) list \<Rightarrow> recovery_error + unit" where
  "check_u64_fields [] = Inr ()"
| "check_u64_fields ((field, value) # rest) =
     (case validate_positive_u64 value field of
        Inl _ \<Rightarrow> Inl (RecoveryError ''RECOVERY_IDENTITY_INVALID'' (field @ '' is invalid''))
      | Inr _ \<Rightarrow> check_u64_fields rest)"

definition RecoveryIdentity_init :: "RecoveryIdentity \<Rightarrow> recovery_error + RecoveryIdentity" where
  "RecoveryIdentity_init i =
     (if \<not> canonical_identity i
      then Inl (RecoveryError ''RECOVERY_IDENTITY_INVALID'' ''canonical identity is invalid'')
      else if ri_session_id i = []
      then Inl (RecoveryError ''RECOVERY_IDENTITY_INVALID'' ''session_id is required'')
      else if ri_mode i \<noteq> lit ''writer''
      then Inl (RecoveryError ''RECOVERY_IDENTITY_INVALID'' ''mode must be writer'')
      else ebind (check_u64_fields
             [(''generation'', ri_generation i), (''binding_revision'', ri_binding_revision i),
              (''runtime_host_installation_revision'', ri_runtime_host_installation_revision i),
              (''runtime_epoch'', ri_runtime_epoch i),
              (''api_authority_epoch'', ri_api_authority_epoch i),
              (''lease_number'', ri_lease_number i), (''auth_epoch'', ri_auth_epoch i)])
           (\<lambda>_. Inr i))"

record ResumeHint =
  rh_resume_cursor :: "int option"
  rh_previous_runtime_epoch :: "int option"

definition hint_validate :: "ResumeHint \<Rightarrow> int \<Rightarrow> recovery_error + ResumeHint" where
  "hint_validate h current_runtime_epoch =
     (if \<not> (1 \<le> current_runtime_epoch \<and> current_runtime_epoch \<le> MAX_U64)
      then Inl (RecoveryError ''RESUME_HINT_INVALID'' ''current runtime epoch is invalid'')
      else if (case rh_resume_cursor h of None \<Rightarrow> False | Some c \<Rightarrow> \<not> (0 \<le> c \<and> c \<le> MAX_U64))
      then Inl (RecoveryError ''RESUME_HINT_INVALID'' ''resume cursor must be non-negative'')
      else if (case rh_previous_runtime_epoch h of None \<Rightarrow> False | Some p \<Rightarrow> \<not> (1 \<le> p \<and> p \<le> MAX_U64))
      then Inl (RecoveryError ''RESUME_HINT_INVALID'' ''previous runtime epoch must be positive'')
      else if rh_resume_cursor h \<in> {None, Some 0} \<and> rh_previous_runtime_epoch h = None then Inr h
      else if (case rh_resume_cursor h of None \<Rightarrow> False | Some c \<Rightarrow> c > 0)
              \<and> rh_previous_runtime_epoch h = Some current_runtime_epoch then Inr h
      else Inl (RecoveryError ''RESUME_HINT_INVALID''
                  ''resume requires a positive cursor bound to the current runtime epoch''))"

text \<open>The comparisons \<open>classify_resume\<close> repeats in its branches.\<close>

definition same_workspace :: "RecoveryIdentity \<Rightarrow> RecoveryIdentity \<Rightarrow> bool" where
  "same_workspace e a \<longleftrightarrow>
     ri_workspace_id e = ri_workspace_id a \<and> ri_project_id e = ri_project_id a
     \<and> ri_agent_type e = ri_agent_type a"

definition same_binding :: "RecoveryIdentity \<Rightarrow> RecoveryIdentity \<Rightarrow> bool" where
  "same_binding e a \<longleftrightarrow>
     same_workspace e a \<and> ri_generation e = ri_generation a
     \<and> ri_binding_revision e = ri_binding_revision a \<and> ri_binding_digest e = ri_binding_digest a
     \<and> ri_runtime_host_installation_id e = ri_runtime_host_installation_id a
     \<and> ri_runtime_host_installation_revision e = ri_runtime_host_installation_revision a"

definition same_session :: "RecoveryIdentity \<Rightarrow> RecoveryIdentity \<Rightarrow> bool" where
  "same_session e a \<longleftrightarrow>
     ri_session_id e = ri_session_id a \<and> ri_auth_epoch e = ri_auth_epoch a \<and> ri_mode e = ri_mode a"

definition classify_resume ::
  "RecoveryIdentity \<Rightarrow> RecoveryIdentity \<Rightarrow> ResumeHint \<Rightarrow> recovery_error + RecoveryDecision" where
  "classify_resume e a h =
     (if same_binding e a \<and> ri_runtime_epoch e = ri_runtime_epoch a
         \<and> ri_api_authority_epoch e = ri_api_authority_epoch a \<and> same_session e a
      then ebind (hint_validate h (ri_runtime_epoch e)) (\<lambda>_.
        Inr (if rh_resume_cursor h \<notin> {None, Some 0} then RD_REPLAY else RD_FRESH_ATTACHMENT))
      else if same_binding e a \<and> same_session e a \<and> ri_runtime_epoch e \<noteq> ri_runtime_epoch a
      then Inl (RecoveryError ''RECONCILIATION_REQUIRED''
                  ''Runtime epoch changed; output replay is fenced'')
      else if same_binding e a \<and> ri_runtime_epoch e = ri_runtime_epoch a
         \<and> ri_api_authority_epoch e \<noteq> ri_api_authority_epoch a \<and> same_session e a
      then ebind (hint_validate h (ri_runtime_epoch e)) (\<lambda>_.
        if rh_resume_cursor h \<notin> {None, Some 0}
        then Inl (RecoveryError ''RECONCILIATION_REQUIRED'' ''API restart requires a fresh attachment'')
        else Inr RD_FRESH_ATTACHMENT)
      else if same_binding e a \<and> ri_runtime_epoch e = ri_runtime_epoch a
         \<and> ri_api_authority_epoch e = ri_api_authority_epoch a
      then Inl (RecoveryError ''RECOVERY_IDENTITY_STALE'' ''session or authorization identity changed'')
      else if same_workspace e a
      then Inl (RecoveryError ''RECONCILIATION_REQUIRED''
                  ''workspace generation, binding, host, or Runtime epoch changed'')
      else Inl (RecoveryError ''RECOVERY_IDENTITY_STALE'' ''recovery identity does not match''))"

section \<open>Properties\<close>

lemma identity_epoch: "RecoveryIdentity_init i = Inr i' \<Longrightarrow> 1 \<le> ri_runtime_epoch i \<and> ri_runtime_epoch i \<le> MAX_U64"
  by (auto simp: RecoveryIdentity_init_def validate_positive_u64_def split: if_splits)

lemma hint_validate_ok:
  assumes "1 \<le> ep" "ep \<le> MAX_U64"
  shows "hint_validate h ep = Inr h' \<longleftrightarrow> h' = h \<and>
    (rh_resume_cursor h \<in> {None, Some 0} \<and> rh_previous_runtime_epoch h = None
     \<or> (\<exists>c. rh_resume_cursor h = Some c \<and> 0 < c \<and> c \<le> MAX_U64
            \<and> rh_previous_runtime_epoch h = Some ep))"
  using assms by (auto simp: hint_validate_def MAX_U64_eval split: option.splits if_splits)

lemma replay_answers: "is_ok (replay r c) \<longleftrightarrow> 0 \<le> c \<and> c \<le> MAX_OUTPUT_CURSOR"
  by (auto simp: replay_def split: list.splits)

text \<open>The recorded identity, seen from another attachment and lease of the same client.\<close>

definition reattached :: "RecoveryIdentity \<Rightarrow> RecoveryIdentity \<Rightarrow> RecoveryIdentity" where
  "reattached e a = e\<lparr>ri_attachment_id := ri_attachment_id a, ri_lease_number := ri_lease_number a\<rparr>"

lemma reattached_iff:
  "a = reattached e a \<longleftrightarrow> same_binding e a \<and> ri_runtime_epoch e = ri_runtime_epoch a
     \<and> ri_api_authority_epoch e = ri_api_authority_epoch a \<and> same_session e a"
  by (cases e; cases a) (auto simp: reattached_def same_binding_def same_workspace_def same_session_def)

lemma reattached_api_iff:
  "a = (reattached e a)\<lparr>ri_api_authority_epoch := ri_api_authority_epoch a\<rparr> \<longleftrightarrow>
     same_binding e a \<and> ri_runtime_epoch e = ri_runtime_epoch a \<and> same_session e a"
  by (cases e; cases a) (auto simp: reattached_def same_binding_def same_workspace_def same_session_def)

text \<open>
  C10. Resume decisions, for a recorded identity the constructor accepted: output is replayed
  exactly when the presented identity equals the recorded one in every field but attachment and
  lease, and the hint names a positive cursor together with the recorded Runtime epoch; a fresh
  attachment is granted exactly when at most the API epoch differs and the hint names no cursor
  or zero and no epoch; every other request is refused with an error. The accepted cursors go up
  to \<open>2^64 - 1\<close>, one more than \<open>docs/WAW3_RECOVERY_CONTRACTS.md\<close> allows: of the cursors of granted
  replays the output ring answers every one but that last, which it refuses with an error.
\<close>

theorem classify_resume_decision:
  assumes "RecoveryIdentity_init e = Inr e"
  shows "(classify_resume e a h = Inr RD_REPLAY \<longleftrightarrow>
      a = reattached e a \<and>
      (\<exists>c. rh_resume_cursor h = Some c \<and> 0 < c \<and> c \<le> MAX_U64
        \<and> rh_previous_runtime_epoch h = Some (ri_runtime_epoch e)))
    \<and> (classify_resume e a h = Inr RD_FRESH_ATTACHMENT \<longleftrightarrow>
      a = (reattached e a)\<lparr>ri_api_authority_epoch := ri_api_authority_epoch a\<rparr> \<and>
      rh_resume_cursor h \<in> {None, Some 0} \<and> rh_previous_runtime_epoch h = None)
    \<and> classify_resume e a h \<noteq> Inr RD_RECONCILIATION_REQUIRED
    \<and> (\<forall>c r. classify_resume e a h = Inr RD_REPLAY \<longrightarrow> rh_resume_cursor h = Some c \<longrightarrow>
         (is_ok (replay r c) \<longleftrightarrow> c \<noteq> 2 ^ 64 - 1))"
proof -
  have ep: "1 \<le> ri_runtime_epoch e" "ri_runtime_epoch e \<le> MAX_U64"
    using identity_epoch [OF assms] by auto
  note hint = hint_validate_ok [OF ep]
  have "(classify_resume e a h = Inr RD_REPLAY \<longleftrightarrow>
      a = reattached e a \<and>
      (\<exists>c. rh_resume_cursor h = Some c \<and> 0 < c \<and> c \<le> MAX_U64
        \<and> rh_previous_runtime_epoch h = Some (ri_runtime_epoch e)))
    \<and> (classify_resume e a h = Inr RD_FRESH_ATTACHMENT \<longleftrightarrow>
      a = (reattached e a)\<lparr>ri_api_authority_epoch := ri_api_authority_epoch a\<rparr> \<and>
      rh_resume_cursor h \<in> {None, Some 0} \<and> rh_previous_runtime_epoch h = None)
    \<and> classify_resume e a h \<noteq> Inr RD_RECONCILIATION_REQUIRED"
  proof (cases "ri_runtime_epoch e = ri_runtime_epoch a")
    case True
    then show ?thesis
      unfolding classify_resume_def reattached_iff reattached_api_iff
      by (auto simp: result_simps hint [unfolded True] split: if_splits)
  next
    case False
    then show ?thesis
      unfolding classify_resume_def reattached_iff reattached_api_iff by auto
  qed
  moreover from this have "is_ok (replay r c) \<longleftrightarrow> c \<noteq> 2 ^ 64 - 1"
    if "classify_resume e a h = Inr RD_REPLAY" "rh_resume_cursor h = Some c" for c r
    using that by (auto simp: replay_answers MAX_OUTPUT_CURSOR_def MAX_U64_def)
  ultimately show ?thesis by blast
qed

definition sample_identity :: "pystr \<Rightarrow> RecoveryIdentity" where
  "sample_identity w = \<lparr>ri_workspace_id = w,
     ri_project_id = lit ''prj_00000000000000000000000000000000'', ri_agent_type = lit ''codex'',
     ri_generation = 3, ri_binding_revision = 1, ri_binding_digest = replicate 64 48,
     ri_runtime_host_installation_id = lit ''wri_00000000000000000000000000000000'',
     ri_runtime_host_installation_revision = 1, ri_runtime_epoch = 7, ri_api_authority_epoch = 2,
     ri_attachment_id = lit ''att_00000000000000000000000000000000'', ri_lease_number = 1,
     ri_session_id = lit ''s'', ri_auth_epoch = 1, ri_mode = lit ''writer''\<rparr>"

lemma sample_identity_ok:
  "\<exists>w. RecoveryIdentity_init (sample_identity w) = Inr (sample_identity w)"
proof -
  let ?p = "lit ''prj_00000000000000000000000000000000''"
  have p: "id_matches project_kind ?p"
    "id_matches runtime_host_kind (lit ''wri_00000000000000000000000000000000'')"
    "id_matches attachment_kind (lit ''att_00000000000000000000000000000000'')"
    by (simp_all add: id_matches_def lit_def is_hex_def)
  have a: "lit ''codex'' = AgentType_value CODEX" by (simp add: AgentType_value.simps)
  have d: "list_all is_hex (replicate 64 48)" by (simp add: list_all_iff is_hex_def)
  obtain w where w: "workspace_id ?p (AgentType_value CODEX) = Inr w"
    using p by (simp add: workspace_id_def validators_ok Let_def)
  then have "id_matches workspace_kind w" by (rule workspace_id_matches)
  then have "canonical_identity (sample_identity w)"
    using p w d by (simp add: canonical_identity_def sample_identity_def a validators_ok)
  then have "RecoveryIdentity_init (sample_identity w) = Inr (sample_identity w)"
    by (simp add: RecoveryIdentity_init_def sample_identity_def validate_positive_u64_def
        MAX_U64_eval lit_def)
  then show ?thesis ..
qed

theorem classify_resume_decision_witness:
  "\<exists>w. RecoveryIdentity_init (sample_identity w) = Inr (sample_identity w)
     \<and> classify_resume (sample_identity w) (sample_identity w)
         \<lparr>rh_resume_cursor = Some 5, rh_previous_runtime_epoch = Some 7\<rparr> = Inr RD_REPLAY
     \<and> classify_resume (sample_identity w) ((sample_identity w)\<lparr>ri_runtime_epoch := 8\<rparr>)
         \<lparr>rh_resume_cursor = Some 5, rh_previous_runtime_epoch = Some 7\<rparr> \<noteq> Inr RD_REPLAY
     \<and> classify_resume (sample_identity w) (sample_identity w)
         \<lparr>rh_resume_cursor = Some (2 ^ 64 - 1), rh_previous_runtime_epoch = Some 7\<rparr> = Inr RD_REPLAY
     \<and> \<not> is_ok (replay ring64 (2 ^ 64 - 1)) \<and> is_ok (replay ring64 5)"
proof -
  obtain w where w: "RecoveryIdentity_init (sample_identity w) = Inr (sample_identity w)"
    using sample_identity_ok by blast
  let ?i = "sample_identity w"
  let ?hint = "\<lambda>c. \<lparr>rh_resume_cursor = Some c, rh_previous_runtime_epoch = Some 7\<rparr>"
  note d = classify_resume_decision [OF w]
  have "classify_resume ?i ?i (?hint c) = Inr RD_REPLAY" if "0 < c" "c \<le> MAX_U64" for c
    using d [of ?i "?hint c"] that by (simp add: reattached_def sample_identity_def)
  then have replays: "classify_resume ?i ?i (?hint 5) = Inr RD_REPLAY"
      "classify_resume ?i ?i (?hint (2 ^ 64 - 1)) = Inr RD_REPLAY"
    by (simp_all add: MAX_U64_eval)
  have ring: "is_ok (replay ring64 c) \<longleftrightarrow> c \<noteq> 2 ^ 64 - 1"
    if "classify_resume ?i ?i (?hint c) = Inr RD_REPLAY" for c
    using d [of ?i "?hint c"] that by auto
  have "classify_resume ?i (?i\<lparr>ri_runtime_epoch := 8\<rparr>) (?hint 5) \<noteq> Inr RD_REPLAY"
    using d [of "?i\<lparr>ri_runtime_epoch := 8\<rparr>" "?hint 5"] by (simp add: reattached_def sample_identity_def)
  then show ?thesis
    using w replays ring [OF replays(1)] ring [OF replays(2)] by (intro exI [of _ w]) auto
qed

end
