(* ===== verification/Lease_Fence.thy ===== *)
theory Lease_Fence
  imports Recovery
begin

text \<open>
  The attachment lease-cleanup fence (\<open>agentbox_core/waw_lease.py\<close>): one attachment's way from
  admission over staleness and detach to the proof that its PTY is closed. Only that proof frees
  the writer slot.

  Every operation returns its result together with the fence afterwards, because the code keeps
  what it has observed even when it then raises: a heartbeat on a stale lease moves the clock and
  records the staleness before it refuses. A clock reading is a \<open>clock_value\<close>: a finite number or
  something the code rejects; finite times are real numbers. Where the code reads its clock only
  when no time is given, the operation takes the reading as the argument \<open>clk\<close>.
\<close>

datatype clock_value = Finite real | NotFinite

datatype LeaseCleanupState = LC_PENDING | LC_ADMITTING | LC_ACTIVE | LC_STALE | LC_EXPIRED
  | LC_DETACHING | LC_RECONCILIATION_REQUIRED | LC_DETACHED | LC_CLOSED

datatype lease_error = LeaseCleanupError string string | LeaseValueError string

record LeaseOwner =
  lo_identity :: RecoveryIdentity

record LeaseCleanupSnapshot =
  ls_attachment_id :: pystr
  ls_generation :: int
  ls_lease_number :: int
  ls_state :: LeaseCleanupState
  ls_last_heartbeat :: real
  ls_stale_at :: real
  ls_grace_until :: real
  ls_detach_deadline :: "real option"
  ls_cleanup_state :: "pystr option"

definition writer_slot_reserved :: "LeaseCleanupSnapshot \<Rightarrow> bool" where
  "writer_slot_reserved s \<longleftrightarrow> ls_state s \<noteq> LC_DETACHED"

record LeaseCleanupFence =
  lf_stale_after :: real
  lf_grace :: real
  lf_detach_timeout :: real
  lf_snapshot :: "LeaseCleanupSnapshot option"
  lf_owner :: "LeaseOwner option"
  lf_last_observed :: "real option"

fun bad_duration :: "clock_value \<Rightarrow> bool" where
  "bad_duration NotFinite \<longleftrightarrow> True"
| "bad_duration (Finite d) \<longleftrightarrow> d \<le> 0"

fun finite_value :: "clock_value \<Rightarrow> real" where
  "finite_value (Finite d) = d"
| "finite_value NotFinite = 0"

definition LeaseCleanupFence_init ::
  "clock_value \<Rightarrow> clock_value \<Rightarrow> clock_value \<Rightarrow> lease_error + LeaseCleanupFence" where
  "LeaseCleanupFence_init stale_after grace detach_timeout =
     (if bad_duration stale_after \<or> bad_duration grace \<or> bad_duration detach_timeout
         \<or> finite_value grace < finite_value stale_after
      then Inl (LeaseValueError ''lease cleanup durations must be positive'')
      else Inr \<lparr>lf_stale_after = finite_value stale_after, lf_grace = finite_value grace,
                lf_detach_timeout = finite_value detach_timeout, lf_snapshot = None, lf_owner = None,
                lf_last_observed = None\<rparr>)"

section \<open>Operations\<close>

type_synonym 'a fence_result = "(lease_error + 'a) \<times> LeaseCleanupFence"

definition observe_now ::
  "LeaseCleanupFence \<Rightarrow> clock_value \<Rightarrow> clock_value option \<Rightarrow> real fence_result" where
  "observe_now f clk requested =
     (case (case requested of None \<Rightarrow> clk | Some t \<Rightarrow> t) of
        NotFinite \<Rightarrow> (Inl (LeaseCleanupError ''CLOCK_INVALID'' ''lease cleanup clock must be finite''), f)
      | Finite current \<Rightarrow>
          if (case lf_last_observed f of None \<Rightarrow> False | Some l \<Rightarrow> current < l)
          then (Inl (LeaseCleanupError ''CLOCK_ROLLBACK'' ''lease cleanup clock moved backwards''), f)
          else (Inr current, f\<lparr>lf_last_observed := Some current\<rparr>))"

text \<open>The three tests of \<open>_advance\<close>, in their order, on a snapshot at time \<open>current\<close>.\<close>

definition advance_snapshot :: "real \<Rightarrow> LeaseCleanupSnapshot \<Rightarrow> LeaseCleanupSnapshot" where
  "advance_snapshot current s0 =
     (let s1 = (if ls_state s0 = LC_ACTIVE \<and> current \<ge> ls_stale_at s0
                then s0\<lparr>ls_state := LC_STALE\<rparr> else s0);
          s2 = (if ls_state s1 = LC_STALE \<and> current \<ge> ls_grace_until s1
                then s1\<lparr>ls_state := LC_EXPIRED\<rparr> else s1)
      in if ls_state s2 = LC_DETACHING
            \<and> (case ls_detach_deadline s2 of None \<Rightarrow> False | Some d \<Rightarrow> current \<ge> d)
         then s2\<lparr>ls_state := LC_RECONCILIATION_REQUIRED\<rparr> else s2)"

definition advance ::
  "LeaseCleanupFence \<Rightarrow> clock_value \<Rightarrow> clock_value option \<Rightarrow> LeaseCleanupSnapshot fence_result" where
  "advance f clk now =
     (case lf_snapshot f of
        None \<Rightarrow> (Inl (LeaseCleanupError ''ATTACHMENT_NOT_FOUND'' ''attachment cleanup record is absent''), f)
      | Some s \<Rightarrow>
          (case observe_now f clk now of
             (Inl e, f') \<Rightarrow> (Inl e, f')
           | (Inr current, f') \<Rightarrow>
               let s' = advance_snapshot current s in (Inr s', f'\<lparr>lf_snapshot := Some s'\<rparr>)))"

definition lease_begin ::
  "LeaseCleanupFence \<Rightarrow> clock_value \<Rightarrow> pystr \<Rightarrow> int \<Rightarrow> int \<Rightarrow> LeaseOwner
     \<Rightarrow> LeaseCleanupSnapshot fence_result" where
  "lease_begin f clk attachment_id generation lease_number owner =
     (if ri_attachment_id (lo_identity owner) \<noteq> attachment_id
         \<or> ri_generation (lo_identity owner) \<noteq> generation
         \<or> ri_lease_number (lo_identity owner) \<noteq> lease_number
      then (Inl (LeaseCleanupError ''LEASE_OWNER_MISMATCH'' ''lease owner does not match attachment''), f)
      else if (case lf_snapshot f of None \<Rightarrow> False | Some s \<Rightarrow> writer_slot_reserved s)
      then (Inl (LeaseCleanupError ''ATTACHMENT_BUSY'' ''attachment cleanup is already reserved''), f)
      else case observe_now f clk None of
        (Inl e, f') \<Rightarrow> (Inl e, f')
      | (Inr now, f') \<Rightarrow>
          let s = \<lparr>ls_attachment_id = attachment_id, ls_generation = generation,
                   ls_lease_number = lease_number, ls_state = LC_ADMITTING, ls_last_heartbeat = now,
                   ls_stale_at = now + lf_stale_after f, ls_grace_until = now + lf_grace f,
                   ls_detach_deadline = None, ls_cleanup_state = None\<rparr>
          in (Inr s, f'\<lparr>lf_snapshot := Some s, lf_owner := Some owner\<rparr>))"

definition commit_admission :: "LeaseCleanupFence \<Rightarrow> LeaseCleanupSnapshot fence_result" where
  "commit_admission f =
     (case lf_snapshot f of
        None \<Rightarrow> (Inl (LeaseCleanupError ''ATTACHMENT_NOT_FOUND'' ''attachment cleanup record is absent''), f)
      | Some s \<Rightarrow>
          if ls_state s \<noteq> LC_ADMITTING
          then (Inl (LeaseCleanupError ''ATTACHMENT_STATE_INVALID'' ''attachment is not admitting''), f)
          else let s' = s\<lparr>ls_state := LC_ACTIVE\<rparr> in (Inr s', f\<lparr>lf_snapshot := Some s'\<rparr>))"

definition heartbeat ::
  "LeaseCleanupFence \<Rightarrow> clock_value \<Rightarrow> clock_value option \<Rightarrow> LeaseCleanupSnapshot fence_result" where
  "heartbeat f clk now =
     (case advance f clk now of
        (Inl e, f') \<Rightarrow> (Inl e, f')
      | (Inr s, f') \<Rightarrow>
          if ls_state s \<noteq> LC_ACTIVE
          then (Inl (LeaseCleanupError ''ATTACHMENT_STALE'' ''stale attachment cannot renew''), f')
          else let current = the (lf_last_observed f');
                   s' = s\<lparr>ls_last_heartbeat := current, ls_stale_at := current + lf_stale_after f,
                          ls_grace_until := current + lf_grace f\<rparr>
               in (Inr s', f'\<lparr>lf_snapshot := Some s'\<rparr>))"

definition request_detach ::
  "LeaseCleanupFence \<Rightarrow> clock_value \<Rightarrow> clock_value option \<Rightarrow> LeaseCleanupSnapshot fence_result" where
  "request_detach f clk now =
     (case advance f clk now of
        (Inl e, f') \<Rightarrow> (Inl e, f')
      | (Inr s, f') \<Rightarrow>
          if ls_state s \<in> {LC_DETACHING, LC_DETACHED, LC_CLOSED, LC_RECONCILIATION_REQUIRED}
          then (Inr s, f')
          else if ls_state s \<notin> {LC_ACTIVE, LC_STALE, LC_EXPIRED}
          then (Inl (LeaseCleanupError ''ATTACHMENT_STATE_INVALID'' ''attachment cannot detach''), f')
          else let current = the (lf_last_observed f');
                   s' = s\<lparr>ls_state := LC_DETACHING,
                          ls_detach_deadline := Some (current + lf_detach_timeout f)\<rparr>
               in (Inr s', f'\<lparr>lf_snapshot := Some s'\<rparr>))"

definition acknowledge_cleanup ::
  "LeaseCleanupFence \<Rightarrow> clock_value \<Rightarrow> pystr \<Rightarrow> clock_value option \<Rightarrow> LeaseOwner
     \<Rightarrow> LeaseCleanupSnapshot fence_result" where
  "acknowledge_cleanup f clk cleanup_state now owner =
     (case advance f clk now of
        (Inl e, f') \<Rightarrow> (Inl e, f')
      | (Inr s, f') \<Rightarrow>
          if ls_state s \<notin> {LC_DETACHING, LC_RECONCILIATION_REQUIRED}
          then (Inl (LeaseCleanupError ''DETACH_ACK_UNEXPECTED'' ''cleanup acknowledgement is unexpected''), f')
          else if (case lf_owner f' of None \<Rightarrow> False | Some own \<Rightarrow> owner \<noteq> own)
          then (Inl (LeaseCleanupError ''DETACH_ACK_STALE''
                       ''cleanup proof does not match the exact attachment owner''), f')
          else if cleanup_state \<noteq> lit ''ATTACH_PTY_CLOSED''
          then (Inl (LeaseCleanupError ''DETACH_ACK_INVALID''
                       ''positive PTY cleanup proof is required''), f')
          else let s' = s\<lparr>ls_state := LC_DETACHED, ls_cleanup_state := Some cleanup_state,
                          ls_detach_deadline := None\<rparr>
               in (Inr s', f'\<lparr>lf_snapshot := Some s'\<rparr>))"

definition tick ::
  "LeaseCleanupFence \<Rightarrow> clock_value \<Rightarrow> clock_value option \<Rightarrow> LeaseCleanupSnapshot fence_result" where
  "tick f clk now = advance f clk now"

section \<open>Runs\<close>

datatype fence_call = CallBegin pystr int int LeaseOwner | CallCommit
  | CallHeartbeat "clock_value option" | CallDetach "clock_value option"
  | CallAck pystr "clock_value option" LeaseOwner | CallTick "clock_value option"

fun fence_apply :: "LeaseCleanupFence \<Rightarrow> clock_value \<Rightarrow> fence_call \<Rightarrow> LeaseCleanupSnapshot fence_result" where
  "fence_apply f clk (CallBegin a g l own) = lease_begin f clk a g l own"
| "fence_apply f clk CallCommit = commit_admission f"
| "fence_apply f clk (CallHeartbeat now) = heartbeat f clk now"
| "fence_apply f clk (CallDetach now) = request_detach f clk now"
| "fence_apply f clk (CallAck c now own) = acknowledge_cleanup f clk c now own"
| "fence_apply f clk (CallTick now) = tick f clk now"

inductive fence_reachable :: "LeaseCleanupFence \<Rightarrow> bool" where
  new: "LeaseCleanupFence_init a b c = Inr f \<Longrightarrow> fence_reachable f"
| call: "fence_reachable f \<Longrightarrow> fence_apply f clk op = (r, f') \<Longrightarrow> fence_reachable f'"

section \<open>Invariant\<close>

text \<open>What a snapshot says at the last observed time \<open>l\<close>, for the owner that began it.\<close>

definition snapshot_ok :: "LeaseCleanupFence \<Rightarrow> LeaseOwner \<Rightarrow> real \<Rightarrow> LeaseCleanupSnapshot \<Rightarrow> bool" where
  "snapshot_ok f own l s \<longleftrightarrow>
     ls_attachment_id s = ri_attachment_id (lo_identity own)
     \<and> ls_generation s = ri_generation (lo_identity own)
     \<and> ls_lease_number s = ri_lease_number (lo_identity own)
     \<and> ls_last_heartbeat s \<le> l
     \<and> ls_stale_at s = ls_last_heartbeat s + lf_stale_after f
     \<and> ls_grace_until s = ls_last_heartbeat s + lf_grace f
     \<and> ls_state s \<notin> {LC_PENDING, LC_CLOSED}
     \<and> (ls_state s = LC_STALE \<longrightarrow> ls_stale_at s \<le> l)
     \<and> (ls_state s = LC_EXPIRED \<longrightarrow> ls_grace_until s \<le> l)
     \<and> (ls_state s \<in> {LC_DETACHING, LC_RECONCILIATION_REQUIRED} \<longleftrightarrow> ls_detach_deadline s \<noteq> None)
     \<and> (ls_state s = LC_RECONCILIATION_REQUIRED \<longrightarrow> the (ls_detach_deadline s) \<le> l)
     \<and> ls_cleanup_state s = (if ls_state s = LC_DETACHED then Some (lit ''ATTACH_PTY_CLOSED'') else None)"

definition fence_inv :: "LeaseCleanupFence \<Rightarrow> bool" where
  "fence_inv f \<longleftrightarrow>
     0 < lf_stale_after f \<and> lf_stale_after f \<le> lf_grace f \<and> 0 < lf_detach_timeout f
     \<and> (\<forall>s. lf_snapshot f = Some s \<longrightarrow>
          (\<exists>own l. lf_owner f = Some own \<and> lf_last_observed f = Some l \<and> snapshot_ok f own l s))"

lemma snapshot_ok_cong:
  "lf_stale_after f = lf_stale_after g \<Longrightarrow> lf_grace f = lf_grace g \<Longrightarrow>
   snapshot_ok f own l s = snapshot_ok g own l s"
  by (simp add: snapshot_ok_def)

lemma snapshot_ok_update [simp]:
  "snapshot_ok (f\<lparr>lf_snapshot := x\<rparr>) own l s = snapshot_ok f own l s"
  "snapshot_ok (f\<lparr>lf_owner := y\<rparr>) own l s = snapshot_ok f own l s"
  "snapshot_ok (f\<lparr>lf_last_observed := z\<rparr>) own l s = snapshot_ok f own l s"
  by (simp_all add: snapshot_ok_def)

lemma snapshot_ok_advance:
  "snapshot_ok f own l s \<Longrightarrow> l \<le> c \<Longrightarrow> snapshot_ok f own c (advance_snapshot c s)"
  by (cases "ls_state s") (auto simp: snapshot_ok_def advance_snapshot_def Let_def split: option.splits)

lemma observe_now_cases:
  obtains (bad) e where "observe_now f clk req = (Inl e, f)"
  | (ok) c where "observe_now f clk req = (Inr c, f\<lparr>lf_last_observed := Some c\<rparr>)"
      "\<forall>l. lf_last_observed f = Some l \<longrightarrow> l \<le> c"
proof (cases "case req of None \<Rightarrow> clk | Some t \<Rightarrow> t")
  case (Finite x)
  show thesis
  proof (cases "\<exists>l. lf_last_observed f = Some l \<and> x < l")
    case True
    then show thesis using Finite bad by (auto simp: observe_now_def)
  next
    case False
    then show thesis using Finite ok [of x] by (cases "lf_last_observed f") (auto simp: observe_now_def)
  qed
next
  case NotFinite
  then show thesis using bad by (simp add: observe_now_def)
qed

lemma advance_cases:
  assumes "fence_inv f"
  obtains (bad) e where "advance f clk now = (Inl e, f)"
  | (ok) c own l s s' where "lf_snapshot f = Some s" "lf_owner f = Some own"
      "lf_last_observed f = Some l" "l \<le> c" "snapshot_ok f own l s" "s' = advance_snapshot c s"
      "snapshot_ok f own c s'"
      "advance f clk now = (Inr s', f\<lparr>lf_last_observed := Some c, lf_snapshot := Some s'\<rparr>)"
proof (cases "lf_snapshot f")
  case None
  then show thesis using bad by (simp add: advance_def)
next
  case (Some s)
  then obtain own l where s: "lf_owner f = Some own" "lf_last_observed f = Some l" "snapshot_ok f own l s"
    using assms by (auto simp: fence_inv_def)
  show thesis
  proof (cases rule: observe_now_cases [of f clk now])
    case (bad e)
    then show thesis using Some that(1) by (simp add: advance_def)
  next
    case (ok c)
    moreover from ok(2) s(2) have "l \<le> c" by simp
    ultimately show thesis
      using Some s snapshot_ok_advance [OF s(3)] that(2) [of s own l c "advance_snapshot c s"]
      by (simp add: advance_def Let_def)
  qed
qed

lemma fence_inv_set:
  "fence_inv f \<Longrightarrow> lf_owner f = Some own \<Longrightarrow> snapshot_ok f own c s \<Longrightarrow>
   fence_inv (f\<lparr>lf_last_observed := Some c, lf_snapshot := Some s\<rparr>)"
  by (simp add: fence_inv_def)

text \<open>\<open>lease_begin\<close> either changes nothing or installs a fresh snapshot for its owner.\<close>

lemma lease_begin_cases:
  obtains (same) e where "lease_begin f clk a g n own = (Inl e, f)"
  | (fresh) c s where
      "lease_begin f clk a g n own =
         (Inr s, f\<lparr>lf_last_observed := Some c, lf_snapshot := Some s, lf_owner := Some own\<rparr>)"
      "\<forall>l. lf_last_observed f = Some l \<longrightarrow> l \<le> c" "snapshot_ok f own c s" "ls_state s = LC_ADMITTING"
      "\<forall>s0. lf_snapshot f = Some s0 \<longrightarrow> \<not> writer_slot_reserved s0"
proof (cases "fst (lease_begin f clk a g n own)")
  case (Inl e)
  then show thesis
    using same by (cases rule: observe_now_cases [of f clk None])
      (auto simp: lease_begin_def Let_def split: if_splits prod.splits)
next
  case (Inr s)
  have ids: "ri_attachment_id (lo_identity own) = a" "ri_generation (lo_identity own) = g"
    "ri_lease_number (lo_identity own) = n"
    and free: "\<not> (case lf_snapshot f of None \<Rightarrow> False | Some s \<Rightarrow> writer_slot_reserved s)"
    using Inr by (auto simp: lease_begin_def split: if_splits)
  show thesis
  proof (cases rule: observe_now_cases [of f clk None])
    case (bad e)
    then show thesis using Inr ids free by (simp add: lease_begin_def)
  next
    case (ok c)
    have "\<forall>s0. lf_snapshot f = Some s0 \<longrightarrow> \<not> writer_slot_reserved s0"
      using free by (auto split: option.splits)
    moreover define s where "s = \<lparr>ls_attachment_id = a, ls_generation = g, ls_lease_number = n,
        ls_state = LC_ADMITTING, ls_last_heartbeat = c, ls_stale_at = c + lf_stale_after f,
        ls_grace_until = c + lf_grace f, ls_detach_deadline = None, ls_cleanup_state = None\<rparr>"
    moreover have "snapshot_ok f own c s" "ls_state s = LC_ADMITTING"
      using ids by (simp_all add: snapshot_ok_def s_def)
    ultimately show thesis
      using ok ids free fresh [of s c] by (simp add: lease_begin_def Let_def)
  qed
qed

lemma fence_inv_begin: "fence_inv f \<Longrightarrow> lease_begin f clk a g n own = (r, f') \<Longrightarrow> fence_inv f'"
  by (cases rule: lease_begin_cases [of f clk a g n own]) (simp_all add: fence_inv_def, auto)

lemma snapshot_ok_commit:
  "snapshot_ok f own l s \<Longrightarrow> ls_state s = LC_ADMITTING \<Longrightarrow> snapshot_ok f own l (s\<lparr>ls_state := LC_ACTIVE\<rparr>)"
  by (simp add: snapshot_ok_def)

lemma snapshot_ok_heartbeat:
  "snapshot_ok f own l s \<Longrightarrow> ls_state s = LC_ACTIVE \<Longrightarrow>
   snapshot_ok f own l (s\<lparr>ls_last_heartbeat := l, ls_stale_at := l + lf_stale_after f,
     ls_grace_until := l + lf_grace f\<rparr>)"
  by (simp add: snapshot_ok_def)

lemma snapshot_ok_detach:
  "snapshot_ok f own l s \<Longrightarrow> ls_state s \<in> {LC_ACTIVE, LC_STALE, LC_EXPIRED} \<Longrightarrow>
   snapshot_ok f own l (s\<lparr>ls_state := LC_DETACHING, ls_detach_deadline := Some d\<rparr>)"
  by (auto simp: snapshot_ok_def)

lemma snapshot_ok_ack:
  "snapshot_ok f own l s \<Longrightarrow>
   snapshot_ok f own l (s\<lparr>ls_state := LC_DETACHED, ls_cleanup_state := Some (lit ''ATTACH_PTY_CLOSED''),
     ls_detach_deadline := None\<rparr>)"
  by (simp add: snapshot_ok_def)

lemma fence_inv_commit:
  assumes "fence_inv f" "commit_admission f = (r, f')"
  shows "fence_inv f'"
proof (cases "f' = f")
  case False
  then obtain s where s: "lf_snapshot f = Some s" "ls_state s = LC_ADMITTING"
      "f' = f\<lparr>lf_snapshot := Some (s\<lparr>ls_state := LC_ACTIVE\<rparr>)\<rparr>"
    using assms(2) by (auto simp: commit_admission_def Let_def split: option.splits if_splits)
  with assms(1) obtain own l where "lf_owner f = Some own" "lf_last_observed f = Some l" "snapshot_ok f own l s"
    by (auto simp: fence_inv_def)
  with snapshot_ok_commit s assms(1) show ?thesis by (simp add: fence_inv_def)
qed (use assms in simp)

lemma fence_inv_heartbeat:
  assumes "fence_inv f" "heartbeat f clk now = (r, f')"
  shows "fence_inv f'"
  using assms(1)
proof (cases rule: advance_cases [where clk = clk and now = now])
  case (bad e)
  then show ?thesis using assms by (simp add: heartbeat_def)
next
  case (ok c own l s s')
  then show ?thesis
    using assms(2) fence_inv_set [OF assms(1) ok(2)] snapshot_ok_heartbeat [OF ok(7)]
    by (cases "ls_state s' = LC_ACTIVE") (auto simp: heartbeat_def Let_def)
qed

lemma fence_inv_detach:
  assumes "fence_inv f" "request_detach f clk now = (r, f')"
  shows "fence_inv f'"
  using assms(1)
proof (cases rule: advance_cases [where clk = clk and now = now])
  case (bad e)
  then show ?thesis using assms by (simp add: request_detach_def)
next
  case (ok c own l s s')
  then show ?thesis
    using assms(2) fence_inv_set [OF assms(1) ok(2)] snapshot_ok_detach [OF ok(7)]
    by (cases "ls_state s' \<in> {LC_ACTIVE, LC_STALE, LC_EXPIRED}")
      (auto simp: request_detach_def Let_def split: if_splits)
qed

lemma fence_inv_ack:
  assumes "fence_inv f" "acknowledge_cleanup f clk c0 now own0 = (r, f')"
  shows "fence_inv f'"
  using assms(1)
proof (cases rule: advance_cases [where clk = clk and now = now])
  case (bad e)
  then show ?thesis using assms by (simp add: acknowledge_cleanup_def)
next
  case (ok c own l s s')
  then show ?thesis
    using assms(2) fence_inv_set [OF assms(1) ok(2)] snapshot_ok_ack [OF ok(7)]
    by (auto simp: acknowledge_cleanup_def Let_def split: if_splits)
qed

lemma fence_inv_tick:
  assumes "fence_inv f" "tick f clk now = (r, f')"
  shows "fence_inv f'"
  using assms(1)
proof (cases rule: advance_cases [where clk = clk and now = now])
  case (bad e)
  then show ?thesis using assms by (simp add: tick_def)
next
  case (ok c own l s s')
  then show ?thesis using assms(2) fence_inv_set [OF assms(1) ok(2) ok(7)] by (simp add: tick_def)
qed

lemmas fence_inv_ops = fence_inv_begin fence_inv_commit fence_inv_heartbeat fence_inv_detach
  fence_inv_ack fence_inv_tick

lemma fence_inv_new: "LeaseCleanupFence_init a b c = Inr f \<Longrightarrow> fence_inv f"
  by (cases a; cases b; cases c) (auto simp: LeaseCleanupFence_init_def fence_inv_def split: if_splits)

lemma fence_inv_apply: "fence_inv f \<Longrightarrow> fence_apply f clk op = (r, f') \<Longrightarrow> fence_inv f'"
  by (cases op) (auto dest: fence_inv_ops)

lemma fence_reachable_inv: "fence_reachable f \<Longrightarrow> fence_inv f"
  by (induction rule: fence_reachable.induct) (auto intro: fence_inv_new fence_inv_apply)

section \<open>Properties\<close>

lemma advance_not_detached:
  "ls_state s \<noteq> LC_DETACHED \<Longrightarrow> ls_state (advance_snapshot c s) \<noteq> LC_DETACHED"
  by (auto simp: advance_snapshot_def Let_def)

text \<open>One call other than an acknowledgement never frees a reserved slot.\<close>

lemma slot_kept:
  assumes "fence_inv f" "fence_apply f clk op = (r, f')" "lf_snapshot f = Some s"
    and "writer_slot_reserved s" "\<forall>c now own. op \<noteq> CallAck c now own"
  shows "\<exists>s'. lf_snapshot f' = Some s' \<and> writer_slot_reserved s'"
proof -
  have adv: "ls_state (advance_snapshot c s) \<noteq> LC_DETACHED" for c
    using assms(4) advance_not_detached by (simp add: writer_slot_reserved_def)
  show ?thesis
  proof (cases op)
    case (CallBegin a g n own)
    then show ?thesis using assms by (simp add: lease_begin_def split: if_splits)
  next
    case CallCommit
    then show ?thesis using assms
      by (auto simp: commit_admission_def Let_def writer_slot_reserved_def split: if_splits)
  next
    case (CallHeartbeat now)
    with assms(1-4) adv show ?thesis
      by (cases rule: advance_cases [where clk = clk and now = now])
        (auto simp: heartbeat_def Let_def writer_slot_reserved_def split: if_splits)
  next
    case (CallDetach now)
    with assms(1-4) adv show ?thesis
      by (cases rule: advance_cases [where clk = clk and now = now])
        (auto simp: request_detach_def Let_def writer_slot_reserved_def split: if_splits)
  next
    case (CallTick now)
    with assms(1-4) adv show ?thesis
      by (cases rule: advance_cases [where clk = clk and now = now])
        (auto simp: tick_def writer_slot_reserved_def)
  qed (use assms(5) in blast)
qed

fun fence_run :: "LeaseCleanupFence \<Rightarrow> (clock_value \<times> fence_call) list \<Rightarrow> LeaseCleanupFence" where
  "fence_run f [] = f"
| "fence_run f ((clk, op) # rest) = fence_run (snd (fence_apply f clk op)) rest"

lemma fence_run_reachable: "fence_reachable f \<Longrightarrow> fence_reachable (fence_run f ops)"
  by (induction f ops rule: fence_run.induct)
    (simp, metis fence_reachable.call fence_run.simps(2) prod.collapse)

definition sample_fence :: LeaseCleanupFence where
  "sample_fence = \<lparr>lf_stale_after = 30, lf_grace = 60, lf_detach_timeout = 1, lf_snapshot = None,
     lf_owner = None, lf_last_observed = None\<rparr>"

definition sample_owner :: LeaseOwner where
  "sample_owner = \<lparr>lo_identity = sample_identity []\<rparr>"

definition sample_begin :: fence_call where
  "sample_begin = CallBegin (ri_attachment_id (sample_identity [])) 3 1 sample_owner"

lemma sample_fence_reachable: "fence_reachable sample_fence"
  by (rule fence_reachable.new [of "Finite 30" "Finite 60" "Finite 1"])
    (simp add: LeaseCleanupFence_init_def sample_fence_def)

definition sample_active :: LeaseCleanupFence where
  "sample_active = fence_run sample_fence [(Finite 0, sample_begin), (Finite 0, CallCommit)]"

definition sample_detaching :: LeaseCleanupFence where
  "sample_detaching = fence_run sample_active [(Finite 1, CallDetach None)]"

lemma sample_active_eq:
  "sample_active = \<lparr>lf_stale_after = 30, lf_grace = 60, lf_detach_timeout = 1,
     lf_snapshot = Some \<lparr>ls_attachment_id = ri_attachment_id (sample_identity []), ls_generation = 3,
       ls_lease_number = 1, ls_state = LC_ACTIVE, ls_last_heartbeat = 0, ls_stale_at = 30,
       ls_grace_until = 60, ls_detach_deadline = None, ls_cleanup_state = None\<rparr>,
     lf_owner = Some sample_owner, lf_last_observed = Some 0\<rparr>"
  by (simp add: sample_active_def sample_fence_def sample_begin_def lease_begin_def sample_owner_def
      observe_now_def commit_admission_def Let_def) (simp add: sample_identity_def)

lemma sample_detaching_eq:
  "sample_detaching = sample_active\<lparr>lf_last_observed := Some 1,
     lf_snapshot := Some ((the (lf_snapshot sample_active))\<lparr>ls_state := LC_DETACHING,
       ls_detach_deadline := Some 2\<rparr>)\<rparr>"
  by (simp add: sample_detaching_def sample_active_eq request_detach_def advance_def observe_now_def
      advance_snapshot_def Let_def)

text \<open>
  C6. The writer slot is freed only by proof: in any fence reachable through its operations, the
  one call that turns a reserved slot into a free one is \<open>acknowledge_cleanup\<close> with the state
  ATTACH_PTY_CLOSED, presented by the exact owner that began the attachment, whose attachment,
  generation and lease are those of the record, and while the lease was being detached or
  reconciled. Errors, timeouts, heartbeats and clock faults keep it reserved.
\<close>

theorem slot_freed_only_by_proof:
  assumes "fence_reachable f" "fence_apply f clk op = (r, f')"
    and "lf_snapshot f = Some s" "writer_slot_reserved s"
    and "lf_snapshot f' = Some s'" "\<not> writer_slot_reserved s'"
  shows "\<exists>now own. op = CallAck (lit ''ATTACH_PTY_CLOSED'') now own \<and> lf_owner f = Some own
    \<and> ls_attachment_id s = ri_attachment_id (lo_identity own)
    \<and> ls_generation s = ri_generation (lo_identity own)
    \<and> ls_lease_number s = ri_lease_number (lo_identity own)
    \<and> ls_state s \<in> {LC_DETACHING, LC_RECONCILIATION_REQUIRED}"
proof -
  have inv: "fence_inv f" using assms(1) by (rule fence_reachable_inv)
  obtain c now own where op: "op = CallAck c now own"
    using slot_kept [OF inv assms(2-4)] assms(5,6) by auto
  have st: "ls_state (advance_snapshot t s) \<in> {LC_DETACHING, LC_RECONCILIATION_REQUIRED} \<Longrightarrow>
      ls_state s \<in> {LC_DETACHING, LC_RECONCILIATION_REQUIRED}" for t
    by (auto simp: advance_snapshot_def Let_def split: if_splits)
  from inv show ?thesis
  proof (cases rule: advance_cases [where clk = clk and now = now])
    case (bad e)
    then show ?thesis using assms op by (simp add: acknowledge_cleanup_def)
  next
    case (ok t own0 l s0 s1)
    have "s0 = s" using ok(1) assms(3) by simp
    have no: "ls_state s1 \<noteq> LC_DETACHED"
      using assms(4) ok(6) \<open>s0 = s\<close> advance_not_detached by (simp add: writer_slot_reserved_def)
    have acc: "ls_state s1 \<in> {LC_DETACHING, LC_RECONCILIATION_REQUIRED} \<and> own = own0
        \<and> c = lit ''ATTACH_PTY_CLOSED''"
      using assms(2,5,6) op ok(2,8) no
      by (auto simp: acknowledge_cleanup_def writer_slot_reserved_def split: if_splits)
    show ?thesis using acc op ok(2,5,6) st \<open>s0 = s\<close> by (auto simp: snapshot_ok_def)
  qed
qed

theorem slot_freed_only_by_proof_witness:
  "\<exists>f'. fence_reachable sample_detaching
     \<and> snd (fence_apply sample_detaching (Finite 1) (CallAck (lit ''ATTACH_PTY_CLOSED'') None sample_owner)) = f'
     \<and> \<not> writer_slot_reserved (the (lf_snapshot f')) \<and> lf_owner sample_detaching = Some sample_owner"
proof -
  let ?op = "CallAck (lit ''ATTACH_PTY_CLOSED'') None sample_owner"
  have reach: "fence_reachable sample_detaching"
    unfolding sample_detaching_def sample_active_def
    by (intro fence_run_reachable sample_fence_reachable)
  obtain r f' where app: "fence_apply sample_detaching (Finite 1) ?op = (r, f')" by (meson prod.exhaust)
  obtain s where s: "lf_snapshot sample_detaching = Some s" "writer_slot_reserved s"
    by (simp add: sample_detaching_eq sample_active_eq writer_slot_reserved_def)
  obtain s' where s': "lf_snapshot f' = Some s'" "\<not> writer_slot_reserved s'"
    using app by (auto simp: sample_detaching_eq sample_active_eq acknowledge_cleanup_def advance_def
        observe_now_def advance_snapshot_def Let_def writer_slot_reserved_def)
  have "lf_owner sample_detaching = Some sample_owner"
    using slot_freed_only_by_proof [OF reach app s s'] by auto
  then show ?thesis using reach app s' by simp
qed

text \<open>
  C33. Timing of a lease: in every reachable fence the stale and grace times are the configured
  distances after the last heartbeat, STALE and EXPIRED are only recorded once those times have
  been observed, a detach deadline exists exactly while detaching or awaiting reconciliation, a
  passed deadline is what reconciliation means, PENDING and CLOSED never occur, and the recorded
  cleanup proof is present exactly when the slot is free.
\<close>

theorem lease_timing_invariant:
  assumes "fence_reachable f" "lf_snapshot f = Some s"
  shows "\<exists>own l. lf_owner f = Some own \<and> lf_last_observed f = Some l \<and> snapshot_ok f own l s
    \<and> 0 < lf_stale_after f \<and> lf_stale_after f \<le> lf_grace f \<and> ls_stale_at s \<le> ls_grace_until s"
  using fence_reachable_inv [OF assms(1)] assms(2) unfolding fence_inv_def snapshot_ok_def by force

theorem lease_timing_invariant_witness:
  "\<exists>s. lf_snapshot sample_active = Some s \<and> ls_stale_at s \<le> ls_grace_until s"
proof -
  have "fence_reachable sample_active"
    unfolding sample_active_def by (intro fence_run_reachable sample_fence_reachable)
  moreover obtain s where "lf_snapshot sample_active = Some s" by (simp add: sample_active_eq)
  ultimately show ?thesis using lease_timing_invariant by blast
qed

text \<open>
  C34. Progress of time: on a reachable fence with a lease, a tick with a finite time not before
  the last observed one always succeeds, and afterwards a live lease whose stale time has come is
  no longer ACTIVE, one whose grace has ended is EXPIRED, and a detach whose deadline has passed
  is RECONCILIATION_REQUIRED with the writer slot still reserved.
\<close>

theorem tick_progress:
  assumes "fence_reachable f" "lf_snapshot f = Some s" "lf_last_observed f = Some l" "l \<le> t"
  shows "\<exists>s' f'. tick f clk (Some (Finite t)) = (Inr s', f') \<and> lf_snapshot f' = Some s'
    \<and> lf_last_observed f' = Some t
    \<and> (ls_state s \<in> {LC_ACTIVE, LC_STALE} \<and> ls_grace_until s \<le> t \<longrightarrow> ls_state s' = LC_EXPIRED)
    \<and> (ls_state s = LC_ACTIVE \<and> ls_stale_at s \<le> t \<and> t < ls_grace_until s \<longrightarrow> ls_state s' = LC_STALE)
    \<and> (ls_state s = LC_DETACHING \<and> the (ls_detach_deadline s) \<le> t \<longrightarrow>
        ls_state s' = LC_RECONCILIATION_REQUIRED \<and> writer_slot_reserved s')"
proof -
  have inv: "fence_inv f" using assms(1) by (rule fence_reachable_inv)
  with assms(2,3) obtain own where ok: "snapshot_ok f own l s" and dur: "lf_stale_after f \<le> lf_grace f"
    by (auto simp: fence_inv_def)
  have obs: "observe_now f clk (Some (Finite t)) = (Inr t, f\<lparr>lf_last_observed := Some t\<rparr>)"
    using assms(3,4) by (simp add: observe_now_def)
  let ?s = "advance_snapshot t s"
  have tick: "tick f clk (Some (Finite t)) = (Inr ?s, f\<lparr>lf_last_observed := Some t, lf_snapshot := Some ?s\<rparr>)"
    using assms(2) obs by (simp add: tick_def advance_def Let_def)
  have "ls_stale_at s \<le> ls_grace_until s" using ok dur by (simp add: snapshot_ok_def)
  then show ?thesis
    using tick ok by (auto simp: advance_snapshot_def Let_def snapshot_ok_def writer_slot_reserved_def)
qed

theorem tick_progress_witness:
  "\<exists>s' f'. tick sample_active NotFinite (Some (Finite 45)) = (Inr s', f') \<and> ls_state s' = LC_STALE"
proof -
  have reach: "fence_reachable sample_active"
    unfolding sample_active_def by (intro fence_run_reachable sample_fence_reachable)
  obtain s where s: "lf_snapshot sample_active = Some s" "ls_state s = LC_ACTIVE" "ls_stale_at s = 30"
      "ls_grace_until s = 60" "lf_last_observed sample_active = Some 0"
    by (simp add: sample_active_eq)
  show ?thesis using tick_progress [OF reach s(1,5), of 45 NotFinite] s by auto
qed

end
