(* ===== verification/Input_Budget.thy ===== *)
theory Input_Budget
  imports Prelude
begin

text \<open>
  The exact-owner ledger for encoded browser input (\<open>agentbox_api/waw_input_budget.py\<close>).

  A token is an object the budget hands out; its immutable slots are the record
  \<open>InputBudgetToken\<close>, its two mutable ones (owner and liveness) live in the budget's cells, keyed
  by the serial. Object identities (\<open>budget_id\<close>, \<open>connection_id\<close>, compared with \<open>is\<close>) are natural
  numbers. The dictionary of live tokens is an association list in insertion order. The overflow
  callback runs after the lock is released; \<open>reserve_native\<close> reports whether it runs.
\<close>

definition INPUT_BUDGET_LIMIT :: int where "INPUT_BUDGET_LIMIT = 65536"

datatype InputBudgetOwner = NATIVE_READY | BROWSER_DELIVERY | RELAY_RUNTIME_PENDING
  | RUNTIME_SEND_INFLIGHT

definition all_owners :: "InputBudgetOwner list" where
  "all_owners = [NATIVE_READY, BROWSER_DELIVERY, RELAY_RUNTIME_PENDING, RUNTIME_SEND_INFLIGHT]"

datatype budget_error = InputBudgetError | InputBudgetOverflow

record InputBudgetToken =
  tk_budget_id :: nat
  tk_connection_id :: nat
  tk_attachment_id :: pystr
  tk_runtime_epoch :: pystr
  tk_serial :: int
  tk_size :: int

definition ABWS_INPUT_KIND :: byte where "ABWS_INPUT_KIND = 9"

definition is_encoded_input :: "bytes \<Rightarrow> bool" where
  "is_encoded_input raw \<longleftrightarrow> length raw \<ge> 6 \<and> raw ! 5 = ABWS_INPUT_KIND"

record InputBudget =
  ib_budget_id :: nat
  ib_connection_id :: nat
  ib_attachment_id :: pystr
  ib_runtime_epoch :: pystr
  ib_tokens :: "(int \<times> InputBudgetToken) list"
  ib_owner_bytes :: "InputBudgetOwner \<Rightarrow> int"
  ib_reserved_bytes :: int
  ib_serial :: int
  ib_closed :: bool
  ib_overflowed :: bool
  ib_overflow_fence :: bool
  ib_peak_bytes :: int
  ib_cells :: "int \<rightharpoonup> InputBudgetOwner \<times> bool"

text \<open>\<open>connection\<close> is \<open>None\<close> for the Python value \<open>None\<close>, which the constructor refuses.\<close>

definition InputBudget_init ::
  "nat \<Rightarrow> nat option \<Rightarrow> pystr \<Rightarrow> pystr \<Rightarrow> budget_error + InputBudget" where
  "InputBudget_init ident connection attachment_id runtime_epoch =
     (case connection of
        None \<Rightarrow> Inl InputBudgetError
      | Some c \<Rightarrow>
          if attachment_id = [] \<or> runtime_epoch = [] then Inl InputBudgetError
          else Inr \<lparr>ib_budget_id = ident, ib_connection_id = c, ib_attachment_id = attachment_id,
                    ib_runtime_epoch = runtime_epoch, ib_tokens = [], ib_owner_bytes = (\<lambda>_. 0),
                    ib_reserved_bytes = 0, ib_serial = 0, ib_closed = False, ib_overflowed = False,
                    ib_overflow_fence = False, ib_peak_bytes = 0, ib_cells = Map.empty\<rparr>)"

definition assert_identity :: "InputBudget \<Rightarrow> nat \<Rightarrow> pystr \<Rightarrow> pystr \<Rightarrow> budget_error + unit" where
  "assert_identity b c a e =
     (if c \<noteq> ib_connection_id b \<or> a \<noteq> ib_attachment_id b \<or> e \<noteq> ib_runtime_epoch b
      then Inl InputBudgetError else Inr ())"

definition install_overflow_fence :: "InputBudget \<Rightarrow> budget_error + InputBudget" where
  "install_overflow_fence b =
     (if ib_closed b \<or> ib_overflow_fence b then Inl InputBudgetError
      else Inr (b\<lparr>ib_overflow_fence := True\<rparr>))"

text \<open>The result, the budget afterwards, and whether the overflow callback is called.\<close>

definition reserve_native ::
  "InputBudget \<Rightarrow> int \<Rightarrow> (budget_error + InputBudgetToken) \<times> InputBudget \<times> bool" where
  "reserve_native b n =
     (if ib_closed b \<or> ib_overflowed b \<or> \<not> (1 \<le> n \<and> n \<le> INPUT_BUDGET_LIMIT)
      then (Inl InputBudgetError, b, False)
      else if ib_reserved_bytes b + n > INPUT_BUDGET_LIMIT
      then (Inl InputBudgetOverflow, b\<lparr>ib_overflowed := True\<rparr>, ib_overflow_fence b)
      else
      let serial = ib_serial b + 1;
          token = \<lparr>tk_budget_id = ib_budget_id b, tk_connection_id = ib_connection_id b,
                   tk_attachment_id = ib_attachment_id b, tk_runtime_epoch = ib_runtime_epoch b,
                   tk_serial = serial, tk_size = n\<rparr>;
          reserved = ib_reserved_bytes b + n
      in (Inr token,
          b\<lparr>ib_serial := serial, ib_tokens := ib_tokens b @ [(serial, token)],
            ib_reserved_bytes := reserved,
            ib_owner_bytes := (ib_owner_bytes b)(NATIVE_READY := ib_owner_bytes b NATIVE_READY + n),
            ib_peak_bytes := max (ib_peak_bytes b) reserved,
            ib_cells := (ib_cells b)(serial \<mapsto> (NATIVE_READY, True))\<rparr>, False))"

definition token_matches :: "InputBudget \<Rightarrow> InputBudgetToken \<Rightarrow> bool" where
  "token_matches b t \<longleftrightarrow>
     tk_budget_id t = ib_budget_id b \<and> tk_connection_id t = ib_connection_id b
     \<and> tk_attachment_id t = ib_attachment_id b \<and> tk_runtime_epoch t = ib_runtime_epoch b"

definition token_live :: "InputBudget \<Rightarrow> InputBudgetToken \<Rightarrow> bool" where
  "token_live b t \<longleftrightarrow> (case ib_cells b (tk_serial t) of None \<Rightarrow> False | Some (_, live) \<Rightarrow> live)"

definition token_owned_by :: "InputBudget \<Rightarrow> InputBudgetToken \<Rightarrow> InputBudgetOwner \<Rightarrow> bool" where
  "token_owned_by b t owner \<longleftrightarrow>
     (case ib_cells b (tk_serial t) of None \<Rightarrow> False | Some (own, _) \<Rightarrow> own = owner)"

definition budget_validate :: "InputBudget \<Rightarrow> InputBudgetToken \<Rightarrow> InputBudgetOwner \<Rightarrow> bool" where
  "budget_validate b t owner \<longleftrightarrow>
     token_matches b t \<and> token_live b t \<and> token_owned_by b t owner
     \<and> map_of (ib_tokens b) (tk_serial t) = Some t"

definition check_invariant :: "InputBudget \<Rightarrow> bool" where
  "check_invariant b \<longleftrightarrow>
     0 \<le> ib_reserved_bytes b \<and> ib_reserved_bytes b \<le> INPUT_BUDGET_LIMIT
     \<and> list_all (\<lambda>owner. 0 \<le> ib_owner_bytes b owner) all_owners
     \<and> sum_list (map (ib_owner_bytes b) all_owners) = ib_reserved_bytes b
     \<and> sum_list (map (\<lambda>(_, t). tk_size t) (ib_tokens b)) = ib_reserved_bytes b"

definition transfer ::
  "InputBudget \<Rightarrow> InputBudgetToken \<Rightarrow> InputBudgetOwner \<Rightarrow> InputBudgetOwner
     \<Rightarrow> (budget_error + unit) \<times> InputBudget" where
  "transfer b t source target =
     (if source = target then (Inl InputBudgetError, b)
      else if \<not> budget_validate b t source then (Inl InputBudgetError, b)
      else
      let b1 = b\<lparr>ib_cells := (ib_cells b)(tk_serial t \<mapsto> (target, True))\<rparr>;
          b2 = b1\<lparr>ib_owner_bytes := (ib_owner_bytes b1)(source := ib_owner_bytes b1 source - tk_size t)\<rparr>;
          b3 = b2\<lparr>ib_owner_bytes := (ib_owner_bytes b2)(target := ib_owner_bytes b2 target + tk_size t)\<rparr>
      in if check_invariant b3 then (Inr (), b3) else (Inl InputBudgetError, b3))"

definition release ::
  "InputBudget \<Rightarrow> InputBudgetToken \<Rightarrow> InputBudgetOwner \<Rightarrow> (budget_error + bool) \<times> InputBudget" where
  "release b t owner =
     (if \<not> token_matches b t \<or> \<not> token_live b t \<or> \<not> token_owned_by b t owner then (Inr False, b)
      else if map_of (ib_tokens b) (tk_serial t) \<noteq> Some t then (Inr False, b)
      else
      let b1 = b\<lparr>ib_tokens := filter (\<lambda>(s, _). s \<noteq> tk_serial t) (ib_tokens b),
                 ib_cells := (ib_cells b)(tk_serial t \<mapsto> (owner, False)),
                 ib_reserved_bytes := ib_reserved_bytes b - tk_size t,
                 ib_owner_bytes := (ib_owner_bytes b)(owner := ib_owner_bytes b owner - tk_size t)\<rparr>
      in if check_invariant b1 then (Inr True, b1) else (Inl InputBudgetError, b1))"

definition kill_cell :: "(int \<rightharpoonup> InputBudgetOwner \<times> bool) \<Rightarrow> int \<times> InputBudgetToken \<Rightarrow> (int \<rightharpoonup> InputBudgetOwner \<times> bool)" where
  "kill_cell cells entry =
     (case cells (tk_serial (snd entry)) of
        None \<Rightarrow> cells | Some (own, _) \<Rightarrow> cells(tk_serial (snd entry) \<mapsto> (own, False)))"

definition budget_close :: "InputBudget \<Rightarrow> InputBudget" where
  "budget_close b =
     (if ib_closed b then b
      else b\<lparr>ib_closed := True, ib_overflow_fence := False,
             ib_cells := foldl kill_cell (ib_cells b) (ib_tokens b), ib_tokens := [],
             ib_reserved_bytes := 0, ib_owner_bytes := (\<lambda>_. 0)\<rparr>)"

section \<open>Runs\<close>

inductive budget_step :: "InputBudget \<Rightarrow> InputBudget \<Rightarrow> bool" where
  fence: "install_overflow_fence b = Inr b' \<Longrightarrow> budget_step b b'"
| reserve: "reserve_native b n = (r, b', called) \<Longrightarrow> budget_step b b'"
| transfer: "transfer b t source target = (r, b') \<Longrightarrow> budget_step b b'"
| release: "release b t owner = (r, b') \<Longrightarrow> budget_step b b'"
| close: "budget_close b = b' \<Longrightarrow> budget_step b b'"

inductive_cases budget_stepE: "budget_step b b'"

definition budget_reachable :: "InputBudget \<Rightarrow> bool" where
  "budget_reachable b \<longleftrightarrow>
     (\<exists>ident c a e b0. InputBudget_init ident c a e = Inr b0 \<and> budget_step\<^sup>*\<^sup>* b0 b)"

section \<open>Invariant\<close>

definition cell_owner :: "(int \<rightharpoonup> InputBudgetOwner \<times> bool) \<Rightarrow> int \<Rightarrow> InputBudgetOwner" where
  "cell_owner cells s = fst (the (cells s))"

text \<open>The bytes a given owner answers for, counted from the live tokens.\<close>

definition owned_bytes ::
  "(int \<rightharpoonup> InputBudgetOwner \<times> bool) \<Rightarrow> (int \<times> InputBudgetToken) list \<Rightarrow> InputBudgetOwner \<Rightarrow> int" where
  "owned_bytes cells ts own =
     sum_list (map (\<lambda>(s, t). if cell_owner cells s = own then tk_size t else 0) ts)"

definition token_bytes :: "(int \<times> InputBudgetToken) list \<Rightarrow> int" where
  "token_bytes ts = sum_list (map (\<lambda>(_, t). tk_size t) ts)"

definition budget_shape :: "InputBudget \<Rightarrow> bool" where
  "budget_shape b \<longleftrightarrow>
     (\<forall>s t. (s, t) \<in> set (ib_tokens b) \<longrightarrow>
        tk_serial t = s \<and> s \<le> ib_serial b \<and> 1 \<le> tk_size t \<and> token_matches b t)
     \<and> distinct (map fst (ib_tokens b))
     \<and> (\<forall>s. s \<in> fst ` set (ib_tokens b) \<longleftrightarrow> (\<exists>own. ib_cells b s = Some (own, True)))
     \<and> (\<forall>s. ib_cells b s \<noteq> None \<longrightarrow> s \<le> ib_serial b)
     \<and> (ib_closed b \<longrightarrow> ib_tokens b = [])"

definition budget_accounts :: "InputBudget \<Rightarrow> bool" where
  "budget_accounts b \<longleftrightarrow>
     ib_reserved_bytes b = token_bytes (ib_tokens b) \<and> ib_reserved_bytes b \<le> INPUT_BUDGET_LIMIT
     \<and> ib_owner_bytes b = owned_bytes (ib_cells b) (ib_tokens b)"

definition budget_inv :: "InputBudget \<Rightarrow> bool" where
  "budget_inv b \<longleftrightarrow> budget_shape b \<and> budget_accounts b"

lemmas budget_inv_defs = budget_inv_def budget_shape_def budget_accounts_def

lemma keyed_split:
  assumes "distinct (map fst xs)" "(k, v) \<in> set xs"
  obtains ys zs where "xs = ys @ (k, v) # zs" "k \<notin> fst ` set ys" "k \<notin> fst ` set zs"
proof -
  obtain ys zs where "xs = ys @ (k, v) # zs" using assms(2) by (meson split_list)
  with assms(1) that show thesis by auto
qed

lemma token_bytes_nonneg: "\<forall>(s, t) \<in> set ts. 1 \<le> tk_size t \<Longrightarrow> 0 \<le> token_bytes ts"
  unfolding token_bytes_def by (rule sum_list_nonneg) auto

lemma owned_bytes_nonneg: "\<forall>(s, t) \<in> set ts. 1 \<le> tk_size t \<Longrightarrow> 0 \<le> owned_bytes c ts own"
  unfolding owned_bytes_def by (rule sum_list_nonneg) auto

lemma owned_bytes_total: "sum_list (map (owned_bytes c ts) all_owners) = token_bytes ts"
proof (induction ts)
  case Nil
  then show ?case by (simp add: owned_bytes_def token_bytes_def all_owners_def)
next
  case (Cons x ts)
  obtain s t where x: "x = (s, t)" by (cases x)
  with Cons show ?case
    by (cases "cell_owner c s") (simp_all add: owned_bytes_def token_bytes_def all_owners_def)
qed

lemma owned_bytes_cong:
  "(\<And>s. s \<in> fst ` set ts \<Longrightarrow> cell_owner c s = cell_owner d s) \<Longrightarrow> owned_bytes c ts own = owned_bytes d ts own"
  unfolding owned_bytes_def by (intro arg_cong [where f = sum_list] map_cong) (auto, force+)

lemma cell_owner_other: "s \<noteq> k \<Longrightarrow> cell_owner (c(k \<mapsto> x)) s = cell_owner c s"
  by (simp add: cell_owner_def)

text \<open>Changing the owner of one live token moves its bytes from one owner to the other.\<close>

lemma owned_bytes_move:
  assumes "distinct (map fst ts)" "(s, t) \<in> set ts" "cell_owner c s = source" "source \<noteq> target"
  shows "owned_bytes (c(s \<mapsto> (target, True))) ts =
    (owned_bytes c ts)(source := owned_bytes c ts source - tk_size t,
                       target := owned_bytes c ts target + tk_size t)"
proof
  fix own
  obtain ys zs where ts: "ts = ys @ (s, t) # zs" "s \<notin> fst ` set ys" "s \<notin> fst ` set zs"
    using keyed_split [OF assms(1,2)] .
  have "owned_bytes (c(s \<mapsto> (target, True))) ys own = owned_bytes c ys own"
    "owned_bytes (c(s \<mapsto> (target, True))) zs own = owned_bytes c zs own"
    using ts by (auto intro!: owned_bytes_cong cell_owner_other)
  then show "owned_bytes (c(s \<mapsto> (target, True))) ts own =
    ((owned_bytes c ts)(source := owned_bytes c ts source - tk_size t,
                       target := owned_bytes c ts target + tk_size t)) own"
    using assms(3,4) ts(1) by (auto simp: owned_bytes_def cell_owner_def)
qed

text \<open>Removing one live token takes its bytes from its owner and from the total.\<close>

lemma owned_bytes_remove:
  assumes "distinct (map fst ts)" "(s, t) \<in> set ts" "cell_owner c s = owner"
  shows "owned_bytes (c(s \<mapsto> x)) (filter (\<lambda>(k, _). k \<noteq> s) ts) =
      (owned_bytes c ts)(owner := owned_bytes c ts owner - tk_size t)"
    and "token_bytes (filter (\<lambda>(k, _). k \<noteq> s) ts) = token_bytes ts - tk_size t"
proof -
  obtain ys zs where ts: "ts = ys @ (s, t) # zs" "s \<notin> fst ` set ys" "s \<notin> fst ` set zs"
    using keyed_split [OF assms(1,2)] .
  have f: "filter (\<lambda>(k, _). k \<noteq> s) ys = ys" "filter (\<lambda>(k, _). k \<noteq> s) zs = zs"
    using ts(2,3) by (force simp: filter_id_conv)+
  have same: "owned_bytes (c(s \<mapsto> x)) ys own = owned_bytes c ys own"
    "owned_bytes (c(s \<mapsto> x)) zs own = owned_bytes c zs own" for own
    using ts by (auto intro!: owned_bytes_cong cell_owner_other)
  show "owned_bytes (c(s \<mapsto> x)) (filter (\<lambda>(k, _). k \<noteq> s) ts) =
      (owned_bytes c ts)(owner := owned_bytes c ts owner - tk_size t)"
    using f same assms(3) unfolding ts(1) by (auto simp: owned_bytes_def)
  show "token_bytes (filter (\<lambda>(k, _). k \<noteq> s) ts) = token_bytes ts - tk_size t"
    using f unfolding ts(1) by (simp add: token_bytes_def)
qed

lemma budget_inv_check:
  assumes "budget_inv b"
  shows "check_invariant b"
proof -
  have sz: "\<forall>(s, t) \<in> set (ib_tokens b). 1 \<le> tk_size t"
    using assms by (auto simp: budget_inv_def budget_shape_def)
  show ?thesis
    using assms token_bytes_nonneg [OF sz] owned_bytes_nonneg [OF sz] owned_bytes_total
    unfolding check_invariant_def budget_inv_def budget_accounts_def token_bytes_def
    by (auto simp: list_all_iff)
qed

lemma token_matches_update [simp]:
  "token_matches (b\<lparr>ib_cells := x1\<rparr>) t = token_matches b t"
  "token_matches (b\<lparr>ib_owner_bytes := x2\<rparr>) t = token_matches b t"
  "token_matches (b\<lparr>ib_tokens := x3\<rparr>) t = token_matches b t"
  "token_matches (b\<lparr>ib_reserved_bytes := x4\<rparr>) t = token_matches b t"
  "token_matches (b\<lparr>ib_serial := x5\<rparr>) t = token_matches b t"
  "token_matches (b\<lparr>ib_peak_bytes := x6\<rparr>) t = token_matches b t"
  "token_matches (b\<lparr>ib_closed := y1\<rparr>) t = token_matches b t"
  "token_matches (b\<lparr>ib_overflowed := y2\<rparr>) t = token_matches b t"
  "token_matches (b\<lparr>ib_overflow_fence := y3\<rparr>) t = token_matches b t"
  by (simp_all add: token_matches_def)

lemma validated_token:
  assumes "token_live b t" "token_owned_by b t owner" "map_of (ib_tokens b) (tk_serial t) = Some t"
  shows "(tk_serial t, t) \<in> set (ib_tokens b)" "ib_cells b (tk_serial t) = Some (owner, True)"
    "cell_owner (ib_cells b) (tk_serial t) = owner"
  using assms map_of_SomeD [OF assms(3)]
  by (auto simp: token_live_def token_owned_by_def cell_owner_def split: option.splits)

lemma budget_shape_cells:
  assumes "budget_shape b" "\<And>s. (\<exists>own. cells s = Some (own, True)) \<longleftrightarrow> (\<exists>own. ib_cells b s = Some (own, True))"
    and "\<And>s. cells s \<noteq> None \<Longrightarrow> s \<le> ib_serial b"
  shows "budget_shape (b\<lparr>ib_cells := cells, ib_owner_bytes := ob\<rparr>)"
  using assms by (simp add: budget_shape_def)

lemma transfer_ok:
  assumes "budget_inv b" "source \<noteq> target" "budget_validate b t source"
  shows "\<exists>b'. transfer b t source target = (Inr (), b') \<and> budget_inv b'
    \<and> b' = b\<lparr>ib_cells := (ib_cells b)(tk_serial t \<mapsto> (target, True)), ib_owner_bytes := ib_owner_bytes b'\<rparr>"
proof -
  let ?s = "tk_serial t"
  let ?cells = "(ib_cells b)(?s \<mapsto> (target, True))"
  let ?b = "b\<lparr>ib_cells := ?cells, ib_owner_bytes := (ib_owner_bytes b)
      (source := ib_owner_bytes b source - tk_size t, target := ib_owner_bytes b target + tk_size t)\<rparr>"
  have v: "(?s, t) \<in> set (ib_tokens b)" "ib_cells b ?s = Some (source, True)"
      "cell_owner (ib_cells b) ?s = source"
    using assms(3) validated_token by (auto simp: budget_validate_def)
  have ob: "ib_owner_bytes b = owned_bytes (ib_cells b) (ib_tokens b)"
    and d: "distinct (map fst (ib_tokens b))"
    using assms(1) by (auto simp: budget_inv_defs)
  have move: "owned_bytes ?cells (ib_tokens b) = ib_owner_bytes ?b"
    using owned_bytes_move [OF d v(1,3) assms(2)] ob by simp
  have shape: "budget_shape b" using assms(1) by (simp add: budget_inv_def)
  have "budget_shape ?b"
  proof (rule budget_shape_cells [OF shape])
    fix s
    show "(\<exists>own. ?cells s = Some (own, True)) \<longleftrightarrow> (\<exists>own. ib_cells b s = Some (own, True))"
      using v(2) by simp
    show "s \<le> ib_serial b" if "?cells s \<noteq> None"
      using that v(2) shape unfolding budget_shape_def by (metis fun_upd_other option.distinct(1))
  qed
  moreover have "budget_accounts ?b"
    using assms(1) move by (simp add: budget_inv_def budget_accounts_def)
  ultimately have inv: "budget_inv ?b" by (simp add: budget_inv_def)
  have "transfer b t source target =
      (if check_invariant ?b then (Inr (), ?b) else (Inl InputBudgetError, ?b))"
    unfolding transfer_def Let_def using assms(2,3) by simp
  then have "transfer b t source target = (Inr (), ?b)"
    by (simp only: budget_inv_check [OF inv] if_True)
  with inv show ?thesis by (intro exI [of _ ?b]) simp
qed

lemma transfer_refused: "\<not> budget_validate b t source \<Longrightarrow> transfer b t source target = (Inl InputBudgetError, b)"
  by (simp add: transfer_def)

lemma transfer_same: "transfer b t source source = (Inl InputBudgetError, b)"
  by (simp add: transfer_def)

lemma transfer_inv:
  assumes "budget_inv b" "transfer b t source target = (r, b')"
  shows "budget_inv b'"
proof (cases "source \<noteq> target \<and> budget_validate b t source")
  case True
  with transfer_ok [OF assms(1)] assms(2) show ?thesis by (metis Pair_inject)
next
  case False
  with transfer_refused transfer_same assms show ?thesis by (metis Pair_inject)
qed

lemma budget_shape_remove:
  assumes "budget_shape b" "set ts \<subseteq> set (ib_tokens b)" "distinct (map fst ts)"
    and "\<And>s. s \<in> fst ` set ts \<longleftrightarrow> (\<exists>own. cells s = Some (own, True))"
    and "\<And>s. cells s \<noteq> None \<longrightarrow> s \<le> ib_serial b"
  shows "budget_shape (b\<lparr>ib_tokens := ts, ib_cells := cells, ib_reserved_bytes := rb, ib_owner_bytes := ob\<rparr>)"
proof -
  have "\<forall>s t. (s, t) \<in> set ts \<longrightarrow>
      tk_serial t = s \<and> s \<le> ib_serial b \<and> 1 \<le> tk_size t \<and> token_matches b t"
    using assms(1,2) unfolding budget_shape_def by blast
  moreover have "ib_closed b \<longrightarrow> ts = []"
    using assms(1,2) unfolding budget_shape_def by auto
  ultimately show ?thesis using assms(3-5) unfolding budget_shape_def by simp
qed

lemma release_ok:
  assumes "budget_inv b" "budget_validate b t owner"
  shows "\<exists>b'. release b t owner = (Inr True, b') \<and> budget_inv b'
    \<and> ib_cells b' = (ib_cells b)(tk_serial t \<mapsto> (owner, False)) \<and> ib_serial b' = ib_serial b
    \<and> ib_reserved_bytes b' = ib_reserved_bytes b - tk_size t"
proof -
  let ?s = "tk_serial t"
  let ?cells = "(ib_cells b)(?s \<mapsto> (owner, False))"
  let ?ts = "filter (\<lambda>(k, _). k \<noteq> ?s) (ib_tokens b)"
  let ?b = "b\<lparr>ib_tokens := ?ts, ib_cells := ?cells,
      ib_reserved_bytes := ib_reserved_bytes b - tk_size t,
      ib_owner_bytes := (ib_owner_bytes b)(owner := ib_owner_bytes b owner - tk_size t)\<rparr>"
  have v: "(?s, t) \<in> set (ib_tokens b)" "ib_cells b ?s = Some (owner, True)"
      "cell_owner (ib_cells b) ?s = owner"
    using assms(2) validated_token by (auto simp: budget_validate_def)
  have ob: "ib_owner_bytes b = owned_bytes (ib_cells b) (ib_tokens b)"
    and d: "distinct (map fst (ib_tokens b))" and rb: "ib_reserved_bytes b = token_bytes (ib_tokens b)"
    and sz: "1 \<le> tk_size t"
    using assms(1) v(1) by (auto simp: budget_inv_defs)
  note rem = owned_bytes_remove(1) [OF d v(1,3), of "(owner, False)"] owned_bytes_remove(2) [OF d v(1,3)]
  have d': "distinct (map fst ?ts)" using d by (rule distinct_map_filter)
  have keys: "fst ` set ?ts = fst ` set (ib_tokens b) - {?s}" by force
  have shape: "budget_shape b" using assms(1) by (simp add: budget_inv_def)
  have live: "s \<in> fst ` set ?ts \<longleftrightarrow> (\<exists>own. ?cells s = Some (own, True))" for s
    using shape unfolding keys budget_shape_def by simp
  have bound: "?cells s \<noteq> None \<longrightarrow> s \<le> ib_serial b" for s
    using v(2) shape unfolding budget_shape_def by (metis fun_upd_other option.distinct(1))
  have "budget_shape ?b"
    by (rule budget_shape_remove [OF shape _ d' live bound]) auto
  moreover have "budget_accounts ?b"
    using assms(1) rem sz by (simp add: budget_inv_def budget_accounts_def)
  ultimately have inv: "budget_inv ?b" by (simp add: budget_inv_def)
  have "release b t owner = (if check_invariant ?b then (Inr True, ?b) else (Inl InputBudgetError, ?b))"
    unfolding release_def Let_def using assms(2) by (simp add: budget_validate_def)
  then have "release b t owner = (Inr True, ?b)"
    by (simp only: budget_inv_check [OF inv] if_True)
  with inv show ?thesis by (intro exI [of _ ?b]) simp
qed

lemma release_refused: "\<not> budget_validate b t owner \<Longrightarrow> release b t owner = (Inr False, b)"
  by (simp add: release_def budget_validate_def)

lemma release_inv: "budget_inv b \<Longrightarrow> release b t owner = (r, b') \<Longrightarrow> budget_inv b'"
  using release_ok [of b t owner] release_refused [of b t owner]
  by (cases "budget_validate b t owner") auto

lemma budget_inv_flags [simp]:
  "budget_inv (b\<lparr>ib_overflowed := x\<rparr>) = budget_inv b"
  "budget_inv (b\<lparr>ib_overflow_fence := x\<rparr>) = budget_inv b"
  by (simp_all add: budget_inv_defs)

lemma reserve_inv:
  assumes "budget_inv b" "reserve_native b n = (r, b', called)"
  shows "budget_inv b'"
proof (cases "b' = b \<or> b' = b\<lparr>ib_overflowed := True\<rparr>")
  case True
  then show ?thesis using assms(1) by auto
next
  case False
  let ?s = "ib_serial b + 1"
  let ?t = "\<lparr>tk_budget_id = ib_budget_id b, tk_connection_id = ib_connection_id b,
      tk_attachment_id = ib_attachment_id b, tk_runtime_epoch = ib_runtime_epoch b,
      tk_serial = ?s, tk_size = n\<rparr>"
  let ?cells = "(ib_cells b)(?s \<mapsto> (NATIVE_READY, True))"
  from False assms(2) have n: "1 \<le> n" "ib_reserved_bytes b + n \<le> INPUT_BUDGET_LIMIT" "\<not> ib_closed b"
    and b': "b' = b\<lparr>ib_serial := ?s, ib_tokens := ib_tokens b @ [(?s, ?t)],
       ib_reserved_bytes := ib_reserved_bytes b + n,
       ib_owner_bytes := (ib_owner_bytes b)(NATIVE_READY := ib_owner_bytes b NATIVE_READY + n),
       ib_peak_bytes := max (ib_peak_bytes b) (ib_reserved_bytes b + n), ib_cells := ?cells\<rparr>"
    by (auto simp: reserve_native_def Let_def split: if_splits)
  have fresh: "?s \<notin> fst ` set (ib_tokens b)" and d: "distinct (map fst (ib_tokens b))"
    using assms(1) by (force simp: budget_inv_def budget_shape_def)+
  have "owned_bytes ?cells (ib_tokens b) own = owned_bytes (ib_cells b) (ib_tokens b) own" for own
    using fresh by (intro owned_bytes_cong cell_owner_other) blast
  then have own: "owned_bytes ?cells (ib_tokens b @ [(?s, ?t)]) =
      (owned_bytes (ib_cells b) (ib_tokens b))(NATIVE_READY := owned_bytes (ib_cells b) (ib_tokens b) NATIVE_READY + n)"
    by (auto simp: owned_bytes_def cell_owner_def fun_eq_iff)
  have m: "token_matches b ?t" by (simp add: token_matches_def)
  have tok: "\<forall>s t. (s, t) \<in> set (ib_tokens b) \<longrightarrow>
        tk_serial t = s \<and> s \<le> ib_serial b \<and> 1 \<le> tk_size t \<and> token_matches b t"
    and live: "\<And>s. s \<in> fst ` set (ib_tokens b) \<longleftrightarrow> (\<exists>own. ib_cells b s = Some (own, True))"
    and bound: "\<And>s. ib_cells b s \<noteq> None \<longrightarrow> s \<le> ib_serial b"
    using assms(1) unfolding budget_inv_def budget_shape_def by blast+
  have "s \<in> fst ` set (ib_tokens b @ [(?s, ?t)]) \<longleftrightarrow> (\<exists>own. ?cells s = Some (own, True))" for s
    using live [of s] by simp
  moreover have "?cells s \<noteq> None \<longrightarrow> s \<le> ?s" for s
    using bound [of s] by (cases "s = ?s"; cases "ib_cells b s = None") auto
  moreover have "\<forall>s t. (s, t) \<in> set (ib_tokens b @ [(?s, ?t)]) \<longrightarrow>
        tk_serial t = s \<and> s \<le> ?s \<and> 1 \<le> tk_size t \<and> token_matches b t"
    using tok m n(1) by force
  moreover have "distinct (map fst (ib_tokens b @ [(?s, ?t)]))" using d fresh by simp
  ultimately have "budget_shape b'"
    using n(3) unfolding b' budget_shape_def by simp
  moreover have "budget_accounts b'"
    using assms(1) n(2) own unfolding b' budget_inv_def budget_accounts_def by (simp add: token_bytes_def)
  ultimately show ?thesis by (simp add: budget_inv_def)
qed

lemma kill_cells: "foldl kill_cell c ts s = (if s \<in> tk_serial ` snd ` set ts
    then map_option (\<lambda>(own, _). (own, False)) (c s) else c s)"
proof (induction ts arbitrary: c)
  case (Cons x ts)
  have "kill_cell c x s = (if s = tk_serial (snd x) then map_option (\<lambda>(own, _). (own, False)) (c s) else c s)"
    by (auto simp: kill_cell_def split: option.splits)
  with Cons show ?case by (cases "c s") (auto split: option.splits)
qed simp

lemma close_inv: "budget_inv b \<Longrightarrow> budget_inv (budget_close b)"
proof -
  assume inv: "budget_inv b"
  then have "\<forall>x \<in> set (ib_tokens b). tk_serial (snd x) = fst x"
    by (auto simp: budget_inv_def budget_shape_def)
  then have keys: "tk_serial ` snd ` set (ib_tokens b) = fst ` set (ib_tokens b)"
    by (simp add: image_image cong: image_cong)
  have dead: "foldl kill_cell (ib_cells b) (ib_tokens b) s \<noteq> Some (own, True)" for s own
    using inv unfolding kill_cells keys budget_inv_def budget_shape_def by auto
  have "\<forall>s. foldl kill_cell (ib_cells b) (ib_tokens b) s \<noteq> None \<longrightarrow> s \<le> ib_serial b"
    using inv by (auto simp: kill_cells budget_inv_def budget_shape_def)
  then show ?thesis using inv dead
    unfolding budget_close_def budget_inv_defs
    by (auto simp: owned_bytes_def token_bytes_def fun_eq_iff INPUT_BUDGET_LIMIT_def)
qed

lemma new_inv: "InputBudget_init i c a e = Inr b \<Longrightarrow> budget_inv b"
  by (auto simp: InputBudget_init_def budget_inv_defs token_bytes_def owned_bytes_def fun_eq_iff
      INPUT_BUDGET_LIMIT_def split: option.splits if_splits)

lemma step_inv: "budget_step b b' \<Longrightarrow> budget_inv b \<Longrightarrow> budget_inv b'"
  by (erule budget_stepE)
    (auto simp: install_overflow_fence_def split: if_splits
      dest: reserve_inv transfer_inv release_inv close_inv)

lemma steps_inv: "budget_step\<^sup>*\<^sup>* b b' \<Longrightarrow> budget_inv b \<Longrightarrow> budget_inv b'"
  by (induction rule: rtranclp_induct) (auto intro: step_inv)

lemma reachable_inv: "budget_reachable b \<Longrightarrow> budget_inv b"
  unfolding budget_reachable_def using new_inv steps_inv by blast

section \<open>Properties\<close>

text \<open>
  C14. The ledger always balances: in every budget reachable through its operations, the reserved
  bytes are between zero and 65536, equal the sum over the live tokens and the sum over the
  owners, and each owner's counter is exactly the size of the live tokens it owns; so the
  self-check in \<open>transfer\<close> and \<open>release\<close> never fires, and a valid transfer or release succeeds.
\<close>

theorem budget_balanced:
  assumes "budget_reachable b"
  shows "0 \<le> ib_reserved_bytes b \<and> ib_reserved_bytes b \<le> 65536
    \<and> ib_reserved_bytes b = token_bytes (ib_tokens b)
    \<and> sum_list (map (ib_owner_bytes b) all_owners) = ib_reserved_bytes b
    \<and> (\<forall>own. ib_owner_bytes b own = owned_bytes (ib_cells b) (ib_tokens b) own)
    \<and> (\<forall>t own. fst (release b t own) = Inr (budget_validate b t own))
    \<and> (\<forall>t own target. own \<noteq> target \<longrightarrow>
         fst (transfer b t own target) = (if budget_validate b t own then Inr () else Inl InputBudgetError))"
proof -
  have inv: "budget_inv b" using assms by (rule reachable_inv)
  note chk = budget_inv_check [OF inv]
  have "fst (release b t own) = Inr (budget_validate b t own)" for t own
    using release_ok [OF inv, of t own] release_refused [of b t own]
    by (cases "budget_validate b t own") auto
  moreover have "fst (transfer b t own target) = (if budget_validate b t own then Inr () else Inl InputBudgetError)"
    if "own \<noteq> target" for t own target
    using transfer_ok [OF inv that, of t] transfer_refused [of b t own target]
    by (cases "budget_validate b t own") (metis fst_conv, simp)
  moreover have "ib_owner_bytes b own = owned_bytes (ib_cells b) (ib_tokens b) own" for own
    using inv by (simp add: budget_inv_def budget_accounts_def)
  ultimately show ?thesis
    using chk inv unfolding check_invariant_def budget_inv_def budget_accounts_def INPUT_BUDGET_LIMIT_def
    by simp
qed

text \<open>A dead serial was handed out and is not live; no step revives it.\<close>

definition dead :: "InputBudget \<Rightarrow> int \<Rightarrow> bool" where
  "dead b s \<longleftrightarrow> s \<le> ib_serial b \<and> (\<forall>own. ib_cells b s \<noteq> Some (own, True))"

lemma dead_reserve: "dead b s \<Longrightarrow> reserve_native b n = (r, b', called) \<Longrightarrow> dead b' s"
  by (auto simp: dead_def reserve_native_def Let_def split: if_splits)

lemma dead_transfer: "dead b s \<Longrightarrow> transfer b t source target = (r, b') \<Longrightarrow> dead b' s"
  using validated_token(2) [of b t source]
  by (auto simp: dead_def transfer_def budget_validate_def Let_def split: if_splits)

lemma dead_release: "dead b s \<Longrightarrow> release b t owner = (r, b') \<Longrightarrow> dead b' s"
  by (auto simp: dead_def release_def Let_def split: if_splits)

lemma dead_close: "dead b s \<Longrightarrow> dead (budget_close b) s"
  by (auto simp: dead_def budget_close_def kill_cells)

lemma dead_fence: "dead b s \<Longrightarrow> install_overflow_fence b = Inr b' \<Longrightarrow> dead b' s"
  by (auto simp: dead_def install_overflow_fence_def split: if_splits)

lemma dead_steps: "budget_step\<^sup>*\<^sup>* b b' \<Longrightarrow> dead b s \<Longrightarrow> dead b' s"
proof (induction rule: rtranclp_induct)
  case (step b' b'')
  from step.hyps(2) step.IH [OF step.prems] show ?case
    by cases (auto dest: dead_reserve dead_transfer dead_release dead_close dead_fence)
qed

lemma dead_refused: "dead b (tk_serial t) \<Longrightarrow> \<not> budget_validate b t own"
  using validated_token(2) [of b t own] by (auto simp: dead_def budget_validate_def)

text \<open>
  C16. Credit is single-use: once a token has been released, no later sequence of operations lets
  it be released or transferred again, under any owner; such attempts change nothing.
\<close>

theorem release_once:
  assumes "budget_reachable b" "release b t own = (Inr True, b1)" "budget_step\<^sup>*\<^sup>* b1 b2"
  shows "release b2 t own' = (Inr False, b2) \<and> transfer b2 t own' target = (Inl InputBudgetError, b2)"
proof -
  have inv: "budget_inv b" using assms(1) by (rule reachable_inv)
  have v: "budget_validate b t own"
    using assms(2) release_refused [of b t own] by (cases "budget_validate b t own") auto
  have "ib_cells b1 = (ib_cells b)(tk_serial t \<mapsto> (own, False))" "ib_serial b1 = ib_serial b"
    using release_ok [OF inv v] assms(2) by auto
  moreover have "(tk_serial t, t) \<in> set (ib_tokens b)"
    using v validated_token(1) [of b t own] by (simp add: budget_validate_def)
  then have "tk_serial t \<le> ib_serial b"
    using inv unfolding budget_inv_def budget_shape_def by blast
  ultimately have "dead b1 (tk_serial t)" by (simp add: dead_def)
  then have "dead b2 (tk_serial t)" by (rule dead_steps [OF assms(3)])
  then show ?thesis using dead_refused release_refused transfer_refused by blast
qed

lemma overflowed_steps: "budget_step\<^sup>*\<^sup>* b b' \<Longrightarrow> ib_overflowed b \<Longrightarrow> ib_overflowed b'"
proof (induction rule: rtranclp_induct)
  case (step b' b'')
  from step.hyps(2) step.IH [OF step.prems] show ?case
    by cases (auto simp: install_overflow_fence_def reserve_native_def transfer_def release_def
        budget_close_def Let_def split: if_splits)
qed

text \<open>
  The first overflow is final: a reservation that would exceed 65536 bytes marks the budget
  and calls the installed fence, and from then on every reservation fails without calling it
  again.
\<close>

theorem overflow_final:
  assumes "reserve_native b n = (Inl InputBudgetOverflow, b1, called)" "budget_step\<^sup>*\<^sup>* b1 b2"
  shows "called = ib_overflow_fence b \<and> INPUT_BUDGET_LIMIT < ib_reserved_bytes b + n
    \<and> ib_reserved_bytes b1 = ib_reserved_bytes b
    \<and> reserve_native b2 m = (Inl InputBudgetError, b2, False)"
proof -
  have b1: "called = ib_overflow_fence b" "INPUT_BUDGET_LIMIT < ib_reserved_bytes b + n"
      "ib_overflowed b1" "ib_reserved_bytes b1 = ib_reserved_bytes b"
    using assms(1) by (auto simp: reserve_native_def Let_def split: if_splits)
  then have "ib_overflowed b2" using overflowed_steps [OF assms(2)] by blast
  then show ?thesis using b1 by (simp add: reserve_native_def)
qed

definition sample_budget :: InputBudget where
  "sample_budget = \<lparr>ib_budget_id = 1, ib_connection_id = 2, ib_attachment_id = lit ''att'',
     ib_runtime_epoch = lit ''1'', ib_tokens = [], ib_owner_bytes = (\<lambda>_. 0), ib_reserved_bytes = 0,
     ib_serial = 0, ib_closed = False, ib_overflowed = False, ib_overflow_fence = False,
     ib_peak_bytes = 0, ib_cells = Map.empty\<rparr>"

lemma sample_budget_reachable: "budget_reachable sample_budget"
  unfolding budget_reachable_def
  by (rule exI [of _ 1], rule exI [of _ "Some 2"], rule exI [of _ "lit ''att''"],
      rule exI [of _ "lit ''1''"], rule exI [of _ sample_budget])
    (simp add: InputBudget_init_def sample_budget_def lit_def)

lemma reachable_step: "budget_reachable b \<Longrightarrow> budget_step b b' \<Longrightarrow> budget_reachable b'"
  unfolding budget_reachable_def by (meson rtranclp.rtrancl_into_rtrancl)

lemma sample_reserved:
  "\<exists>t b. reserve_native sample_budget 100 = (Inr t, b, False) \<and> budget_reachable b
     \<and> release b t NATIVE_READY = (Inr True, snd (release b t NATIVE_READY)) \<and> ib_reserved_bytes b = 100"
proof -
  obtain t b where r: "reserve_native sample_budget 100 = (Inr t, b, False)"
    by (auto simp: reserve_native_def sample_budget_def INPUT_BUDGET_LIMIT_def Let_def)
  have reach: "budget_reachable b"
    using reachable_step [OF sample_budget_reachable budget_step.reserve [OF r]] .
  have "budget_validate b t NATIVE_READY" "ib_reserved_bytes b = 100"
    using r by (auto simp: reserve_native_def sample_budget_def INPUT_BUDGET_LIMIT_def Let_def
        budget_validate_def token_matches_def token_live_def token_owned_by_def)
  with release_ok [OF reachable_inv [OF reach]] r reach show ?thesis by fastforce
qed

theorem budget_balanced_witness:
  "\<exists>t b. reserve_native sample_budget 100 = (Inr t, b, False) \<and> budget_reachable b
     \<and> sum_list (map (ib_owner_bytes b) all_owners) = 100"
proof -
  obtain t b where "reserve_native sample_budget 100 = (Inr t, b, False)" "budget_reachable b"
      "ib_reserved_bytes b = 100" using sample_reserved by blast
  then show ?thesis using budget_balanced [of b] by auto
qed

theorem release_once_witness:
  "\<exists>t b b1. budget_reachable b \<and> release b t NATIVE_READY = (Inr True, b1)
     \<and> release b1 t NATIVE_READY = (Inr False, b1)"
proof -
  obtain t b where "budget_reachable b"
      "release b t NATIVE_READY = (Inr True, snd (release b t NATIVE_READY))"
    using sample_reserved by blast
  then show ?thesis using release_once by blast
qed

theorem overflow_final_witness:
  "\<exists>b b1. reserve_native b 65500 = (Inl InputBudgetOverflow, b1, False)
     \<and> reserve_native b1 1 = (Inl InputBudgetError, b1, False)"
proof -
  obtain t b where b: "reserve_native sample_budget 100 = (Inr t, b, False)" "ib_reserved_bytes b = 100"
    using sample_reserved by blast
  have "reserve_native b 65500 = (Inl InputBudgetOverflow, b\<lparr>ib_overflowed := True\<rparr>, False)"
    using b by (auto simp: reserve_native_def sample_budget_def INPUT_BUDGET_LIMIT_def Let_def)
  then show ?thesis using overflow_final by blast
qed

end
