(* ===== verification/Conflicts.thy ===== *)
theory Conflicts
  imports Waw_Domain
begin

text \<open>
  The host-wide conflict coordinator (\<open>agentbox_runtime/waw_conflicts.py\<close>). Any number of
  coordinators share one start lock; a successful acquire keeps the lock until the lease it
  returned is released.

  Coordinators, leases and threads are named by natural numbers; \<open>Host\<close> holds the shared lock, the
  \<open>_active\<close> field of every coordinator, the leases handed out so far and the calls of \<open>release\<close> in
  progress. An acquire waits for the lock: \<open>None\<close> is the waiting call; what follows runs under the
  lock and is one step. What the probes report while the lock is held is an argument: \<open>None\<close> for a
  probe that raised or answered with a value of another type.

  \<open>release\<close> takes no lock. Its reads and writes of shared fields are separate steps of the thread
  that runs it, and other calls come between them.
\<close>

datatype conflict_error = WAWConflictError string | ConflictDomainError waw_error
  | ConflictAssertionError | ConflictRuntimeError

datatype WAWLegacyClaudeState = CL_ABSENT | CL_STARTING | CL_RUNNING | CL_NEEDS_INTERACTION
  | CL_LOGIN_REQUIRED | CL_TRUST_REQUIRED | CL_BROKEN | CL_UNKNOWN | CL_STOPPED | CL_EXITED

datatype WAWLegacyCodexState = CX_ABSENT | CX_STARTING | CX_RUNNING | CX_NEEDS_INTERACTION
  | CX_BROKEN | CX_UNKNOWN | CX_STOPPED | CX_EXITED

datatype WAWManagedConflictState = MC_ABSENT | MC_STARTING | MC_RUNNING | MC_NEEDS_INTERACTION
  | MC_LOGIN_REQUIRED | MC_TRUST_REQUIRED | MC_STOPPING | MC_BROKEN | MC_UNKNOWN | MC_COLLISION
  | MC_RECONCILIATION_REQUIRED | MC_INPUT_UNCERTAIN | MC_STOPPED | MC_EXITED

definition CLAUDE_CONFLICT :: "WAWLegacyClaudeState list" where
  "CLAUDE_CONFLICT = [CL_STARTING, CL_RUNNING, CL_NEEDS_INTERACTION, CL_LOGIN_REQUIRED,
     CL_TRUST_REQUIRED, CL_BROKEN, CL_UNKNOWN]"

definition CODEX_CONFLICT :: "WAWLegacyCodexState list" where
  "CODEX_CONFLICT = [CX_STARTING, CX_RUNNING, CX_NEEDS_INTERACTION, CX_BROKEN, CX_UNKNOWN]"

definition WAW_TERMINAL :: "WAWManagedConflictState list" where
  "WAW_TERMINAL = [MC_ABSENT, MC_STOPPED, MC_EXITED]"

datatype conflict_operation = WAW_START | LEGACY_CLAUDE_START | LEGACY_CODEX_START

record LeaseIdentity =
  li_operation :: conflict_operation
  li_project_id :: "pystr option"
  li_agent_type :: "AgentType option"

record WAWConflictLease =
  cl_coordinator :: nat
  cl_identity :: LeaseIdentity
  cl_released :: bool

text \<open>What a call of \<open>release\<close> does next: set the flag of the lease, compare the active lease of its
  coordinator, clear that field, release the lock.\<close>

datatype release_at = Mark_released | Compare_active | Clear_active | Unlock

record Host =
  ho_locked :: bool
  ho_active :: "nat \<rightharpoonup> nat"
  ho_leases :: "nat \<rightharpoonup> WAWConflictLease"
  ho_next :: nat
  ho_calls :: "nat \<rightharpoonup> nat \<times> release_at"

definition new_host :: Host where
  "new_host = \<lparr>ho_locked = False, ho_active = Map.empty, ho_leases = Map.empty, ho_next = 0,
     ho_calls = Map.empty\<rparr>"

section \<open>Operations\<close>

definition make_lease :: "Host \<Rightarrow> nat \<Rightarrow> LeaseIdentity \<Rightarrow> (conflict_error + nat) \<times> Host" where
  "make_lease h c ident =
     (if ho_active h c \<noteq> None then (Inl ConflictAssertionError, h)
      else (Inr (ho_next h),
            h\<lparr>ho_active := (ho_active h)(c := Some (ho_next h)),
              ho_leases := (ho_leases h)(ho_next h \<mapsto>
                 \<lparr>cl_coordinator = c, cl_identity = ident, cl_released = False\<rparr>),
              ho_next := ho_next h + 1\<rparr>))"

text \<open>The frame of every acquire: take the lock, run the body, give the lock back on any error.\<close>

definition under_lock ::
  "Host \<Rightarrow> (Host \<Rightarrow> (conflict_error + nat) \<times> Host) \<Rightarrow> ((conflict_error + nat) \<times> Host) option" where
  "under_lock h body =
     (if ho_locked h then None
      else case body (h\<lparr>ho_locked := True\<rparr>) of
        (Inl e, h') \<Rightarrow> Some (Inl e, h'\<lparr>ho_locked := False\<rparr>)
      | (Inr l, h') \<Rightarrow> Some (Inr l, h'))"

definition acquire_waw_start ::
  "Host \<Rightarrow> nat \<Rightarrow> pystr \<Rightarrow> AgentType \<Rightarrow> WAWLegacyClaudeState option \<Rightarrow> WAWLegacyCodexState option
     \<Rightarrow> ((conflict_error + nat) \<times> Host) option" where
  "acquire_waw_start h c project_id agent_type claude codex =
     (case validate_project_id project_id of
        Inl e \<Rightarrow> Some (Inl (ConflictDomainError e), h)
      | Inr _ \<Rightarrow> under_lock h (\<lambda>h.
          case claude of
            None \<Rightarrow> (Inl (WAWConflictError ''PROJECT_RUNTIME_ACTIVE''), h)
          | Some claude_state \<Rightarrow>
              if claude_state \<in> set CLAUDE_CONFLICT
              then (Inl (WAWConflictError ''PROJECT_RUNTIME_ACTIVE''), h)
              else case codex of
                None \<Rightarrow> (Inl (WAWConflictError ''CODEX_REMOTE_CONFLICT''), h)
              | Some codex_state \<Rightarrow>
                  if codex_state \<in> set CODEX_CONFLICT
                  then (Inl (WAWConflictError ''CODEX_REMOTE_CONFLICT''), h)
                  else make_lease h c \<lparr>li_operation = WAW_START, li_project_id = Some project_id,
                         li_agent_type = Some agent_type\<rparr>))"

definition acquire_legacy_claude_start ::
  "Host \<Rightarrow> nat \<Rightarrow> pystr \<Rightarrow> WAWManagedConflictState list option
     \<Rightarrow> ((conflict_error + nat) \<times> Host) option" where
  "acquire_legacy_claude_start h c project_id waw_for_project =
     (case validate_project_id project_id of
        Inl e \<Rightarrow> Some (Inl (ConflictDomainError e), h)
      | Inr _ \<Rightarrow> under_lock h (\<lambda>h.
          case waw_for_project of
            None \<Rightarrow> (Inl (WAWConflictError ''PROJECT_RUNTIME_ACTIVE''), h)
          | Some states \<Rightarrow>
              if \<exists>s \<in> set states. s \<notin> set WAW_TERMINAL
              then (Inl (WAWConflictError ''PROJECT_RUNTIME_ACTIVE''), h)
              else make_lease h c \<lparr>li_operation = LEGACY_CLAUDE_START,
                     li_project_id = Some project_id, li_agent_type = None\<rparr>))"

definition acquire_legacy_codex_start ::
  "Host \<Rightarrow> nat \<Rightarrow> WAWManagedConflictState list option \<Rightarrow> ((conflict_error + nat) \<times> Host) option" where
  "acquire_legacy_codex_start h c waw_for_host =
     under_lock h (\<lambda>h.
       case waw_for_host of
         None \<Rightarrow> (Inl (WAWConflictError ''CODEX_REMOTE_CONFLICT''), h)
       | Some states \<Rightarrow>
           if \<exists>s \<in> set states. s \<notin> set WAW_TERMINAL
           then (Inl (WAWConflictError ''CODEX_REMOTE_CONFLICT''), h)
           else make_lease h c \<lparr>li_operation = LEGACY_CODEX_START, li_project_id = None,
                  li_agent_type = None\<rparr>)"

text \<open>Thread \<open>t\<close> calls \<open>release()\<close> of a lease that was handed out: it reads the flag and returns at
  once if it is set. A thread runs one call at a time.\<close>

definition release_call :: "Host \<Rightarrow> nat \<Rightarrow> nat \<Rightarrow> Host option" where
  "release_call h t l =
     (case (ho_leases h l, ho_calls h t) of
        (Some lease, None) \<Rightarrow>
          Some (if cl_released lease then h
                else h\<lparr>ho_calls := (ho_calls h)(t \<mapsto> (l, Mark_released))\<rparr>)
      | _ \<Rightarrow> None)"

text \<open>The next step of the call of thread \<open>t\<close>, with what it returns or raises if it is the last.\<close>

definition release_next :: "Host \<Rightarrow> nat \<Rightarrow> ((conflict_error + unit) option \<times> Host) option" where
  "release_next h t =
     (case ho_calls h t of
        None \<Rightarrow> None
      | Some (l, pc) \<Rightarrow>
          (case ho_leases h l of
             None \<Rightarrow> None
           | Some lease \<Rightarrow>
               let goto = (\<lambda>nxt. h\<lparr>ho_calls := (ho_calls h)(t \<mapsto> (l, nxt))\<rparr>);
                   fin = h\<lparr>ho_calls := (ho_calls h)(t := None)\<rparr>;
                   c = cl_coordinator lease
               in case pc of
                    Mark_released \<Rightarrow>
                      Some (None, (goto Compare_active)\<lparr>ho_leases :=
                        (ho_leases h)(l \<mapsto> lease\<lparr>cl_released := True\<rparr>)\<rparr>)
                  | Compare_active \<Rightarrow>
                      if ho_active h c \<noteq> Some l
                      then Some (Some (Inl (WAWConflictError ''PROJECT_RUNTIME_ACTIVE'')), fin)
                      else Some (None, goto Clear_active)
                  | Clear_active \<Rightarrow>
                      Some (None, (goto Unlock)\<lparr>ho_active := (ho_active h)(c := None)\<rparr>)
                  | Unlock \<Rightarrow>
                      if \<not> ho_locked h then Some (Some (Inl ConflictRuntimeError), fin)
                      else Some (Some (Inr ()), fin\<lparr>ho_locked := False\<rparr>)))"

fun release_rest :: "nat \<Rightarrow> Host \<Rightarrow> nat \<Rightarrow> ((conflict_error + unit) \<times> Host) option" where
  "release_rest 0 h t = None"
| "release_rest (Suc n) h t =
     (case release_next h t of
        None \<Rightarrow> None
      | Some (Some r, h') \<Rightarrow> Some (r, h')
      | Some (None, h') \<Rightarrow> release_rest n h' t)"

text \<open>A whole call of \<open>release()\<close> with nothing in between; four steps are all it has.\<close>

definition lease_release :: "Host \<Rightarrow> nat \<Rightarrow> nat \<Rightarrow> ((conflict_error + unit) \<times> Host) option" where
  "lease_release h t l =
     (case release_call h t l of
        None \<Rightarrow> None
      | Some h1 \<Rightarrow> if ho_calls h1 t = None then Some (Inr (), h1) else release_rest 4 h1 t)"

definition lease_enter :: "Host \<Rightarrow> nat \<Rightarrow> (conflict_error + unit) option" where
  "lease_enter h l =
     map_option (\<lambda>lease. if cl_released lease then Inl (WAWConflictError ''PROJECT_RUNTIME_ACTIVE'')
                         else Inr ()) (ho_leases h l)"

section \<open>Runs and invariant\<close>

text \<open>
  The steps of all threads. With \<open>overlap\<close> a lease may be released by several threads at once;
  without, \<open>release\<close> is called on a lease only while no other call of it on that lease runs.
\<close>

inductive host_step :: "bool \<Rightarrow> Host \<Rightarrow> Host \<Rightarrow> bool" for overlap where
  waw: "acquire_waw_start h c p a cl cx = Some (r, h') \<Longrightarrow> host_step overlap h h'"
| legacy_claude: "acquire_legacy_claude_start h c p ws = Some (r, h') \<Longrightarrow> host_step overlap h h'"
| legacy_codex: "acquire_legacy_codex_start h c ws = Some (r, h') \<Longrightarrow> host_step overlap h h'"
| call: "release_call h t l = Some h' \<Longrightarrow> overlap \<or> (\<forall>t' pc. ho_calls h t' \<noteq> Some (l, pc)) \<Longrightarrow>
    host_step overlap h h'"
| proceed: "release_next h t = Some (r, h') \<Longrightarrow> host_step overlap h h'"

inductive_cases host_stepE: "host_step overlap h h'"

definition held_lease :: "Host \<Rightarrow> nat \<Rightarrow> bool" where
  "held_lease h l \<longleftrightarrow> (\<exists>lease. ho_leases h l = Some lease \<and> \<not> cl_released lease)"

text \<open>
  The lock is held exactly while one lease is alive: held and active, perhaps with a call about to
  set its flag; or released by a call that has not yet cleared the active lease; or cleared by a call
  that has not yet released the lock.
\<close>

definition alive :: "Host \<Rightarrow> nat \<Rightarrow> WAWConflictLease \<Rightarrow> bool" where
  "alive h l lease \<longleftrightarrow> ho_leases h l = Some lease \<and>
     (\<not> cl_released lease \<and> ho_active h = [cl_coordinator lease \<mapsto> l]
        \<and> (ho_calls h = Map.empty \<or> (\<exists>t. ho_calls h = [t \<mapsto> (l, Mark_released)]))
      \<or> cl_released lease \<and> ho_active h = [cl_coordinator lease \<mapsto> l]
        \<and> (\<exists>t. ho_calls h = [t \<mapsto> (l, Compare_active)] \<or> ho_calls h = [t \<mapsto> (l, Clear_active)])
      \<or> cl_released lease \<and> ho_active h = Map.empty \<and> (\<exists>t. ho_calls h = [t \<mapsto> (l, Unlock)]))"

definition host_inv :: "Host \<Rightarrow> bool" where
  "host_inv h \<longleftrightarrow>
     (if ho_locked h then \<exists>l lease. alive h l lease \<and> (\<forall>m. held_lease h m \<longrightarrow> m = l)
      else ho_active h = Map.empty \<and> ho_calls h = Map.empty \<and> (\<forall>m. \<not> held_lease h m))
     \<and> (\<forall>l. ho_leases h l \<noteq> None \<longrightarrow> l < ho_next h)"

lemma host_inv_new: "host_inv new_host"
  by (simp add: host_inv_def new_host_def held_lease_def)

lemma make_lease_inv:
  assumes "host_inv h" "\<not> ho_locked h"
  shows "\<exists>h'. make_lease (h\<lparr>ho_locked := True\<rparr>) c ident = (Inr (ho_next h), h') \<and> host_inv h'
    \<and> ho_locked h' \<and> held_lease h' (ho_next h)"
proof -
  let ?lease = "\<lparr>cl_coordinator = c, cl_identity = ident, cl_released = False\<rparr>"
  let ?h = "h\<lparr>ho_locked := True, ho_active := (ho_active h)(c \<mapsto> ho_next h),
     ho_leases := (ho_leases h)(ho_next h \<mapsto> ?lease), ho_next := ho_next h + 1\<rparr>"
  have free: "ho_active h = Map.empty" "ho_calls h = Map.empty" and none: "\<And>m. \<not> held_lease h m"
    and bnd: "\<And>l. ho_leases h l \<noteq> None \<Longrightarrow> l < ho_next h"
    using assms by (auto simp: host_inv_def)
  have held: "held_lease ?h m \<longleftrightarrow> m = ho_next h" for m
    using none [of m] by (auto simp: held_lease_def)
  have "l < ho_next h + 1" if "ho_leases ?h l \<noteq> None" for l
    using that bnd [of l] by (cases "l = ho_next h") auto
  moreover have "alive ?h (ho_next h) ?lease"
    using free by (simp add: alive_def)
  ultimately have "host_inv ?h"
    using held unfolding host_inv_def by auto
  moreover have "make_lease (h\<lparr>ho_locked := True\<rparr>) c ident = (Inr (ho_next h), ?h)"
    using free by (simp add: make_lease_def)
  ultimately show ?thesis using held by auto
qed

text \<open>What an acquire may do: refuse and change nothing, or hand out a lease of a free host.\<close>

definition acquire_outcome :: "Host \<Rightarrow> conflict_error + nat \<Rightarrow> Host \<Rightarrow> bool" where
  "acquire_outcome h r h' \<longleftrightarrow>
     (case r of
        Inl e \<Rightarrow> h' = h \<and> e \<noteq> ConflictAssertionError
      | Inr l \<Rightarrow> \<not> ho_locked h \<and> ho_locked h' \<and> held_lease h' l)"

lemma acquire_outcome_simps [simp]:
  "acquire_outcome h (Inl e) h' \<longleftrightarrow> h' = h \<and> e \<noteq> ConflictAssertionError"
  "acquire_outcome h (Inr l) h' \<longleftrightarrow> \<not> ho_locked h \<and> ho_locked h' \<and> held_lease h' l"
  by (simp_all add: acquire_outcome_def)

text \<open>A body either refuses and leaves the host alone or makes the lease.\<close>

lemma under_lock_inv:
  assumes "host_inv h" "under_lock h body = Some (r, h')"
    and "\<And>g. (\<exists>e. body g = (Inl (WAWConflictError e), g)) \<or> body g = make_lease g c ident"
  shows "host_inv h' \<and> acquire_outcome h r h'"
proof -
  have free: "\<not> ho_locked h" using assms(2) by (auto simp: under_lock_def split: if_splits)
  have unlocked: "h\<lparr>ho_locked := False\<rparr> = h" using free by (cases h) simp
  show ?thesis
    using assms(3) [of "h\<lparr>ho_locked := True\<rparr>"] make_lease_inv [OF assms(1) free, of c ident]
      assms(1,2) free
    by (auto simp: under_lock_def unlocked)
qed

lemma acquire_waw_inv:
  "host_inv h \<Longrightarrow> acquire_waw_start h c p a cl cx = Some (r, h') \<Longrightarrow> host_inv h' \<and> acquire_outcome h r h'"
  unfolding acquire_waw_start_def
  by (cases "validate_project_id p")
    (auto elim!: under_lock_inv [where c = c and ident = "\<lparr>li_operation = WAW_START,
       li_project_id = Some p, li_agent_type = Some a\<rparr>"] split: option.splits)

lemma acquire_claude_inv:
  "host_inv h \<Longrightarrow> acquire_legacy_claude_start h c p ws = Some (r, h') \<Longrightarrow> host_inv h' \<and> acquire_outcome h r h'"
  unfolding acquire_legacy_claude_start_def
  by (cases "validate_project_id p")
    (auto elim!: under_lock_inv [where c = c and ident = "\<lparr>li_operation = LEGACY_CLAUDE_START,
       li_project_id = Some p, li_agent_type = None\<rparr>"] split: option.splits)

lemma acquire_codex_inv:
  "host_inv h \<Longrightarrow> acquire_legacy_codex_start h c ws = Some (r, h') \<Longrightarrow> host_inv h' \<and> acquire_outcome h r h'"
  unfolding acquire_legacy_codex_start_def
  by (rule under_lock_inv [where c = c and ident = "\<lparr>li_operation = LEGACY_CODEX_START,
       li_project_id = None, li_agent_type = None\<rparr>"]) (auto split: option.splits)

lemma singleton_map_eq [simp]: "[t \<mapsto> x] = [u \<mapsto> y] \<longleftrightarrow> t = u \<and> x = y"
  by (metis fun_upd_same fun_upd_other option.distinct(1) option.inject)

lemma alive_lease: "alive h l lease \<Longrightarrow> ho_leases h l = Some lease"
  by (simp add: alive_def)

lemma host_inv_held:
  assumes "host_inv h" "held_lease h l" "ho_leases h l = Some lease"
  shows "ho_locked h \<and> alive h l lease \<and> (\<forall>m. held_lease h m \<longrightarrow> m = l)"
proof -
  have "ho_locked h" using assms(1,2) unfolding host_inv_def by meson
  then obtain l0 lease0 where "alive h l0 lease0" "\<forall>m. held_lease h m \<longrightarrow> m = l0"
    using assms(1) unfolding host_inv_def by auto
  moreover from this have "l0 = l" using assms(2) by blast
  moreover from calculation have "lease0 = lease" using assms(3) alive_lease [of h l0 lease0] by simp
  ultimately show ?thesis using \<open>ho_locked h\<close> by simp
qed

lemma release_call_inv:
  assumes "host_inv h" "release_call h t l = Some h'" "\<forall>t' pc. ho_calls h t' \<noteq> Some (l, pc)"
  shows "host_inv h'"
proof -
  obtain lease where lease: "ho_leases h l = Some lease" "ho_calls h t = None"
    and h': "h' = (if cl_released lease then h else h\<lparr>ho_calls := (ho_calls h)(t \<mapsto> (l, Mark_released))\<rparr>)"
    using assms(2) by (auto simp: release_call_def split: option.splits)
  show ?thesis
  proof (cases "cl_released lease")
    case True
    then show ?thesis using assms(1) h' by simp
  next
    case False
    then have "held_lease h l" using lease by (simp add: held_lease_def)
    note live = host_inv_held [OF assms(1) this lease(1)]
    have calls: "ho_calls h = Map.empty"
      using live assms(3) False unfolding alive_def by (metis map_upd_Some_unfold)
    have "alive h' l lease"
      using live calls False h' by (auto simp: alive_def)
    moreover have "held_lease h' = held_lease h" "ho_locked h' = ho_locked h"
        "ho_leases h' = ho_leases h" "ho_next h' = ho_next h"
      using h' by (auto simp: held_lease_def fun_eq_iff)
    ultimately show ?thesis
      using assms(1) live unfolding host_inv_def by auto
  qed
qed

lemma release_next_inv:
  assumes "host_inv h" "release_next h t = Some (r, h')"
  shows "host_inv h' \<and> (\<forall>x. r = Some x \<longrightarrow> x = Inr () \<and> \<not> ho_locked h' \<and> ho_calls h' = Map.empty)"
proof -
  obtain l pc where call: "ho_calls h t = Some (l, pc)"
    using assms(2) by (auto simp: release_next_def split: option.splits)
  then have locked: "ho_locked h" using assms(1) by (auto simp: host_inv_def split: if_splits)
  then obtain l0 lease where alive: "alive h l0 lease" and only: "\<And>m. held_lease h m \<Longrightarrow> m = l0"
    and bnd: "\<forall>l. ho_leases h l \<noteq> None \<longrightarrow> l < ho_next h"
    using assms(1) unfolding host_inv_def by auto
  have l: "l0 = l" "ho_leases h l = Some lease" and calls: "ho_calls h = [t \<mapsto> (l, pc)]"
    using alive call unfolding alive_def by (auto split: if_splits)
  have marked: "\<not> held_lease (h\<lparr>ho_calls := cs, ho_leases := (ho_leases h)(l \<mapsto> lease\<lparr>cl_released := True\<rparr>)\<rparr>) m" for cs m
    using only [of m] l by (auto simp: held_lease_def)
  show ?thesis
  proof (cases pc)
    case Mark_released
    let ?lease = "lease\<lparr>cl_released := True\<rparr>"
    have h': "r = None" "h' = h\<lparr>ho_calls := [t \<mapsto> (l, Compare_active)], ho_leases := (ho_leases h)(l \<mapsto> ?lease)\<rparr>"
      using assms(2) l calls Mark_released by (simp_all add: release_next_def Let_def)
    have "alive h' l ?lease" using alive l calls Mark_released h' by (auto simp: alive_def)
    then show ?thesis using h' locked bnd l marked by (auto simp: host_inv_def)
  next
    case Compare_active
    then have h': "r = None" "h' = h\<lparr>ho_calls := [t \<mapsto> (l, Clear_active)]\<rparr>"
      using assms(2) l calls alive by (auto simp: release_next_def Let_def alive_def)
    have "alive h' l lease" using alive l calls Compare_active h' by (auto simp: alive_def)
    moreover have "held_lease h' = held_lease h" using h' by (simp add: held_lease_def fun_eq_iff)
    ultimately show ?thesis using h' locked bnd only l by (auto simp: host_inv_def)
  next
    case Clear_active
    then have h': "r = None" "h' = h\<lparr>ho_calls := [t \<mapsto> (l, Unlock)], ho_active := Map.empty\<rparr>"
      using assms(2) l calls alive by (auto simp: release_next_def Let_def alive_def)
    have "alive h' l lease" using alive l calls Clear_active h' by (auto simp: alive_def)
    moreover have "held_lease h' = held_lease h" using h' by (simp add: held_lease_def fun_eq_iff)
    ultimately show ?thesis using h' locked bnd only l by (auto simp: host_inv_def)
  next
    case Unlock
    then have h': "r = Some (Inr ())" "h' = h\<lparr>ho_calls := Map.empty, ho_locked := False\<rparr>"
      using assms(2) l calls locked by (auto simp: release_next_def Let_def)
    have "cl_released lease" "ho_active h = Map.empty" using alive l calls Unlock by (auto simp: alive_def)
    then have "\<not> held_lease h' m" for m
      using only [of m] l h' by (cases "m = l") (auto simp: held_lease_def)
    then show ?thesis using h' bnd \<open>ho_active h = Map.empty\<close> by (auto simp: host_inv_def)
  qed
qed

lemma host_step_inv: "host_step False h h' \<Longrightarrow> host_inv h \<Longrightarrow> host_inv h'"
  by (induction rule: host_step.induct)
    (auto dest: acquire_waw_inv acquire_claude_inv acquire_codex_inv release_call_inv release_next_inv)

lemma host_reach_inv: "(host_step False)\<^sup>*\<^sup>* new_host h \<Longrightarrow> host_inv h"
  by (induction rule: rtranclp_induct) (auto intro: host_inv_new host_step_inv)

text \<open>A whole release of a lease nobody else is releasing.\<close>

lemma lease_release_inv:
  assumes "host_inv h" "ho_leases h l = Some lease" "ho_calls h = Map.empty"
  shows "\<exists>h'. lease_release h t l = Some (Inr (), h') \<and> \<not> held_lease h' l
    \<and> (held_lease h l \<longrightarrow> \<not> ho_locked h') \<and> (\<not> held_lease h l \<longrightarrow> h' = h)"
proof (cases "cl_released lease")
  case True
  then show ?thesis using assms by (simp add: lease_release_def release_call_def held_lease_def)
next
  case False
  then have held: "held_lease h l" using assms(2) by (simp add: held_lease_def)
  note live = host_inv_held [OF assms(1) this assms(2)]
  have act: "ho_active h = [cl_coordinator lease \<mapsto> l]" using live False by (simp add: alive_def)
  have four: "release_rest 4 g t = release_rest (Suc (Suc (Suc (Suc 0)))) g t" for g
    by (simp add: eval_nat_numeral)
  have "\<exists>h'. lease_release h t l = Some (Inr (), h') \<and> \<not> ho_locked h'
      \<and> ho_leases h' = (ho_leases h)(l \<mapsto> lease\<lparr>cl_released := True\<rparr>)"
    using assms(2,3) False act live
    by (simp add: lease_release_def release_call_def four release_next_def Let_def)
  then show ?thesis using held by (auto simp: held_lease_def)
qed

text \<open>
  Two threads releasing one lease at once: both find the flag clear and the lease active, one
  unlocks, a second start takes the lock, the other thread unlocks again, and a third start gets in.
\<close>

definition race_start :: "nat \<Rightarrow> Host \<Rightarrow> Host" where
  "race_start c h = (case acquire_legacy_codex_start h c (Some []) of None \<Rightarrow> h | Some (_, h') \<Rightarrow> h')"

definition race_call :: "nat \<Rightarrow> Host \<Rightarrow> Host" where
  "race_call t h = (case release_call h t 0 of None \<Rightarrow> h | Some h' \<Rightarrow> h')"

definition race_next :: "nat \<Rightarrow> Host \<Rightarrow> Host" where
  "race_next t h = (case release_next h t of None \<Rightarrow> h | Some (_, h') \<Rightarrow> h')"

lemma race_steps:
  "(host_step True)\<^sup>*\<^sup>* h (race_start c h)" "(host_step True)\<^sup>*\<^sup>* h (race_call t h)"
  "(host_step True)\<^sup>*\<^sup>* h (race_next t h)"
  by (auto simp: race_start_def race_call_def race_next_def split: option.splits
      intro: host_step.intros)

definition race :: "(Host \<Rightarrow> Host) list" where
  "race = [race_start 1, race_call 1, race_call 2, race_next 1, race_next 2, race_next 1, race_next 2,
     race_next 1, race_next 2, race_next 1, race_start 2, race_next 2, race_start 3]"

lemma race_run: "(host_step True)\<^sup>*\<^sup>* new_host (fold id race new_host)"
proof -
  have "(host_step True)\<^sup>*\<^sup>* h (fold id fs h)" if "\<forall>f \<in> set fs. \<forall>h. (host_step True)\<^sup>*\<^sup>* h (f h)" for fs h
    using that by (induction fs arbitrary: h) (auto intro: rtranclp_trans)
  moreover have "\<forall>f \<in> set race. \<forall>h. (host_step True)\<^sup>*\<^sup>* h (f h)"
    by (simp add: race_def race_steps)
  ultimately show ?thesis by blast
qed

lemma race_end: "held_lease (fold id race new_host) 1 \<and> held_lease (fold id race new_host) 2"
  by (simp add: race_def race_start_def race_call_def race_next_def acquire_legacy_codex_start_def under_lock_def
      make_lease_def release_call_def release_next_def new_host_def Let_def held_lease_def)

section \<open>Properties\<close>

text \<open>
  C17. One start at a time on the host. Let coordinators acquire and release in any order, threads
  interleaved at every access to the shared fields, but no lease released by two threads at once.
  Then at most one lease is unreleased; the lock is held exactly while a lease is unreleased or its
  release is under way; each of the three acquires either refuses, without changing anything and
  never by the assertion in \<open>_lease\<close>, or finds the lock free and hands out the one live lease; no
  release raises, and each one that ends has freed the lock; and a release with no other under way
  ends, frees the lock if the lease was live, and does nothing if it was not. The condition is
  needed: \<open>release\<close> reads and sets its flag without a lock, and if two threads release one lease at
  once there is an execution after which two leases are unreleased.
\<close>

theorem host_start_exclusive:
  assumes "(host_step False)\<^sup>*\<^sup>* new_host h"
  shows "(ho_locked h \<longleftrightarrow> (\<exists>l. held_lease h l) \<or> ho_calls h \<noteq> Map.empty)
    \<and> (\<forall>l m. held_lease h l \<and> held_lease h m \<longrightarrow> l = m)
    \<and> (\<forall>c p a cl cx ws r h'.
         acquire_waw_start h c p a cl cx = Some (r, h')
         \<or> acquire_legacy_claude_start h c p ws = Some (r, h')
         \<or> acquire_legacy_codex_start h c ws = Some (r, h') \<longrightarrow>
         (case r of
            Inl e \<Rightarrow> h' = h \<and> e \<noteq> ConflictAssertionError
          | Inr l \<Rightarrow> \<not> ho_locked h \<and> ho_locked h' \<and> held_lease h' l))
    \<and> (\<forall>t r h'. release_next h t = Some (Some r, h') \<longrightarrow> r = Inr () \<and> \<not> ho_locked h')
    \<and> (\<forall>l t. ho_leases h l \<noteq> None \<and> ho_calls h = Map.empty \<longrightarrow>
         (\<exists>h'. lease_release h t l = Some (Inr (), h') \<and> \<not> held_lease h' l
            \<and> (held_lease h l \<longrightarrow> \<not> ho_locked h') \<and> (\<not> held_lease h l \<longrightarrow> h' = h)))
    \<and> (\<exists>g l m. (host_step True)\<^sup>*\<^sup>* new_host g \<and> l \<noteq> m \<and> held_lease g l \<and> held_lease g m)"
proof -
  have inv: "host_inv h" using assms by (rule host_reach_inv)
  have lock: "ho_locked h \<longleftrightarrow> (\<exists>l. held_lease h l) \<or> ho_calls h \<noteq> Map.empty"
    using inv unfolding host_inv_def alive_def held_lease_def by (auto split: if_splits)
  have one: "l = m" if "held_lease h l" "held_lease h m" for l m
    using inv that unfolding host_inv_def by (metis (full_types))
  have acq: "acquire_outcome h r h'"
    if "acquire_waw_start h c p a cl cx = Some (r, h') \<or> acquire_legacy_claude_start h c p ws = Some (r, h')
      \<or> acquire_legacy_codex_start h c ws = Some (r, h')" for c p a cl cx ws r h'
    using that acquire_waw_inv [OF inv] acquire_claude_inv [OF inv] acquire_codex_inv [OF inv] by blast
  have ended: "r = Inr () \<and> \<not> ho_locked h'" if "release_next h t = Some (Some r, h')" for t r h'
    using release_next_inv [OF inv that] by simp
  have rel: "\<exists>h'. lease_release h t l = Some (Inr (), h') \<and> \<not> held_lease h' l
      \<and> (held_lease h l \<longrightarrow> \<not> ho_locked h') \<and> (\<not> held_lease h l \<longrightarrow> h' = h)"
    if "ho_leases h l \<noteq> None" "ho_calls h = Map.empty" for l t
    using that lease_release_inv [OF inv] by blast
  have race: "\<exists>g l m. (host_step True)\<^sup>*\<^sup>* new_host g \<and> l \<noteq> m \<and> held_lease g l \<and> held_lease g m"
    using race_run race_end by (intro exI [of _ "fold id race new_host"] exI [of _ 1] exI [of _ 2]) simp
  show ?thesis
    using lock one acq [unfolded acquire_outcome_def] ended rel race by blast
qed

lemma claude_free: "s \<notin> set CLAUDE_CONFLICT \<longleftrightarrow> s = CL_ABSENT \<or> s = CL_STOPPED \<or> s = CL_EXITED"
  by (cases s) (simp_all add: CLAUDE_CONFLICT_def)

lemma codex_free: "s \<notin> set CODEX_CONFLICT \<longleftrightarrow> s = CX_ABSENT \<or> s = CX_STOPPED \<or> s = CX_EXITED"
  by (cases s) (simp_all add: CODEX_CONFLICT_def)

text \<open>Start decisions while the lock is free and the project id is valid: a workspace start is
  granted exactly when both probes answered and neither legacy agent is in a conflicting state,
  with the project's Claude state deciding the error code before Codex is looked at; a legacy
  start is granted exactly when its probe answered with terminal workspace states only.
\<close>

theorem start_decisions:
  assumes "(host_step False)\<^sup>*\<^sup>* new_host h" "\<not> ho_locked h" "id_matches project_kind p"
  shows "(case acquire_waw_start h c p a cl cx of
        None \<Rightarrow> False
      | Some (r, h') \<Rightarrow>
          r = (if cl \<in> {Some CL_ABSENT, Some CL_STOPPED, Some CL_EXITED}
               then if cx \<in> {Some CX_ABSENT, Some CX_STOPPED, Some CX_EXITED} then Inr (ho_next h)
                    else Inl (WAWConflictError ''CODEX_REMOTE_CONFLICT'')
               else Inl (WAWConflictError ''PROJECT_RUNTIME_ACTIVE'')))
    \<and> (case acquire_legacy_claude_start h c p ws of
        None \<Rightarrow> False
      | Some (r, h') \<Rightarrow>
          r = (if \<exists>xs. ws = Some xs \<and> set xs \<subseteq> {MC_ABSENT, MC_STOPPED, MC_EXITED} then Inr (ho_next h)
               else Inl (WAWConflictError ''PROJECT_RUNTIME_ACTIVE'')))
    \<and> (case acquire_legacy_codex_start h c ws of
        None \<Rightarrow> False
      | Some (r, h') \<Rightarrow>
          r = (if \<exists>xs. ws = Some xs \<and> set xs \<subseteq> {MC_ABSENT, MC_STOPPED, MC_EXITED} then Inr (ho_next h)
               else Inl (WAWConflictError ''CODEX_REMOTE_CONFLICT'')))"
proof -
  have inv: "host_inv h" using assms(1) by (rule host_reach_inv)
  have v: "validate_project_id p = Inr p" using assms(3) by (rule validators_ok)
  have mk: "\<exists>h'. make_lease (h\<lparr>ho_locked := True\<rparr>) c i = (Inr (ho_next h), h')" for i
    using make_lease_inv [OF inv assms(2)] by blast
  have claude: "(\<exists>s. cl = Some s \<and> s \<notin> set CLAUDE_CONFLICT) \<longleftrightarrow> cl \<in> {Some CL_ABSENT, Some CL_STOPPED, Some CL_EXITED}"
    by (auto simp: claude_free)
  have codex: "(\<exists>s. cx = Some s \<and> s \<notin> set CODEX_CONFLICT) \<longleftrightarrow> cx \<in> {Some CX_ABSENT, Some CX_STOPPED, Some CX_EXITED}"
    by (auto simp: codex_free)
  have terminal: "set WAW_TERMINAL = {MC_ABSENT, MC_STOPPED, MC_EXITED}" by (simp add: WAW_TERMINAL_def)
  have "case acquire_waw_start h c p a cl cx of None \<Rightarrow> False
      | Some (r, h') \<Rightarrow>
          r = (if \<exists>s. cl = Some s \<and> s \<notin> set CLAUDE_CONFLICT
               then if \<exists>s. cx = Some s \<and> s \<notin> set CODEX_CONFLICT then Inr (ho_next h)
                    else Inl (WAWConflictError ''CODEX_REMOTE_CONFLICT'')
               else Inl (WAWConflictError ''PROJECT_RUNTIME_ACTIVE''))"
    using assms(2) mk [of "\<lparr>li_operation = WAW_START, li_project_id = Some p, li_agent_type = Some a\<rparr>"] v
    by (auto simp: acquire_waw_start_def under_lock_def split: option.splits)
  then show ?thesis
    unfolding claude codex acquire_legacy_claude_start_def acquire_legacy_codex_start_def v under_lock_def
    using assms(2) mk [of "\<lparr>li_operation = LEGACY_CLAUDE_START, li_project_id = Some p, li_agent_type = None\<rparr>"]
      mk [of "\<lparr>li_operation = LEGACY_CODEX_START, li_project_id = None, li_agent_type = None\<rparr>"]
    by (auto simp: terminal subset_iff split: option.splits)
qed

lemma sample_project: "id_matches project_kind (lit ''prj_00000000000000000000000000000000'')"
  by (simp add: id_matches_def lit_def is_hex_def)

theorem start_decisions_witness:
  "\<exists>h'. acquire_waw_start new_host 1 (lit ''prj_00000000000000000000000000000000'') CODEX
     (Some CL_STOPPED) (Some CX_ABSENT) = Some (Inr 0, h')"
proof -
  have "\<not> ho_locked new_host" "ho_next new_host = 0" by (simp_all add: new_host_def)
  then show ?thesis
    using start_decisions [OF rtranclp.rtrancl_refl _ sample_project, where c = 1
        and a = CODEX and cl = "Some CL_STOPPED" and cx = "Some CX_ABSENT" and ws = None]
    by (auto split: option.splits)
qed

theorem host_start_exclusive_witness:
  "\<exists>h'. acquire_waw_start new_host 1 (lit ''prj_00000000000000000000000000000000'') CODEX
     (Some CL_STOPPED) (Some CX_ABSENT) = Some (Inr 0, h') \<and> ho_locked h'
     \<and> acquire_legacy_codex_start h' 2 (Some []) = None
     \<and> (\<exists>h''. lease_release h' 7 0 = Some (Inr (), h'') \<and> \<not> ho_locked h'')"
proof -
  obtain h' where h': "acquire_waw_start new_host 1 (lit ''prj_00000000000000000000000000000000'') CODEX
     (Some CL_STOPPED) (Some CX_ABSENT) = Some (Inr 0, h')" "ho_calls h' = Map.empty"
    using sample_project by (auto simp: acquire_waw_start_def validators_ok under_lock_def make_lease_def
        new_host_def CLAUDE_CONFLICT_def CODEX_CONFLICT_def)
  then have reach: "(host_step False)\<^sup>*\<^sup>* new_host h'" by (intro r_into_rtranclp host_step.waw)
  note granted = host_start_exclusive [OF rtranclp.rtrancl_refl, THEN conjunct2, THEN conjunct2,
      THEN conjunct1, rule_format, OF disjI1, OF h'(1)]
  have held: "held_lease h' 0" and locked: "ho_locked h'" using granted by simp_all
  have known: "ho_leases h' 0 \<noteq> None" using held by (auto simp: held_lease_def)
  obtain h'' where h'': "lease_release h' 7 0 = Some (Inr (), h'')" "\<not> ho_locked h''" "\<not> held_lease h'' 0"
    using host_start_exclusive [OF reach, THEN conjunct2, THEN conjunct2, THEN conjunct2, THEN conjunct2,
        THEN conjunct1, rule_format, of 0 7] known h'(2) held by blast
  have "acquire_legacy_codex_start h' 2 (Some []) = None"
    using locked by (simp add: acquire_legacy_codex_start_def under_lock_def)
  then show ?thesis using h' locked h'' by blast
qed

end
