(* ===== verification/Awce.thy ===== *)
theory Awce
  imports Prelude
begin

text \<open>
  The AWCE v1 envelope codec (\<open>agentbox_protocol/awce.py\<close>). The constructor and the header
  encoder take arguments typed \<open>object\<close>; a \<open>pyobj\<close> is such an argument, and the type tests of
  the code are the case distinctions on it. The header is \<open>struct.Struct("!4sBBHQQI16s")\<close>: the
  big-endian fields written out in order.
\<close>

definition AWCE_MAGIC :: bytes where "AWCE_MAGIC = ascii ''AWCE''"
definition AWCE_VERSION :: int where "AWCE_VERSION = 1"
definition AWCE_HEADER_SIZE :: nat where "AWCE_HEADER_SIZE = 44"
definition AUTH_TAG_SIZE :: int where "AUTH_TAG_SIZE = 16"
definition MIN_PLAINTEXT_SIZE :: int where "MIN_PLAINTEXT_SIZE = 1"
definition MAX_PLAINTEXT_SIZE :: int where "MAX_PLAINTEXT_SIZE = 49152"
definition MIN_CIPHERTEXT_SIZE :: int where "MIN_CIPHERTEXT_SIZE = MIN_PLAINTEXT_SIZE + AUTH_TAG_SIZE"
definition MAX_CIPHERTEXT_SIZE :: int where "MAX_CIPHERTEXT_SIZE = MAX_PLAINTEXT_SIZE + AUTH_TAG_SIZE"
definition MAX_ENVELOPE_SIZE :: int where
  "MAX_ENVELOPE_SIZE = int AWCE_HEADER_SIZE + MAX_CIPHERTEXT_SIZE"
definition CONTEXT_ID_SIZE :: nat where "CONTEXT_ID_SIZE = 16"
definition INPUT_DIRECTION :: int where "INPUT_DIRECTION = 1"
definition OUTPUT_DIRECTION :: int where "OUTPUT_DIRECTION = 2"
definition MIN_TERMINAL_SEQUENCE :: int where "MIN_TERMINAL_SEQUENCE = 1"
definition MAX_TERMINAL_SEQUENCE :: int where "MAX_TERMINAL_SEQUENCE = 0xFFFFFFFFFFFFFFFE"
definition MIN_AWCE_CURSOR :: int where "MIN_AWCE_CURSOR = 1"
definition MAX_AWCE_CURSOR :: int where "MAX_AWCE_CURSOR = 0xFFFFFFFFFFFFFFFE"

lemmas awce_limits = AWCE_MAGIC_def AWCE_VERSION_def AWCE_HEADER_SIZE_def AUTH_TAG_SIZE_def
  MIN_PLAINTEXT_SIZE_def MAX_PLAINTEXT_SIZE_def MIN_CIPHERTEXT_SIZE_def MAX_CIPHERTEXT_SIZE_def
  MAX_ENVELOPE_SIZE_def CONTEXT_ID_SIZE_def INPUT_DIRECTION_def OUTPUT_DIRECTION_def
  MIN_TERMINAL_SEQUENCE_def MAX_TERMINAL_SEQUENCE_def MIN_AWCE_CURSOR_def MAX_AWCE_CURSOR_def

datatype awce_error = AWCEError string | IncompleteAWCE string | TrailingAWCEBytes string
  | AwceTypeError string

datatype pyobj = PyInt int | PyBool bool | PyBytes bytes | PyOther

fun require_exact_uint :: "pyobj \<Rightarrow> string \<Rightarrow> int \<Rightarrow> int \<Rightarrow> awce_error + int" where
  "require_exact_uint (PyInt v) name maximum minimum =
     (if v < minimum \<or> v > maximum then Inl (AWCEError (name @ '' is invalid'')) else Inr v)"
| "require_exact_uint _ name maximum minimum = Inl (AWCEError (name @ '' is invalid''))"

fun require_bytes :: "pyobj \<Rightarrow> string \<Rightarrow> nat option \<Rightarrow> awce_error + bytes" where
  "require_bytes (PyBytes bs) name len =
     (if len \<noteq> None \<and> length bs \<noteq> the len then Inl (AWCEError (name @ '' is invalid'')) else Inr bs)"
| "require_bytes _ name len = Inl (AWCEError (name @ '' is invalid''))"

type_synonym awce_header = "int \<times> int \<times> int \<times> int \<times> int \<times> int \<times> bytes"

definition validate_header_fields ::
  "pyobj \<Rightarrow> pyobj \<Rightarrow> pyobj \<Rightarrow> pyobj \<Rightarrow> pyobj \<Rightarrow> pyobj \<Rightarrow> pyobj \<Rightarrow> awce_error + awce_header" where
  "validate_header_fields version direction_id flags crypto_sequence stream_cursor context_id
       ciphertext_length =
     (if version \<noteq> PyInt AWCE_VERSION then Inl (AWCEError ''unsupported AWCE version'')
      else
      ebind (require_exact_uint direction_id ''AWCE direction'' 0xFF 0) (\<lambda>direction.
      if direction \<notin> {INPUT_DIRECTION, OUTPUT_DIRECTION}
      then Inl (AWCEError ''unknown AWCE direction'')
      else
      ebind (require_exact_uint flags ''AWCE flags'' 0xFFFF 0) (\<lambda>fl.
      if fl \<noteq> 0 then Inl (AWCEError ''AWCE flags are reserved and must be zero'')
      else
      ebind (require_exact_uint crypto_sequence ''AWCE crypto_sequence'' MAX_TERMINAL_SEQUENCE
               MIN_TERMINAL_SEQUENCE) (\<lambda>seq.
      ebind (require_exact_uint stream_cursor ''AWCE stream_cursor'' MAX_AWCE_CURSOR 0) (\<lambda>cursor.
      if direction = INPUT_DIRECTION \<and> cursor \<noteq> 0
         \<or> direction = OUTPUT_DIRECTION \<and> cursor < MIN_AWCE_CURSOR
      then Inl (AWCEError ''AWCE stream_cursor is invalid for its direction'')
      else
      ebind (require_bytes context_id ''AWCE context_id'' (Some CONTEXT_ID_SIZE)) (\<lambda>ctx.
      ebind (require_exact_uint ciphertext_length ''AWCE ciphertext length'' MAX_CIPHERTEXT_SIZE 0) (\<lambda>len.
      if len < MIN_CIPHERTEXT_SIZE
      then Inl (AWCEError ''AWCE ciphertext length is outside the v1 limit'')
      else Inr (AWCE_VERSION, direction, fl, seq, cursor, len, ctx))))))))"

record AWCEEnvelope =
  ae_version :: int
  ae_direction_id :: int
  ae_flags :: int
  ae_crypto_sequence :: int
  ae_stream_cursor :: int
  ae_context_id :: bytes
  ae_ciphertext :: bytes

definition validate_fields ::
  "pyobj \<Rightarrow> pyobj \<Rightarrow> pyobj \<Rightarrow> pyobj \<Rightarrow> pyobj \<Rightarrow> pyobj \<Rightarrow> pyobj \<Rightarrow> awce_error + awce_header" where
  "validate_fields version direction_id flags crypto_sequence stream_cursor context_id ciphertext =
     ebind (require_bytes ciphertext ''AWCE ciphertext'' None) (\<lambda>ct.
       validate_header_fields version direction_id flags crypto_sequence stream_cursor context_id
         (PyInt (int (length ct))))"

text \<open>The constructor on arguments of the declared types; other objects fail in \<open>validate_fields\<close>.\<close>

definition AWCEEnvelope_init :: "AWCEEnvelope \<Rightarrow> awce_error + AWCEEnvelope" where
  "AWCEEnvelope_init e =
     ebind (validate_fields (PyInt (ae_version e)) (PyInt (ae_direction_id e)) (PyInt (ae_flags e))
              (PyInt (ae_crypto_sequence e)) (PyInt (ae_stream_cursor e))
              (PyBytes (ae_context_id e)) (PyBytes (ae_ciphertext e)))
       (\<lambda>_. Inr e)"

definition ciphertext_length :: "AWCEEnvelope \<Rightarrow> int" where
  "ciphertext_length e = int (length (ae_ciphertext e))"

definition pack_awce_header :: "awce_header \<Rightarrow> bytes" where
  "pack_awce_header h =
     (case h of (version, direction, flags, seq, cursor, len, ctx) \<Rightarrow>
        AWCE_MAGIC @ be_bytes 1 (nat version) @ be_bytes 1 (nat direction) @ be_bytes 2 (nat flags)
          @ be_bytes 8 (nat seq) @ be_bytes 8 (nat cursor) @ be_bytes 4 (nat len) @ ctx)"

definition encode_awce_header ::
  "pyobj \<Rightarrow> pyobj \<Rightarrow> pyobj \<Rightarrow> pyobj \<Rightarrow> pyobj \<Rightarrow> pyobj \<Rightarrow> pyobj \<Rightarrow> awce_error + bytes" where
  "encode_awce_header version direction_id flags crypto_sequence stream_cursor context_id len =
     ebind (validate_header_fields version direction_id flags crypto_sequence stream_cursor
              context_id len) (\<lambda>h. Inr (pack_awce_header h))"

definition encode_awce :: "AWCEEnvelope \<Rightarrow> awce_error + bytes" where
  "encode_awce e =
     ebind (encode_awce_header (PyInt (ae_version e)) (PyInt (ae_direction_id e))
              (PyInt (ae_flags e)) (PyInt (ae_crypto_sequence e)) (PyInt (ae_stream_cursor e))
              (PyBytes (ae_context_id e)) (PyInt (ciphertext_length e)))
       (\<lambda>header. Inr (header @ ae_ciphertext e))"

text \<open>\<open>_HEADER.unpack\<close> on 44 bytes: the fields at their offsets.\<close>

definition decode_awce :: "pyobj \<Rightarrow> awce_error + AWCEEnvelope" where
  "decode_awce obj =
     (case obj of
        PyBytes d \<Rightarrow>
          if length d < AWCE_HEADER_SIZE then Inl (IncompleteAWCE ''AWCE header is incomplete'')
          else if int (length d) > MAX_ENVELOPE_SIZE
          then Inl (AWCEError ''AWCE envelope exceeds the v1 limit'')
          else if take 4 d \<noteq> AWCE_MAGIC then Inl (AWCEError ''invalid AWCE magic'')
          else let len = be_field 24 4 d
          in if len < MIN_CIPHERTEXT_SIZE \<or> len > MAX_CIPHERTEXT_SIZE
          then Inl (AWCEError ''AWCE ciphertext length is outside the v1 limit'')
          else if int (length d) < int AWCE_HEADER_SIZE + len
          then Inl (IncompleteAWCE ''AWCE ciphertext is incomplete'')
          else if int (length d) > int AWCE_HEADER_SIZE + len
          then Inl (TrailingAWCEBytes ''AWCE single-envelope decode has trailing bytes'')
          else AWCEEnvelope_init \<lparr>ae_version = be_field 4 1 d, ae_direction_id = be_field 5 1 d,
                 ae_flags = be_field 6 2 d, ae_crypto_sequence = be_field 8 8 d,
                 ae_stream_cursor = be_field 16 8 d, ae_context_id = take 16 (drop 28 d),
                 ae_ciphertext = drop AWCE_HEADER_SIZE d\<rparr>
      | _ \<Rightarrow> Inl (AwceTypeError ''AWCE envelope must be bytes''))"

section \<open>Round trips\<close>

definition awce_valid :: "AWCEEnvelope \<Rightarrow> bool" where
  "awce_valid e \<longleftrightarrow>
     ae_version e = 1 \<and> ae_flags e = 0
     \<and> (ae_direction_id e = 1 \<and> ae_stream_cursor e = 0
        \<or> ae_direction_id e = 2 \<and> 1 \<le> ae_stream_cursor e \<and> ae_stream_cursor e \<le> 0xFFFFFFFFFFFFFFFE)
     \<and> 1 \<le> ae_crypto_sequence e \<and> ae_crypto_sequence e \<le> 0xFFFFFFFFFFFFFFFE
     \<and> length (ae_context_id e) = 16
     \<and> 17 \<le> length (ae_ciphertext e) \<and> length (ae_ciphertext e) \<le> 49168"

lemma awce_init_iff: "AWCEEnvelope_init e = Inr e' \<longleftrightarrow> e' = e \<and> awce_valid e"
  by (auto simp: AWCEEnvelope_init_def validate_fields_def validate_header_fields_def result_simps
      awce_limits awce_valid_def split: if_splits)

lemma awce_header_valid:
  "awce_valid e \<Longrightarrow>
   validate_header_fields (PyInt (ae_version e)) (PyInt (ae_direction_id e)) (PyInt (ae_flags e))
     (PyInt (ae_crypto_sequence e)) (PyInt (ae_stream_cursor e)) (PyBytes (ae_context_id e))
     (PyInt (ciphertext_length e)) =
   Inr (1, ae_direction_id e, 0, ae_crypto_sequence e, ae_stream_cursor e, ciphertext_length e,
     ae_context_id e)"
  by (auto simp: validate_header_fields_def awce_limits awce_valid_def ciphertext_length_def)

definition awce_bytes :: "AWCEEnvelope \<Rightarrow> bytes" where
  "awce_bytes e =
     pack_awce_header (1, ae_direction_id e, 0, ae_crypto_sequence e, ae_stream_cursor e,
       ciphertext_length e, ae_context_id e) @ ae_ciphertext e"

lemma encode_awce_valid: "awce_valid e \<Longrightarrow> encode_awce e = Inr (awce_bytes e)"
  by (simp add: encode_awce_def encode_awce_header_def awce_header_valid awce_bytes_def)

lemma length_awce_bytes [simp]:
  "length (ae_context_id e) = 16 \<Longrightarrow> length (awce_bytes e) = 44 + length (ae_ciphertext e)"
  by (simp add: awce_bytes_def pack_awce_header_def awce_limits ascii_def)

lemma decode_awce_bytes:
  assumes "awce_valid e"
  shows "decode_awce (PyBytes (awce_bytes e)) = Inr e"
proof -
  have fields: "be_field 4 1 (awce_bytes e) = 1" "be_field 5 1 (awce_bytes e) = ae_direction_id e"
    "be_field 6 2 (awce_bytes e) = 0" "be_field 8 8 (awce_bytes e) = ae_crypto_sequence e"
    "be_field 16 8 (awce_bytes e) = ae_stream_cursor e"
    "be_field 24 4 (awce_bytes e) = int (length (ae_ciphertext e))"
    using assms
    by (auto simp: be_field_def awce_bytes_def pack_awce_header_def awce_limits ascii_def
        be_val_be_bytes awce_valid_def ciphertext_length_def)
  have parts: "take 4 (awce_bytes e) = AWCE_MAGIC" "take 16 (drop 28 (awce_bytes e)) = ae_context_id e"
    "drop 44 (awce_bytes e) = ae_ciphertext e"
    using assms
    by (simp_all add: awce_bytes_def pack_awce_header_def awce_limits ascii_def awce_valid_def)
  have init: "AWCEEnvelope_init e = Inr e"
    using assms by (simp add: awce_init_iff)
  have self: "\<lparr>ae_version = 1, ae_direction_id = ae_direction_id e, ae_flags = 0,
      ae_crypto_sequence = ae_crypto_sequence e, ae_stream_cursor = ae_stream_cursor e,
      ae_context_id = ae_context_id e, ae_ciphertext = ae_ciphertext e\<rparr> = e"
    using assms by (simp add: awce_valid_def)
  have len: "length (awce_bytes e) = 44 + length (ae_ciphertext e)"
    "17 \<le> length (ae_ciphertext e)" "length (ae_ciphertext e) \<le> 49168"
    using assms by (simp_all add: awce_valid_def)
  show ?thesis
    using len
    by (simp add: decode_awce_def fields parts init self Let_def awce_limits(3-9) del: One_nat_def)
qed

text \<open>A 44-byte header is the concatenation of its fields.\<close>

lemma awce_header_split:
  "d = take 4 d @ take 1 (drop 4 d) @ take 1 (drop 5 d) @ take 2 (drop 6 d) @ take 8 (drop 8 d)
     @ take 8 (drop 16 d) @ take 4 (drop 24 d) @ take 16 (drop 28 d) @ drop 44 d"
proof -
  have cut: "drop m d = take n (drop m d) @ drop (m + n) d" for m n
    by (metis add.commute append_take_drop_id drop_drop)
  show ?thesis
    using cut [of 0 4] cut [of 4 1] cut [of 5 1] cut [of 6 2] cut [of 8 8] cut [of 16 8]
      cut [of 24 4] cut [of 28 16] by simp
qed

lemma decode_awce_canonical:
  assumes "decode_awce (PyBytes d) = Inr e"
  shows "awce_valid e \<and> awce_bytes e = d"
proof -
  let ?e = "\<lparr>ae_version = be_field 4 1 d, ae_direction_id = be_field 5 1 d,
    ae_flags = be_field 6 2 d, ae_crypto_sequence = be_field 8 8 d,
    ae_stream_cursor = be_field 16 8 d, ae_context_id = take 16 (drop 28 d),
    ae_ciphertext = drop 44 d\<rparr>"
  have d: "44 \<le> length d" "take 4 d = AWCE_MAGIC" "int (length d) = 44 + be_field 24 4 d"
    and init: "AWCEEnvelope_init ?e = Inr e"
    using assms by (auto simp: decode_awce_def Let_def AWCE_HEADER_SIZE_def split: if_splits)
  have e: "e = ?e" "awce_valid ?e"
    using init by (auto simp: awce_init_iff)
  have v: "1 = be_field 4 1 d" "0 = be_field 6 2 d"
    using e(2) by (simp_all add: awce_valid_def)
  have len: "ciphertext_length ?e = be_field 24 4 d"
    using d by (simp add: ciphertext_length_def)
  have "awce_bytes ?e = d"
    unfolding awce_bytes_def pack_awce_header_def len prod.case v
    by (rule trans [OF _ awce_header_split [of d, symmetric]], use d(1) in
        \<open>simp add: be_bytes_be_field d(2) del: One_nat_def\<close>)
  then show ?thesis
    using e by simp
qed

interpretation awce_codec: canonical_codec awce_valid awce_bytes "\<lambda>d. decode_awce (PyBytes d)"
  by unfold_locales (simp_all add: decode_awce_bytes decode_awce_canonical)

lemma awce_bytes_length_field:
  assumes "awce_valid e"
  shows "be_field 24 4 (awce_bytes e) = int (length (ae_ciphertext e))" "take 4 (awce_bytes e) = AWCE_MAGIC"
  using assms
  by (auto simp: be_field_def awce_bytes_def pack_awce_header_def awce_limits ascii_def
      be_val_be_bytes awce_valid_def ciphertext_length_def)

section \<open>Properties\<close>

text \<open>
  C11. The AWCE codec is an exact round trip in both directions: a byte string decodes to an
  envelope exactly when the envelope passes its own constructor and encodes to that very byte
  string. So every constructible envelope survives encoding and decoding, and no byte string
  other than its encoding decodes to it.
\<close>

theorem awce_roundtrip:
  "decode_awce (PyBytes d) = Inr e \<longleftrightarrow> AWCEEnvelope_init e = Inr e \<and> encode_awce e = Inr d"
  using awce_codec.dec_iff encode_awce_valid awce_init_iff by fastforce

text \<open>The single-envelope decoder tells truncation from excess: every proper prefix of an
  encoded envelope is rejected as incomplete, and an encoded envelope followed by further bytes,
  within the envelope size limit, is rejected for its trailing bytes.
\<close>

theorem awce_framing_errors:
  assumes "encode_awce e = Inr d"
  shows "(\<forall>k. k < length d \<longrightarrow> (\<exists>m. decode_awce (PyBytes (take k d)) = Inl (IncompleteAWCE m)))
    \<and> (\<forall>x. x \<noteq> [] \<and> int (length (d @ x)) \<le> MAX_ENVELOPE_SIZE \<longrightarrow>
         (\<exists>m. decode_awce (PyBytes (d @ x)) = Inl (TrailingAWCEBytes m)))"
proof -
  have e: "awce_valid e"
    using assms
    by (auto simp: encode_awce_def encode_awce_header_def validate_header_fields_def result_simps
        awce_limits awce_valid_def ciphertext_length_def split: if_splits)
  then have d: "d = awce_bytes e" and len: "length d = 44 + length (ae_ciphertext e)"
    "17 \<le> length (ae_ciphertext e)" "length (ae_ciphertext e) \<le> 49168"
    using assms by (auto simp: encode_awce_valid awce_valid_def)
  note field = awce_bytes_length_field [OF e, folded d]
  have "\<exists>m. decode_awce (PyBytes (take k d)) = Inl (IncompleteAWCE m)" if "k < length d" for k
    using that len field
    by (cases "k < 44") (simp_all add: decode_awce_def Let_def awce_limits(3-9) be_field_take min_def)
  moreover have "\<exists>m. decode_awce (PyBytes (d @ x)) = Inl (TrailingAWCEBytes m)"
    if "x \<noteq> []" "int (length (d @ x)) \<le> MAX_ENVELOPE_SIZE" for x
    using that len field
    by (simp add: decode_awce_def Let_def awce_limits(3-9) be_field_append)
  ultimately show ?thesis
    by blast
qed

definition sample_envelope :: AWCEEnvelope where
  "sample_envelope = \<lparr>ae_version = 1, ae_direction_id = 2, ae_flags = 0, ae_crypto_sequence = 7,
     ae_stream_cursor = 9, ae_context_id = replicate 16 0xAB, ae_ciphertext = replicate 17 0xCD\<rparr>"

lemma sample_envelope_encodes: "encode_awce sample_envelope = Inr (awce_bytes sample_envelope)"
  "length (awce_bytes sample_envelope) = 61"
  by (simp_all add: encode_awce_valid awce_valid_def sample_envelope_def)

theorem awce_framing_errors_witness:
  "(\<exists>m. decode_awce (PyBytes (take 60 (awce_bytes sample_envelope))) = Inl (IncompleteAWCE m))
   \<and> (\<exists>m. decode_awce (PyBytes (awce_bytes sample_envelope @ [0])) = Inl (TrailingAWCEBytes m))"
  using awce_framing_errors [OF sample_envelope_encodes(1)]
  by (simp add: sample_envelope_encodes(2) awce_limits(3-9))

end
