(* ===== verification/Abws.thy ===== *)
theory Abws
  imports Prelude Py_Utf8 Py_Json
begin

text \<open>
  The ABWS v1 frame codec and its incremental parser (\<open>agentbox_protocol/abws.py\<close>). A frame is a
  24-byte header \<open>struct.Struct("!4sBBHIQI")\<close> and a payload: opaque bytes for \<open>INPUT\<close> and \<open>OUTPUT\<close>,
  a strict JSON object for every other type. A payload handed to the encoder is bytes or a dict.
  JSON nested beyond the interpreter's recursion limit is rejected there as malformed and here by
  the depth limit; both are an \<open>ABWSError\<close>.
\<close>

definition ABWS_MAGIC :: bytes where "ABWS_MAGIC = ascii ''ABWS''"
definition ABWS_VERSION :: int where "ABWS_VERSION = 1"
definition HEADER_SIZE :: nat where "HEADER_SIZE = 24"
definition MAX_PAYLOAD :: int where "MAX_PAYLOAD = 65512"
definition MAX_WAW_PAYLOAD :: int where "MAX_WAW_PAYLOAD = 49212"
definition MAX_JSON_PAYLOAD :: nat where "MAX_JSON_PAYLOAD = 4096"
definition MAX_JSON_DEPTH :: nat where "MAX_JSON_DEPTH = 16"
definition MAX_JSON_KEYS :: int where "MAX_JSON_KEYS = 64"
definition MAX_FRAME :: nat where "MAX_FRAME = HEADER_SIZE + 65512"

lemmas abws_limits = ABWS_VERSION_def HEADER_SIZE_def MAX_PAYLOAD_def MAX_WAW_PAYLOAD_def
  MAX_JSON_PAYLOAD_def MAX_FRAME_def

datatype FrameType = WS_HELLO | RUNTIME_HELLO | KEY_INIT | KEY_ATTEST | KEY_CONFIRM
  | KEY_CONFIRM_ACK | HELLO_ACK | ADMITTED | INPUT | OUTPUT | RESIZE | HEARTBEAT | PING | PONG
  | DETACH | EXIT | GAP | ACK | FT_ERROR | CLOSE | STATE | STREAM_READY | STREAM_READY_ACK
  | ADMISSION_COMMIT | ADMISSION_COMMIT_ACK | RESIZE_ACK | DETACH_ACK

definition frame_types :: "FrameType list" where
  "frame_types = [WS_HELLO, RUNTIME_HELLO, KEY_INIT, KEY_ATTEST, KEY_CONFIRM, KEY_CONFIRM_ACK,
     HELLO_ACK, ADMITTED, INPUT, OUTPUT, RESIZE, HEARTBEAT, PING, PONG, DETACH, EXIT, GAP, ACK,
     FT_ERROR, CLOSE, STATE, STREAM_READY, STREAM_READY_ACK, ADMISSION_COMMIT,
     ADMISSION_COMMIT_ACK, RESIZE_ACK, DETACH_ACK]"

fun frame_code :: "FrameType \<Rightarrow> int" where
  "frame_code WS_HELLO = 1" | "frame_code RUNTIME_HELLO = 2" | "frame_code KEY_INIT = 3"
| "frame_code KEY_ATTEST = 4" | "frame_code KEY_CONFIRM = 5" | "frame_code KEY_CONFIRM_ACK = 6"
| "frame_code HELLO_ACK = 7" | "frame_code ADMITTED = 8" | "frame_code INPUT = 9"
| "frame_code OUTPUT = 10" | "frame_code RESIZE = 11" | "frame_code HEARTBEAT = 12"
| "frame_code PING = 13" | "frame_code PONG = 14" | "frame_code DETACH = 15"
| "frame_code EXIT = 16" | "frame_code GAP = 17" | "frame_code ACK = 18"
| "frame_code FT_ERROR = 19" | "frame_code CLOSE = 20" | "frame_code STATE = 21"
| "frame_code STREAM_READY = 22" | "frame_code STREAM_READY_ACK = 23"
| "frame_code ADMISSION_COMMIT = 24" | "frame_code ADMISSION_COMMIT_ACK = 25"
| "frame_code RESIZE_ACK = 26" | "frame_code DETACH_ACK = 27"

definition OPAQUE_TYPES :: "FrameType set" where "OPAQUE_TYPES = {INPUT, OUTPUT}"

datatype abws_error = ABWSError string | IncompleteFrame string | TrailingBytes string
  | AbwsTypeError string

text \<open>A string at its depth in \<open>_validate_json_value\<close>, be it a value or a key.\<close>

definition validate_json_str :: "nat \<Rightarrow> pystr \<Rightarrow> abws_error + unit" where
  "validate_json_str depth s =
     (if depth > MAX_JSON_DEPTH then Inl (ABWSError ''JSON nesting exceeds ABWS control limit'')
      else if list_ex is_surrogate s
      then Inl (ABWSError ''unpaired UTF-16 surrogate is not permitted'')
      else Inr ())"

fun validate_json_value :: "json \<Rightarrow> nat \<Rightarrow> int \<Rightarrow> abws_error + int"
  and validate_json_items :: "json list \<Rightarrow> nat \<Rightarrow> int \<Rightarrow> abws_error + int"
  and validate_json_pairs :: "(pystr \<times> json) list \<Rightarrow> nat \<Rightarrow> int \<Rightarrow> abws_error + int" where
  "validate_json_value v depth key_count =
     (if depth > MAX_JSON_DEPTH then Inl (ABWSError ''JSON nesting exceeds ABWS control limit'')
      else case v of
        JStr s \<Rightarrow> ebind (validate_json_str depth s) (\<lambda>_. Inr key_count)
      | JObj ps \<Rightarrow> validate_json_pairs ps depth key_count
      | JArr vs \<Rightarrow> validate_json_items vs depth key_count
      | _ \<Rightarrow> Inr key_count)"
| "validate_json_items [] depth key_count = Inr key_count"
| "validate_json_items (v # vs) depth key_count =
     ebind (validate_json_value v (depth + 1) key_count) (\<lambda>kc. validate_json_items vs depth kc)"
| "validate_json_pairs [] depth key_count = Inr key_count"
| "validate_json_pairs ((k, v) # ps) depth key_count =
     (if key_count + 1 > MAX_JSON_KEYS
      then Inl (ABWSError ''JSON object key count exceeds ABWS control limit'')
      else ebind (validate_json_str (depth + 1) k) (\<lambda>_.
        ebind (validate_json_value v (depth + 1) (key_count + 1)) (\<lambda>kc.
          validate_json_pairs ps depth kc)))"

definition requires_version :: "(pystr \<times> json) list \<Rightarrow> bool" where
  "requires_version ps \<longleftrightarrow> map_of ps (lit ''protocol_version'') = Some (JInt 1)"

definition decode_json :: "bytes \<Rightarrow> abws_error + (pystr \<times> json) list" where
  "decode_json payload =
     (if length payload > MAX_JSON_PAYLOAD
      then Inl (ABWSError ''JSON payload exceeds ABWS control limit'')
      else case utf8_decode payload of
        None \<Rightarrow> Inl (ABWSError ''JSON payload is not valid UTF-8'')
      | Some text \<Rightarrow>
          (case json_loads text of
             Inl (JConstant c) \<Rightarrow> Inl (ABWSError (''JSON constant is not permitted: '' @ c))
           | Inl JDuplicate \<Rightarrow> Inl (ABWSError ''duplicate JSON object key'')
           | Inl _ \<Rightarrow> Inl (ABWSError ''JSON payload is malformed'')
           | Inr (JObj ps) \<Rightarrow>
               ebind (validate_json_value (JObj ps) 0 0) (\<lambda>_.
                 if \<not> requires_version ps
                 then Inl (ABWSError ''ABWS control payload requires protocol_version=1'')
                 else Inr ps)
           | Inr _ \<Rightarrow> Inl (ABWSError ''ABWS control payload must be a JSON object'')))"

definition encode_json :: "(pystr \<times> json) list \<Rightarrow> abws_error + bytes" where
  "encode_json ps =
     (if \<not> requires_version ps
      then Inl (ABWSError ''ABWS control payload requires protocol_version=1'')
      else ebind (validate_json_value (JObj ps) 0 0) (\<lambda>_.
        case Option.bind (json_dumps (JObj ps)) utf8_encode of
          None \<Rightarrow> Inl (ABWSError ''ABWS control payload is not strict JSON'')
        | Some data \<Rightarrow>
            if length data > MAX_JSON_PAYLOAD
            then Inl (ABWSError ''JSON payload exceeds ABWS control limit'')
            else Inr data))"

record ABWSFrame =
  fr_type :: FrameType
  fr_sequence :: int
  fr_payload :: bytes
  fr_json :: "(pystr \<times> json) list option"

definition coerce_type :: "int \<Rightarrow> abws_error + FrameType" where
  "coerce_type n =
     (case find (\<lambda>t. frame_code t = n) frame_types of
        None \<Rightarrow> Inl (ABWSError ''unknown ABWS frame type'')
      | Some t \<Rightarrow> Inr t)"

definition validate_header :: "int \<Rightarrow> int \<Rightarrow> int \<Rightarrow> int \<Rightarrow> abws_error + unit" where
  "validate_header version flags reserved payload_length =
     (if version \<noteq> ABWS_VERSION then Inl (ABWSError ''unsupported ABWS version'')
      else if flags \<noteq> 0 then Inl (ABWSError ''ABWS flags are reserved and must be zero'')
      else if reserved \<noteq> 0 then Inl (ABWSError ''ABWS reserved field must be zero'')
      else if payload_length > MAX_PAYLOAD then Inl (ABWSError ''ABWS payload exceeds parser limit'')
      else Inr ())"

datatype abws_payload = BytesPayload bytes | DictPayload "(pystr \<times> json) list"

definition pack_abws_header :: "FrameType \<Rightarrow> nat \<Rightarrow> int \<Rightarrow> bytes" where
  "pack_abws_header kind len seq =
     ABWS_MAGIC @ be_bytes 1 (nat ABWS_VERSION) @ be_bytes 1 (nat (frame_code kind)) @ be_bytes 2 0
       @ be_bytes 4 len @ be_bytes 8 (nat seq) @ be_bytes 4 0"

definition encode_payload :: "FrameType \<Rightarrow> abws_payload \<Rightarrow> abws_error + bytes" where
  "encode_payload kind payload =
     (if kind \<notin> OPAQUE_TYPES then
        (case payload of
           DictPayload ps \<Rightarrow> encode_json ps
         | BytesPayload _ \<Rightarrow> Inl (ABWSError ''ABWS control payload must be a dictionary''))
      else
        (case payload of
           DictPayload _ \<Rightarrow> Inl (AbwsTypeError ''opaque ABWS payload must be bytes'')
         | BytesPayload bs \<Rightarrow>
             if int (length bs) > MAX_WAW_PAYLOAD
             then Inl (ABWSError ''WAW opaque payload exceeds 49,212-byte limit'')
             else Inr bs))"

definition encode_frame :: "int \<Rightarrow> abws_payload \<Rightarrow> int \<Rightarrow> abws_error + bytes" where
  "encode_frame frame_type payload hop_sequence =
     ebind (coerce_type frame_type) (\<lambda>kind.
     if hop_sequence < 1 \<or> hop_sequence > MAX_U64
     then Inl (ABWSError ''hop_sequence must be a non-zero uint64'')
     else ebind (encode_payload kind payload) (\<lambda>data.
       if int (length data) > MAX_PAYLOAD then Inl (ABWSError ''ABWS payload exceeds parser limit'')
       else Inr (pack_abws_header kind (length data) hop_sequence @ data)))"

definition check_sequence :: "int \<Rightarrow> int option \<Rightarrow> abws_error + unit" where
  "check_sequence hop_sequence expected =
     (if hop_sequence < 1 then Inl (ABWSError ''hop_sequence must be a non-zero uint64'')
      else case expected of
        None \<Rightarrow> Inr ()
      | Some x \<Rightarrow>
          if x < 1 \<or> x > MAX_U64 then Inl (ABWSError ''expected_sequence must be a non-zero uint64'')
          else if hop_sequence \<noteq> x then Inl (ABWSError ''ABWS hop sequence is not contiguous'')
          else Inr ())"

definition decode_frame :: "bytes \<Rightarrow> int option \<Rightarrow> abws_error + ABWSFrame" where
  "decode_frame raw expected =
     (if length raw < HEADER_SIZE then Inl (IncompleteFrame ''ABWS header is incomplete'')
      else if take 4 raw \<noteq> ABWS_MAGIC then Inl (ABWSError ''invalid ABWS magic'')
      else
        let payload_length = be_field 8 4 raw; hop_sequence = be_field 12 8 raw in
        ebind (validate_header (be_field 4 1 raw) (be_field 6 2 raw) (be_field 20 4 raw)
                 payload_length) (\<lambda>_.
        ebind (coerce_type (be_field 5 1 raw)) (\<lambda>kind.
        if int (length raw) < int HEADER_SIZE + payload_length
        then Inl (IncompleteFrame ''ABWS payload is incomplete'')
        else if int (length raw) > int HEADER_SIZE + payload_length
        then Inl (TrailingBytes ''ABWS single-frame decode has trailing bytes'')
        else
        ebind (check_sequence hop_sequence expected) (\<lambda>_.
        let payload = drop HEADER_SIZE raw in
        ebind (if kind \<notin> OPAQUE_TYPES then ebind (decode_json payload) (\<lambda>ps. Inr (Some ps))
               else Inr None) (\<lambda>js.
        Inr \<lparr>fr_type = kind, fr_sequence = hop_sequence, fr_payload = payload, fr_json = js\<rparr>)))))"

section \<open>Streams\<close>

text \<open>The generator \<open>iter_frames\<close>: the frames it yields and the error it raises after them, if any.\<close>

function iter_frames :: "bytes \<Rightarrow> ABWSFrame list \<times> abws_error option" where
  "iter_frames raw =
     (if raw = [] then ([], None)
      else if length raw < HEADER_SIZE
      then ([], Some (IncompleteFrame ''ABWS stream ends with a partial header''))
      else let frame_length = HEADER_SIZE + nat (be_field 8 4 raw) in
        if length raw < frame_length
        then ([], Some (IncompleteFrame ''ABWS stream ends with a partial frame''))
        else case decode_frame (take frame_length raw) None of
          Inl e \<Rightarrow> ([], Some e)
        | Inr f \<Rightarrow> (case iter_frames (drop frame_length raw) of (fs, e) \<Rightarrow> (f # fs, e)))"
  by pat_completeness auto
termination
  by (relation "measure length") (auto simp: HEADER_SIZE_def)

record ABWSParser =
  pa_buffer :: bytes
  pa_expected_sequence :: int
  pa_exhausted :: bool

definition ABWSParser_init :: "int \<Rightarrow> abws_error + ABWSParser" where
  "ABWSParser_init first_sequence =
     (if first_sequence < 1 \<or> first_sequence > MAX_U64
      then Inl (ABWSError ''first_sequence must be a non-zero uint64'')
      else Inr \<lparr>pa_buffer = [], pa_expected_sequence = first_sequence, pa_exhausted = False\<rparr>)"

type_synonym feed_result = "(abws_error + ABWSFrame list) \<times> ABWSParser"

fun prepend_frames :: "ABWSFrame list \<Rightarrow> feed_result \<Rightarrow> feed_result" where
  "prepend_frames fs (Inr gs, p) = (Inr (fs @ gs), p)"
| "prepend_frames fs (Inl e, p) = (Inl e, p)"

text \<open>One accepted frame of the inner loop of \<open>feed\<close>; \<open>pending\<close> is \<open>offset < len(chunk)\<close>.\<close>

definition advance_sequence :: "bool \<Rightarrow> ABWSParser \<Rightarrow> abws_error option \<times> ABWSParser" where
  "advance_sequence pending p =
     (if pa_expected_sequence p = MAX_U64 then
        (if pa_buffer p \<noteq> [] \<or> pending then Some (ABWSError ''ABWS hop sequence exhausted'') else None,
         p\<lparr>pa_exhausted := True\<rparr>)
      else (None, p\<lparr>pa_expected_sequence := pa_expected_sequence p + 1\<rparr>))"

lemma advance_sequence_buffer: "advance_sequence pending p = (e, p') \<Longrightarrow> pa_buffer p' = pa_buffer p"
  by (auto simp: advance_sequence_def split: if_splits)

function drain :: "bool \<Rightarrow> ABWSParser \<Rightarrow> feed_result" where
  "drain pending p =
     (if length (pa_buffer p) < HEADER_SIZE then (Inr [], p)
      else let payload_length = be_field 8 4 (pa_buffer p) in
        if payload_length > MAX_PAYLOAD then (Inl (ABWSError ''ABWS payload exceeds parser limit''), p)
        else let frame_length = HEADER_SIZE + nat payload_length in
          if length (pa_buffer p) < frame_length then (Inr [], p)
          else case decode_frame (take frame_length (pa_buffer p)) (Some (pa_expected_sequence p)) of
            Inl e \<Rightarrow> (Inl e, p)
          | Inr f \<Rightarrow>
              (case advance_sequence pending (p\<lparr>pa_buffer := drop frame_length (pa_buffer p)\<rparr>) of
                 (Some e, p') \<Rightarrow> (Inl e, p')
               | (None, p') \<Rightarrow> prepend_frames [f] (drain pending p')))"
  by pat_completeness auto
termination
  by (relation "measure (\<lambda>(pending, p). length (pa_buffer p))")
    (auto simp: HEADER_SIZE_def dest!: advance_sequence_buffer [OF sym])

function feed_loop :: "ABWSParser \<Rightarrow> bytes \<Rightarrow> feed_result" where
  "feed_loop p rest =
     (if rest = [] \<and> pa_buffer p = [] then (Inr [], p)
      else if rest \<noteq> [] \<and> MAX_FRAME \<le> length (pa_buffer p)
      then (Inl (ABWSError ''ABWS partial-frame buffer exceeds limit''), p)
      else let k = MAX_FRAME - length (pa_buffer p); rest' = drop k rest in
        case drain (rest' \<noteq> []) (p\<lparr>pa_buffer := pa_buffer p @ take k rest\<rparr>) of
          (Inl e, p') \<Rightarrow> (Inl e, p')
        | (Inr fs, p') \<Rightarrow>
            if rest' = [] then (Inr fs, p')
            else if length (pa_buffer p') = MAX_FRAME \<and> fs = []
            then (Inl (ABWSError ''ABWS partial-frame buffer exceeds limit''), p')
            else prepend_frames fs (feed_loop p' rest'))"
  by pat_completeness auto
termination
  by (relation "measure (\<lambda>(p, rest). length rest)") auto

definition feed :: "ABWSParser \<Rightarrow> bytes \<Rightarrow> feed_result" where
  "feed p data =
     (if pa_exhausted p \<and> data \<noteq> [] then (Inl (ABWSError ''ABWS hop sequence exhausted''), p)
      else feed_loop p data)"

definition parser_finish :: "ABWSParser \<Rightarrow> abws_error + unit" where
  "parser_finish p =
     (if pa_buffer p \<noteq> [] then Inl (IncompleteFrame ''ABWS stream ended before a complete frame'')
      else Inr ())"

text \<open>A leg of the transport: chunk after chunk until the first error.\<close>

fun feed_all :: "ABWSParser \<Rightarrow> bytes list \<Rightarrow> feed_result" where
  "feed_all p [] = (Inr [], p)"
| "feed_all p (c # cs) =
     (case feed p c of
        (Inl e, p') \<Rightarrow> (Inl e, p')
      | (Inr fs, p') \<Rightarrow> prepend_frames fs (feed_all p' cs))"

declare iter_frames.simps [simp del] drain.simps [simp del] feed_loop.simps [simp del]

section \<open>The frame codec\<close>

lemma coerce_frame_code [simp]: "coerce_type (frame_code t) = Inr t"
  by (cases t) (simp_all add: coerce_type_def frame_types_def)

lemma coerce_type_Inr: "coerce_type n = Inr t \<Longrightarrow> n = frame_code t"
  by (auto simp: coerce_type_def find_Some_iff split: option.splits)

lemma frame_code_bounds: "1 \<le> frame_code t" "frame_code t < 256"
  by (cases t; simp)+

lemma decode_encode_json:
  assumes "encode_json ps = Inr data" "json_ok (JObj ps)"
  shows "decode_json data = Inr ps"
proof -
  have t: "utf8_decode data = Some (json_text (JObj ps))"
    using assms(1)
    by (auto simp: encode_json_def result_simps json_dumps_def Option.bind_def split: if_splits
        option.splits intro!: utf8_decode_encode)
  then show ?thesis
    using assms(1) t json_loads_text [OF assms(2)]
    by (auto simp: encode_json_def decode_json_def result_simps simp del: validate_json_value.simps json_text_JObj
        split: if_splits option.splits)
qed

interpretation control_codec: codec "\<lambda>ps. json_ok (JObj ps) \<and> is_ok (encode_json ps)"
  "\<lambda>ps. projr (encode_json ps)" decode_json
  by unfold_locales (auto simp: is_ok_iff decode_encode_json simp del: json_ok.simps)

lemma length_pack_abws_header [simp]: "length (pack_abws_header kind n seq) = 24"
  by (simp add: pack_abws_header_def ABWS_MAGIC_def ascii_def)

lemma decode_packed_frame:
  assumes "int (length data) \<le> MAX_PAYLOAD" "1 \<le> seq" "seq \<le> MAX_U64" "expected = None \<or> expected = Some seq"
  shows "decode_frame (pack_abws_header kind (length data) seq @ data) expected =
    ebind (if kind \<notin> OPAQUE_TYPES then ebind (decode_json data) (\<lambda>ps. Inr (Some ps)) else Inr None)
      (\<lambda>js. Inr \<lparr>fr_type = kind, fr_sequence = seq, fr_payload = data, fr_json = js\<rparr>)"
proof -
  let ?raw = "pack_abws_header kind (length data) seq @ data"
  have fields: "be_field 4 1 ?raw = 1" "be_field 5 1 ?raw = frame_code kind" "be_field 6 2 ?raw = 0"
    "be_field 8 4 ?raw = int (length data)" "be_field 12 8 ?raw = seq" "be_field 20 4 ?raw = 0"
    using assms frame_code_bounds [of kind]
    by (simp_all add: be_field_def pack_abws_header_def ABWS_MAGIC_def ascii_def abws_limits
        be_val_be_bytes MAX_U64_eval nat_less_iff del: One_nat_def)
  have magic: "take 4 (pack_abws_header kind (length data) seq) = ABWS_MAGIC"
    by (simp add: pack_abws_header_def ABWS_MAGIC_def ascii_def)
  have "drop 24 ?raw = data"
    by simp
  then show ?thesis
    using assms
    by (auto simp: decode_frame_def fields magic validate_header_def check_sequence_def abws_limits Let_def
        simp del: One_nat_def)
qed

text \<open>What a received frame carries of the encoder's arguments.\<close>

definition carries :: "int \<times> abws_payload \<Rightarrow> ABWSFrame \<Rightarrow> bool" where
  "carries m f \<longleftrightarrow> frame_code (fr_type f) = fst m \<and>
     (case snd m of BytesPayload bs \<Rightarrow> fr_payload f = bs \<and> fr_json f = None
                  | DictPayload ps \<Rightarrow> fr_json f = Some ps)"

fun payload_ok :: "abws_payload \<Rightarrow> bool" where
  "payload_ok (BytesPayload bs) = True"
| "payload_ok (DictPayload ps) = json_ok (JObj ps)"

lemma decode_encode_frame:
  assumes "encode_frame t payload n = Inr bs" "payload_ok payload" "expected = None \<or> expected = Some n"
  shows "\<exists>f. decode_frame bs expected = Inr f \<and> fr_sequence f = n \<and> carries (t, payload) f"
proof -
  obtain kind data where k: "coerce_type t = Inr kind" "1 \<le> n" "n \<le> MAX_U64"
    "encode_payload kind payload = Inr data" "int (length data) \<le> MAX_PAYLOAD"
    "bs = pack_abws_header kind (length data) n @ data"
    using assms(1) by (auto simp: encode_frame_def result_simps split: if_splits)
  show ?thesis
    using k(4) assms(2) decode_packed_frame [OF k(5,2,3) assms(3), of kind] coerce_type_Inr [OF k(1)] k(6)
    by (cases payload)
      (auto simp: encode_payload_def carries_def decode_encode_json simp del: json_ok.simps split: if_splits)
qed

lemma encode_frame_length:
  assumes "encode_frame t payload n = Inr bs"
  shows "24 \<le> length bs" "be_field 8 4 (bs @ x) = int (length bs) - 24"
    "be_field 8 4 (bs @ x) \<le> MAX_PAYLOAD" "1 \<le> n" "n \<le> MAX_U64"
proof -
  obtain kind data where k: "1 \<le> n" "n \<le> MAX_U64" "int (length data) \<le> MAX_PAYLOAD"
    "bs = pack_abws_header kind (length data) n @ data"
    using assms by (auto simp: encode_frame_def result_simps split: if_splits)
  then show "24 \<le> length bs" "be_field 8 4 (bs @ x) = int (length bs) - 24"
    "be_field 8 4 (bs @ x) \<le> MAX_PAYLOAD" "1 \<le> n" "n \<le> MAX_U64"
    by (simp_all add: be_field_def pack_abws_header_def ABWS_MAGIC_def ascii_def MAX_PAYLOAD_def be_val_be_bytes)
qed

section \<open>The incremental parser\<close>

text \<open>
  The reference is \<open>drain\<close> on the whole stream at once: the inner loop with an unbounded buffer.
  \<open>unread p x\<close> is the parser with \<open>x\<close> appended to its buffer, \<open>partial\<close> that its buffer holds no
  complete frame.
\<close>

definition unread :: "ABWSParser \<Rightarrow> bytes \<Rightarrow> ABWSParser" where
  "unread p x = p\<lparr>pa_buffer := pa_buffer p @ x\<rparr>"

definition partial :: "ABWSParser \<Rightarrow> bool" where
  "partial p \<longleftrightarrow> length (pa_buffer p) < HEADER_SIZE
     \<or> be_field 8 4 (pa_buffer p) \<le> MAX_PAYLOAD
        \<and> int (length (pa_buffer p)) < int HEADER_SIZE + be_field 8 4 (pa_buffer p)"

fun same_outcome :: "feed_result \<Rightarrow> feed_result \<Rightarrow> bool" where
  "same_outcome (Inr fs, p) (Inr gs, q) \<longleftrightarrow> fs = gs \<and> p = q"
| "same_outcome (Inl _, _) (Inl _, _) \<longleftrightarrow> True"
| "same_outcome _ _ \<longleftrightarrow> False"

lemma same_outcome_prepend: "same_outcome a b \<Longrightarrow> same_outcome (prepend_frames fs a) (prepend_frames fs b)"
  by (induction a b rule: same_outcome.induct) auto

lemma same_outcome_refl [simp]: "same_outcome a a"
  by (cases a; cases "fst a") auto

lemma same_outcome_sym: "same_outcome a b \<Longrightarrow> same_outcome b a"
  by (induction a b rule: same_outcome.induct) auto

lemma same_outcome_trans: "same_outcome a b \<Longrightarrow> same_outcome b c \<Longrightarrow> same_outcome a c"
  by (cases a; cases "fst a"; cases b; cases "fst b"; cases c; cases "fst c") auto

lemma same_outcome_Inl: "same_outcome a b \<Longrightarrow> \<exists>e q. a = (Inl e, q) \<Longrightarrow> \<exists>e q. b = (Inl e, q)"
  by (induction a b rule: same_outcome.induct) auto

lemma prepend_Inr: "prepend_frames fs r = (Inr gs, p) \<longleftrightarrow> (\<exists>hs. r = (Inr hs, p) \<and> gs = fs @ hs)"
  by (cases r; cases "fst r") auto

lemma prepend_Inl: "prepend_frames fs r = (Inl e, p) \<longleftrightarrow> r = (Inl e, p)"
  by (cases r; cases "fst r") auto

lemma prepend_Nil [simp]: "prepend_frames [] r = r"
  by (cases r; cases "fst r") auto

lemma prepend_append: "prepend_frames fs (prepend_frames gs r) = prepend_frames (fs @ gs) r"
  by (cases r; cases "fst r") auto

lemma unread_simps [simp]:
  "pa_buffer (unread p x) = pa_buffer p @ x" "pa_exhausted (unread p x) = pa_exhausted p"
  "pa_expected_sequence (unread p x) = pa_expected_sequence p"
  "unread p [] = p" "unread (unread p x) y = unread p (x @ y)"
  "(unread p x)\<lparr>pa_buffer := y\<rparr> = p\<lparr>pa_buffer := y\<rparr>"
  by (simp_all add: unread_def)

text \<open>The four ways one round of the inner loop ends.\<close>

lemma drain_cases:
  obtains (stop) "partial p" "drain pending p = (Inr [], p)"
  | (fail) e where "drain pending p = (Inl e, p)" "\<And>x pending. drain pending (unread p x) = (Inl e, unread p x)"
  | (over) f k e p' where "k \<le> length (pa_buffer p)" "HEADER_SIZE \<le> k"
      "decode_frame (take k (pa_buffer p)) (Some (pa_expected_sequence p)) = Inr f"
      "pa_expected_sequence p = MAX_U64" "pa_exhausted p'"
      "drain pending p = (Inl e, p') \<and> (pending \<or> k < length (pa_buffer p))
       \<or> drain pending p = (Inr [f], p') \<and> p' = p\<lparr>pa_buffer := [], pa_exhausted := True\<rparr>
          \<and> pa_buffer p = take k (pa_buffer p) \<and> \<not> pending"
      "\<And>x. x \<noteq> [] \<or> k < length (pa_buffer p) \<Longrightarrow> \<exists>e q. drain False (unread p x) = (Inl e, q)"
      "length (pa_buffer p') \<le> length (pa_buffer p)"
  | (take) f k where "k \<le> length (pa_buffer p)" "HEADER_SIZE \<le> k"
      "decode_frame (take k (pa_buffer p)) (Some (pa_expected_sequence p)) = Inr f"
      "pa_expected_sequence p \<noteq> MAX_U64"
      "\<And>x pending. drain pending (unread p x) = prepend_frames [f] (drain pending
         (unread (p\<lparr>pa_buffer := drop k (pa_buffer p), pa_expected_sequence := pa_expected_sequence p + 1\<rparr>) x))"
proof -
  let ?b = "pa_buffer p"
  let ?n = "be_field 8 4 ?b"
  let ?k = "HEADER_SIZE + nat ?n"
  consider "length ?b < HEADER_SIZE" | "HEADER_SIZE \<le> length ?b" "?n > MAX_PAYLOAD"
    | "HEADER_SIZE \<le> length ?b" "?n \<le> MAX_PAYLOAD" "length ?b < ?k"
    | "?n \<le> MAX_PAYLOAD" "?k \<le> length ?b"
    by linarith
  then show thesis
  proof cases
    case 1
    then show thesis
      using stop by (simp add: drain.simps partial_def)
  next
    case 2
    then have "be_field 8 4 (?b @ x) = ?n" for x
      by (simp add: be_field_append HEADER_SIZE_def)
    then show thesis
      using 2 fail by (simp add: drain.simps)
  next
    case 3
    then show thesis
      using stop by (simp add: drain.simps partial_def)
  next
    case 4
    then have n: "be_field 8 4 (?b @ x) = ?n" "HEADER_SIZE \<le> length ?b" for x
      by (simp_all add: be_field_append HEADER_SIZE_def)
    have step: "drain pending (unread p x) =
        (case decode_frame (take ?k ?b) (Some (pa_expected_sequence p)) of
            Inl e \<Rightarrow> (Inl e, unread p x)
          | Inr f \<Rightarrow>
              (case advance_sequence pending (p\<lparr>pa_buffer := drop ?k ?b @ x\<rparr>) of
                 (Some e, p') \<Rightarrow> (Inl e, p')
               | (None, p') \<Rightarrow> prepend_frames [f] (drain pending p')))" for x pending
      using 4 n by (subst drain.simps) (simp add: Let_def split: sum.split)
    show thesis
    proof (cases "decode_frame (take ?k ?b) (Some (pa_expected_sequence p))")
      case (Inl e)
      then show thesis
        using fail [of e] step [of _ "[]"] step by simp
    next
      case (Inr f)
      show thesis
      proof (cases "pa_expected_sequence p = MAX_U64")
        case False
        have next_parser: "unread (p\<lparr>pa_buffer := d, pa_expected_sequence := e\<rparr>) x =
            p\<lparr>pa_buffer := d @ x, pa_expected_sequence := e\<rparr>" for d e x
          by (simp add: unread_def)
        show thesis
          using False 4 Inr n(2)
          by (intro take [of ?k f]) (simp_all add: step next_parser advance_sequence_def)
      next
        case True
        have stop0: "drain False (p\<lparr>pa_buffer := [], pa_exhausted := True\<rparr>) =
            (Inr [], p\<lparr>pa_buffer := [], pa_exhausted := True\<rparr>)"
          by (simp add: drain.simps HEADER_SIZE_def)
        show thesis
          using 4 Inr n(2) True step [of pending "[]"] step stop0
          by (intro over [of ?k f "p\<lparr>pa_buffer := drop ?k ?b, pa_exhausted := True\<rparr>"])
            (auto simp: advance_sequence_def)
      qed
    qed
  qed
qed

definition resume :: "feed_result \<Rightarrow> bytes \<Rightarrow> feed_result" where
  "resume r x =
     (case r of
        (Inl e, q) \<Rightarrow> (Inl e, q)
      | (Inr fs, q) \<Rightarrow>
          if pa_exhausted q then (Inl (ABWSError ''ABWS hop sequence exhausted''), q)
          else prepend_frames fs (drain False (unread q x)))"

lemma resume_prepend: "resume (prepend_frames fs r) x = prepend_frames fs (resume r x)"
  by (cases r; cases "fst r") (auto simp: resume_def prepend_append)

lemma same_outcome_error: "\<exists>e q. a = (Inl e, q) \<Longrightarrow> \<exists>e q. b = (Inl e, q) \<Longrightarrow> same_outcome a b"
  by auto

lemma drain_unread:
  assumes "\<not> pa_exhausted p" "x \<noteq> []"
  shows "same_outcome (drain False (unread p x)) (resume (drain pending p) x)"
  using assms(1)
proof (induction "length (pa_buffer p)" arbitrary: p rule: less_induct)
  case less
  show ?case
  proof (cases pending p rule: drain_cases)
    case stop
    then show ?thesis
      using less(2) by (simp add: resume_def)
  next
    case (fail e)
    then show ?thesis
      by (simp add: resume_def)
  next
    case (over f k e p')
    then show ?thesis
      using assms(2) by (intro same_outcome_error) (auto simp: resume_def)
  next
    case (take f k)
    let ?p = "p\<lparr>pa_buffer := drop k (pa_buffer p), pa_expected_sequence := pa_expected_sequence p + 1\<rparr>"
    have "same_outcome (drain False (unread ?p x)) (resume (drain pending ?p) x)"
      using less(2) take(1,2) by (intro less(1)) (auto simp: HEADER_SIZE_def)
    then show ?thesis
      using take(5) [of pending "[]"] by (simp add: take(5) resume_prepend same_outcome_prepend)
  qed
qed

lemma drain_partial:
  "drain pending p = (Inr fs, q) \<Longrightarrow> partial q \<and> (pending \<and> \<not> pa_exhausted p \<longrightarrow> \<not> pa_exhausted q)"
proof (induction "length (pa_buffer p)" arbitrary: p fs rule: less_induct)
  case less
  show ?case
  proof (cases pending p rule: drain_cases)
    case (over f k e p')
    then show ?thesis
      using less(2) by (auto simp: partial_def HEADER_SIZE_def)
  next
    case (take f k)
    let ?p = "p\<lparr>pa_buffer := drop k (pa_buffer p), pa_expected_sequence := pa_expected_sequence p + 1\<rparr>"
    obtain gs where "drain pending ?p = (Inr gs, q)"
      using trans [OF take(5) [of pending "[]", simplified, symmetric] less(2)]
      by (auto simp: prepend_Inr)
    then show ?thesis
      using less(1) [of ?p gs] take(1,2) by (auto simp: HEADER_SIZE_def)
  qed (use less(2) in auto)
qed

lemma partial_drain: "partial p \<Longrightarrow> drain pending p = (Inr [], p)"
  by (auto simp: partial_def drain.simps [of pending p] Let_def)

lemma partial_length: "partial p \<Longrightarrow> length (pa_buffer p) < MAX_FRAME"
  by (auto simp: partial_def abws_limits)

lemma feed_loop_drain:
  "\<not> pa_exhausted p \<Longrightarrow> partial p \<Longrightarrow> same_outcome (feed_loop p rest) (drain False (unread p rest))"
proof (induction "length rest" arbitrary: p rest rule: less_induct)
  case (less rest p)
  define k where "k = MAX_FRAME - length (pa_buffer p)"
  define rest' where "rest' = drop k rest"
  define q where "q = unread p (take k rest)"
  note short = partial_length [OF less(3)]
  have step: "feed_loop p rest =
      (case drain (rest' \<noteq> []) q of
          (Inl e, p') \<Rightarrow> (Inl e, p')
        | (Inr fs, p') \<Rightarrow>
            if rest' = [] then (Inr fs, p')
            else if length (pa_buffer p') = MAX_FRAME \<and> fs = []
            then (Inl (ABWSError ''ABWS partial-frame buffer exceeds limit''), p')
            else prepend_frames fs (feed_loop p' rest'))" if "\<not> (rest = [] \<and> pa_buffer p = [])"
    using that short unfolding rest'_def q_def k_def unread_def
    by (subst feed_loop.simps) (simp only: Let_def not_le [symmetric] if_False simp_thms)
  show ?case
  proof (cases "rest' = []")
    case True
    then have "q = unread p rest"
      by (simp add: q_def rest'_def)
    then show ?thesis
      using True step partial_drain [OF less(3)]
      by (cases "rest = [] \<and> pa_buffer p = []")
        (auto simp: feed_loop.simps split: prod.splits sum.splits)
  next
    case False
    then have "\<not> (rest = [] \<and> pa_buffer p = [])"
      by (auto simp: rest'_def)
    note step = step [OF this]
    have q: "\<not> pa_exhausted q" "unread q rest' = unread p rest"
      using less(2) by (simp_all add: q_def rest'_def)
    then have res: "same_outcome (drain False (unread p rest)) (resume (drain True q) rest')"
      using drain_unread [OF q(1) False, of True] by simp
    show ?thesis
    proof (cases "drain True q")
      case (Pair r p')
      show ?thesis
      proof (cases r)
        case (Inl e)
        then show ?thesis
          using res step False Pair by (auto simp: resume_def intro: same_outcome_sym)
      next
        case (Inr fs)
        note p' = drain_partial [OF Pair [unfolded Inr]]
        have "same_outcome (feed_loop p' rest') (drain False (unread p' rest'))"
          using p' q False short by (intro less(1)) (auto simp: rest'_def k_def)
        then have "same_outcome (prepend_frames fs (feed_loop p' rest')) (resume (drain True q) rest')"
          using p' q Pair Inr by (simp add: resume_def same_outcome_prepend)
        moreover have "feed_loop p rest = prepend_frames fs (feed_loop p' rest')"
          using step False Pair Inr partial_length [of p'] p' by auto
        ultimately show ?thesis
          using res same_outcome_trans same_outcome_sym by metis
      qed
    qed
  qed
qed

lemma feed_Nil: "partial p \<Longrightarrow> feed p [] = (Inr [], p)"
  using partial_drain [of p False] by (simp add: feed_def feed_loop.simps)

lemma feed_all_Nil: "partial p \<Longrightarrow> concat cs = [] \<Longrightarrow> feed_all p cs = (Inr [], p)"
  by (induction cs) (auto simp: feed_Nil)

lemma feed_all_exhausted:
  "partial p \<Longrightarrow> pa_exhausted p \<Longrightarrow> concat cs \<noteq> [] \<Longrightarrow> \<exists>e q. feed_all p cs = (Inl e, q)"
proof (induction cs)
  case (Cons c cs)
  then show ?case
    by (cases "c = []") (auto simp: feed_Nil feed_def [of p c])
qed simp

lemma feed_all_drain:
  "\<not> pa_exhausted p \<Longrightarrow> partial p \<Longrightarrow>
   same_outcome (feed_all p cs) (drain False (unread p (concat cs)))"
proof (induction cs arbitrary: p)
  case Nil
  then show ?case
    by (simp add: partial_drain)
next
  case (Cons c cs)
  have feed: "same_outcome (feed p c) (drain False (unread p c))"
    using Cons.prems by (simp add: feed_def feed_loop_drain)
  have whole: "same_outcome (drain False (unread p (concat (c # cs)))) (resume (drain False (unread p c)) (concat cs))"
    if "concat cs \<noteq> []"
    using drain_unread [of "unread p c" "concat cs" False] that Cons.prems by simp
  show ?case
  proof (cases "fst (drain False (unread p c))")
    case (Inl e)
    then have f: "\<exists>e q. feed p c = (Inl e, q)"
      using feed by (cases "drain False (unread p c)"; cases "feed p c"; cases "fst (feed p c)") auto
    have "\<exists>e q. drain False (unread p (concat (c # cs))) = (Inl e, q)"
    proof (cases "concat cs = []")
      case False
      show ?thesis
        by (rule same_outcome_Inl [OF same_outcome_sym [OF whole [OF False]]])
          (use Inl in \<open>auto simp: resume_def split: prod.splits\<close>)
    qed (use Inl in \<open>simp add: prod_eq_iff del: concat_eq_Nil_conv\<close>)
    then show ?thesis
      using f by auto
  next
    case (Inr fs)
    then obtain q where q: "drain False (unread p c) = (Inr fs, q)" "feed p c = (Inr fs, q)" "partial q"
      using feed drain_partial
      by (cases "drain False (unread p c)"; cases "feed p c"; cases "fst (feed p c)") auto
    show ?thesis
    proof (cases "concat cs = []")
      case True
      then show ?thesis
        using q by (simp add: feed_all_Nil del: concat_eq_Nil_conv)
    next
      case False
      have "same_outcome (prepend_frames fs (feed_all q cs)) (resume (Inr fs, q) (concat cs))"
      proof (cases "pa_exhausted q")
        case True
        then show ?thesis
          using feed_all_exhausted [OF q(3) True False] by (auto simp: resume_def)
      next
        case False
        then show ?thesis
          using Cons.IH [OF False q(3)] by (simp add: resume_def same_outcome_prepend)
      qed
      then show ?thesis
        using same_outcome_trans [OF _ same_outcome_sym [OF whole [OF False]]] q by auto
    qed
  qed
qed

lemma decode_frame_sequence:
  assumes "decode_frame s (Some x) = Inr f"
  shows "fr_sequence f = x" "decode_frame s None = Inr f"
  using assms by (auto simp: decode_frame_def Let_def check_sequence_def result_simps split: if_splits)

lemma drain_tiles:
  "drain pending p = (Inr fs, q) \<Longrightarrow>
   (\<exists>segs. pa_buffer p = concat segs @ pa_buffer q \<and> list_all2 (\<lambda>s f. decode_frame s None = Inr f) segs fs)
   \<and> map fr_sequence fs = map (\<lambda>i. pa_expected_sequence p + int i) [0..<length fs]"
proof (induction "length (pa_buffer p)" arbitrary: p fs rule: less_induct)
  case less
  show ?case
  proof (cases pending p rule: drain_cases)
    case (over f k e p')
    then have "fs = [f]" "q = p'" "pa_buffer p = take k (pa_buffer p)" "pa_buffer p' = []"
      using less(2) by auto
    then show ?thesis
      using decode_frame_sequence [OF over(3)] by (auto intro!: exI [of _ "[pa_buffer p]"])
  next
    case (take f k)
    let ?p = "p\<lparr>pa_buffer := drop k (pa_buffer p), pa_expected_sequence := pa_expected_sequence p + 1\<rparr>"
    obtain gs where g: "drain pending ?p = (Inr gs, q)" "fs = f # gs"
      using trans [OF take(5) [of pending "[]", simplified, symmetric] less(2)]
      by (auto simp: prepend_Inr)
    moreover have "length (pa_buffer p) - k < length (pa_buffer p)"
      using take(1,2) by (simp add: HEADER_SIZE_def)
    ultimately obtain segs where "drop k (pa_buffer p) = concat segs @ pa_buffer q"
      "list_all2 (\<lambda>s f. decode_frame s None = Inr f) segs gs"
      and "map fr_sequence gs = map (\<lambda>i. pa_expected_sequence p + 1 + int i) [0..<length gs]"
      using less(1) [of ?p gs] by auto
    then show ?thesis
      using decode_frame_sequence [OF take(3)] g(2) append_take_drop_id [of k "pa_buffer p"]
      by (auto intro!: exI [of _ "take k (pa_buffer p) # segs"] simp: map_upt_Suc algebra_simps simp del: upt_Suc)
  qed (use less(2) in auto)
qed

text \<open>The byte stream of a sender: messages encoded under consecutive sequence numbers.\<close>

fun encode_stream :: "int \<Rightarrow> (int \<times> abws_payload) list \<Rightarrow> abws_error + bytes" where
  "encode_stream n [] = Inr []"
| "encode_stream n (m # ms) =
     ebind (encode_frame (fst m) (snd m) n) (\<lambda>bs. ebind (encode_stream (n + 1) ms) (\<lambda>r. Inr (bs @ r)))"

lemma encode_stream_end: "encode_stream n ms = Inr s \<Longrightarrow> n > MAX_U64 \<Longrightarrow> s = [] \<and> ms = []"
  by (cases ms) (auto simp: result_simps encode_frame_def split: if_splits)

lemma drain_frame:
  assumes "encode_frame t payload n = Inr bs" "payload_ok payload"
    "pa_buffer p = bs @ rest" "pa_expected_sequence p = n"
  shows "\<exists>f. carries (t, payload) f \<and> drain False p =
    (case advance_sequence False (p\<lparr>pa_buffer := rest\<rparr>) of
       (Some e, p') \<Rightarrow> (Inl e, p') | (None, p') \<Rightarrow> prepend_frames [f] (drain False p'))"
proof -
  obtain f where f: "decode_frame bs (Some n) = Inr f" "carries (t, payload) f"
    using decode_encode_frame [OF assms(1,2), of "Some n"] by auto
  have "HEADER_SIZE + nat (be_field 8 4 (pa_buffer p)) = length bs" "HEADER_SIZE \<le> length (pa_buffer p)"
    "be_field 8 4 (pa_buffer p) \<le> MAX_PAYLOAD"
    using encode_frame_length(2,3) [OF assms(1), of rest] encode_frame_length(1) [OF assms(1)] assms(3) by (simp_all add: HEADER_SIZE_def)
  then show ?thesis
    using f assms(3,4) by (intro exI [of _ f]) (simp add: drain.simps [of False p] Let_def)
qed

lemma drain_stream:
  "encode_stream n ms = Inr s \<Longrightarrow> list_all (payload_ok \<circ> snd) ms \<Longrightarrow> pa_buffer p = s \<Longrightarrow>
   pa_expected_sequence p = n \<Longrightarrow> \<exists>fs q. drain False p = (Inr fs, q) \<and> list_all2 carries ms fs \<and> pa_buffer q = []"
proof (induction ms arbitrary: n s p)
  case Nil
  then show ?case
    by (simp add: drain.simps HEADER_SIZE_def)
next
  case (Cons m ms)
  obtain bs r where s: "encode_frame (fst m) (snd m) n = Inr bs" "encode_stream (n + 1) ms = Inr r" "s = bs @ r"
    using Cons.prems(1) by (auto simp: result_simps)
  obtain f where f: "carries m f" "drain False p =
    (case advance_sequence False (p\<lparr>pa_buffer := r\<rparr>) of
       (Some e, p') \<Rightarrow> (Inl e, p') | (None, p') \<Rightarrow> prepend_frames [f] (drain False p'))"
    using drain_frame [OF s(1), of p r] Cons.prems s(3) by auto
  show ?case
  proof (cases "n = MAX_U64")
    case True
    then have "r = []" "ms = []"
      using encode_stream_end [OF s(2)] by auto
    then show ?thesis
      using f True Cons.prems(4) by (simp add: advance_sequence_def drain.simps HEADER_SIZE_def)
  next
    case False
    obtain fs q where "drain False (p\<lparr>pa_buffer := r, pa_expected_sequence := n + 1\<rparr>) = (Inr fs, q)"
      "list_all2 carries ms fs" "pa_buffer q = []"
      using Cons.IH [OF s(2), of "p\<lparr>pa_buffer := r, pa_expected_sequence := n + 1\<rparr>"] Cons.prems(2) by auto
    then show ?thesis
      using f False Cons.prems(4) by (simp add: advance_sequence_def)
  qed
qed

lemma parser_init_fresh:
  "ABWSParser_init n = Inr p \<Longrightarrow>
   \<not> pa_exhausted p \<and> partial p \<and> pa_buffer p = [] \<and> pa_expected_sequence p = n"
  by (auto simp: ABWSParser_init_def partial_def HEADER_SIZE_def split: if_splits)

lemma decode_frame_length:
  assumes "decode_frame s x = Inr f"
  shows "HEADER_SIZE \<le> length s" "HEADER_SIZE + nat (be_field 8 4 s) = length s"
  using assms by (auto simp: decode_frame_def Let_def result_simps split: if_splits)

text \<open>On frames that each decode, the batch reader yields them and raises nothing.\<close>

lemma iter_frames_tiles:
  "list_all2 (\<lambda>s f. decode_frame s None = Inr f) segs fs \<Longrightarrow> iter_frames (concat segs) = (fs, None)"
proof (induction segs fs rule: list_all2_induct)
  case Nil
  then show ?case
    by (simp add: iter_frames.simps)
next
  case (Cons s segs f fs)
  note len = decode_frame_length [OF Cons(1)]
  have "be_field 8 4 (s @ concat segs) = be_field 8 4 s"
    using len by (intro be_field_append) (simp add: HEADER_SIZE_def)
  then show ?case
    using Cons len by (subst iter_frames.simps) (auto simp: HEADER_SIZE_def Let_def)
qed

lemma stream_delivered:
  assumes "encode_stream n ms = Inr s" "list_all (payload_ok \<circ> snd) ms" "ABWSParser_init n = Inr p"
    "concat cs = s"
  shows "\<exists>fs q. feed_all p cs = (Inr fs, q) \<and> list_all2 carries ms fs \<and> parser_finish q = Inr ()
    \<and> iter_frames s = (fs, None)"
proof -
  note p = parser_init_fresh [OF assms(3)]
  obtain fs q where d: "drain False (unread p s) = (Inr fs, q)" "list_all2 carries ms fs" "pa_buffer q = []"
    using drain_stream [OF assms(1,2), of "unread p s"] p by auto
  have "iter_frames s = (fs, None)"
    using drain_tiles [OF d(1)] d(3) p iter_frames_tiles by auto
  moreover have "feed_all p cs = (Inr fs, q)"
    using feed_all_drain [of p cs] p assms(4) d(1)
    by (cases "feed_all p cs"; cases "fst (feed_all p cs)") auto
  ultimately show ?thesis
    using d(2,3) by (simp add: parser_finish_def)
qed

section \<open>Properties\<close>

text \<open>
  C5. Frames cross the stream intact however it is cut. If a sender encodes a list of messages
  under consecutive sequence numbers, then a parser starting at the first number, fed the stream
  in any chunks, delivers exactly one frame per message, in order, with the message's type and
  payload (the same bytes, or the same JSON object), and ends on a frame boundary; the batch
  reader yields the same frames from the whole stream.
\<close>

theorem abws_stream_delivery:
  assumes "encode_stream n ms = Inr s" "list_all (payload_ok \<circ> snd) ms" "ABWSParser_init n = Inr p"
    "concat cs = s"
  shows "\<exists>fs q. feed_all p cs = (Inr fs, q) \<and> list_all2 carries ms fs \<and> parser_finish q = Inr ()
    \<and> iter_frames s = (fs, None)"
  using stream_delivered [OF assms] .

definition sample_messages :: "(int \<times> abws_payload) list" where
  "sample_messages = [(9, BytesPayload [1, 2, 3]), (13, DictPayload [(lit ''protocol_version'', JInt 1)])]"

lemma sample_messages_ok: "list_all (payload_ok \<circ> snd) sample_messages"
  by (simp add: sample_messages_def)

lemma sample_json_text:
  "json_text (JObj [(lit ''protocol_version'', JInt 1)]) = lit ''{\"protocol_version\":1}''"
  by (simp add: lit_def pair_text_def json_string_def json_escape_def int_str_def dec_str.simps)

lemma sample_json_encodes: "is_ok (encode_json [(lit ''protocol_version'', JInt 1)])"
proof -
  have "utf8_encode (lit ''{\"protocol_version\":1}'') = Some (ascii ''{\"protocol_version\":1}'')"
    by (simp add: utf8_encode_def lit_def ascii_def is_scalar_def is_surrogate_def utf8_char_def)
  moreover have "validate_json_value (JObj [(lit ''protocol_version'', JInt 1)]) 0 0 = Inr 1"
    by (simp add: validate_json_str_def MAX_JSON_DEPTH_def MAX_JSON_KEYS_def lit_def is_surrogate_def)
  ultimately show ?thesis
    by (simp add: encode_json_def requires_version_def json_dumps_def sample_json_text ascii_def
        MAX_JSON_PAYLOAD_def del: json_text_JObj validate_json_value.simps)
qed

lemma sample_messages_stream: "is_ok (encode_stream 1 sample_messages)"
proof -
  obtain data where data: "encode_json [(lit ''protocol_version'', JInt 1)] = Inr data"
    using sample_json_encodes unfolding is_ok_iff by blast
  then have "length data \<le> 4096"
    by (auto simp: encode_json_def result_simps MAX_JSON_PAYLOAD_def split: if_splits option.splits)
  then show ?thesis
    using data by (simp add: sample_messages_def encode_frame_def coerce_type_def frame_types_def
        encode_payload_def OPAQUE_TYPES_def abws_limits MAX_U64_eval)
qed

theorem abws_stream_delivery_witness:
  "\<exists>s fs q. encode_stream 1 sample_messages = Inr s
     \<and> feed_all \<lparr>pa_buffer = [], pa_expected_sequence = 1, pa_exhausted = False\<rparr> (map (\<lambda>b. [b]) s) = (Inr fs, q)
     \<and> list_all2 carries sample_messages fs \<and> parser_finish q = Inr () \<and> iter_frames s = (fs, None)"
proof -
  obtain s where s: "encode_stream 1 sample_messages = Inr s"
    using sample_messages_stream unfolding is_ok_iff by blast
  have "ABWSParser_init 1 = Inr \<lparr>pa_buffer = [], pa_expected_sequence = 1, pa_exhausted = False\<rparr>"
    by (simp add: ABWSParser_init_def MAX_U64_eval)
  then show ?thesis
    using abws_stream_delivery [OF s sample_messages_ok, of _ "map (\<lambda>b. [b]) s"] s by fastforce
qed

text \<open>What the parser delivers does not depend on how the stream is cut: two chunkings of the same
  bytes either both fail, or deliver the same frames and leave the parser in the same state.
\<close>

theorem parser_chunking_irrelevant:
  assumes "ABWSParser_init n = Inr p" "concat cs = concat ds"
  shows "same_outcome (feed_all p cs) (feed_all p ds)"
proof -
  have "same_outcome (feed_all p cs) (drain False (unread p (concat cs)))"
    "same_outcome (feed_all p ds) (drain False (unread p (concat cs)))"
    using feed_all_drain [of p] parser_init_fresh [OF assms(1)] assms(2) by metis+
  then show ?thesis
    using same_outcome_sym same_outcome_trans by blast
qed

theorem parser_chunking_irrelevant_witness:
  "same_outcome (feed_all \<lparr>pa_buffer = [], pa_expected_sequence = 1, pa_exhausted = False\<rparr> [[1, 2], [3]])
     (feed_all \<lparr>pa_buffer = [], pa_expected_sequence = 1, pa_exhausted = False\<rparr> [[1], [], [2, 3]])"
  by (rule parser_chunking_irrelevant [of 1]) (simp_all add: ABWSParser_init_def MAX_U64_eval)

text \<open>
  C18. The incremental parser refines single-frame decoding. Whenever feeding any chunks succeeds,
  the bytes fed are, in order, the frames delivered, each accepted on its own by the single-frame
  decoder, followed by what is still buffered; the frames carry consecutive sequence numbers from
  the first one; and the buffer holds less than one maximum frame.
\<close>

theorem parser_refines_decoder:
  assumes "ABWSParser_init n = Inr p" "feed_all p cs = (Inr fs, q)"
  shows "(\<exists>segs. concat cs = concat segs @ pa_buffer q
            \<and> list_all2 (\<lambda>s f. decode_frame s None = Inr f) segs fs)
    \<and> map fr_sequence fs = map (\<lambda>i. n + int i) [0..<length fs] \<and> length (pa_buffer q) < MAX_FRAME"
proof -
  note p = parser_init_fresh [OF assms(1)]
  have d: "drain False (unread p (concat cs)) = (Inr fs, q)"
    using feed_all_drain [of p cs] p assms(2)
    by (cases "drain False (unread p (concat cs))"; cases "fst (drain False (unread p (concat cs)))") auto
  show ?thesis
    using drain_tiles [OF d] drain_partial [OF d] partial_length [of q] p by simp
qed

theorem parser_refines_decoder_witness:
  "\<exists>s fs q segs. encode_stream 1 sample_messages = Inr s
     \<and> feed_all \<lparr>pa_buffer = [], pa_expected_sequence = 1, pa_exhausted = False\<rparr> (map (\<lambda>b. [b]) s) = (Inr fs, q)
     \<and> s = concat segs @ pa_buffer q \<and> length segs = 2
     \<and> list_all2 (\<lambda>seg f. decode_frame seg None = Inr f) segs fs \<and> map fr_sequence fs = [1, 2]"
proof -
  let ?p = "\<lparr>pa_buffer = [], pa_expected_sequence = 1, pa_exhausted = False\<rparr>"
  have p: "ABWSParser_init 1 = Inr ?p"
    by (simp add: ABWSParser_init_def MAX_U64_eval)
  obtain s where s: "encode_stream 1 sample_messages = Inr s"
    using sample_messages_stream unfolding is_ok_iff by blast
  obtain fs q where q: "feed_all ?p (map (\<lambda>b. [b]) s) = (Inr fs, q)" "list_all2 carries sample_messages fs"
    using stream_delivered [OF s sample_messages_ok p, of "map (\<lambda>b. [b]) s"] by auto
  have two: "length fs = 2"
    using list_all2_lengthD [OF q(2)] by (simp add: sample_messages_def)
  obtain segs where segs: "concat (map (\<lambda>b. [b]) s) = concat segs @ pa_buffer q"
      "list_all2 (\<lambda>seg f. decode_frame seg None = Inr f) segs fs"
      "map fr_sequence fs = map (\<lambda>i. 1 + int i) [0..<length fs]"
    using parser_refines_decoder [OF p q(1)] by blast
  have "length segs = 2" using list_all2_lengthD [OF segs(2)] two by simp
  moreover have "map fr_sequence fs = [1, 2]" using segs(3) two by (simp add: upt_rec)
  moreover have "s = concat segs @ pa_buffer q" using segs(1) by simp
  ultimately show ?thesis using s q(1) segs(2)
    by (intro exI [of _ s] exI [of _ fs] exI [of _ q] exI [of _ segs] conjI)
qed

end
