(* ===== verification/Abws_Stream.thy ===== *)
theory Abws_Stream
  imports Abws
begin

text \<open>
  The stream contract (\<open>agentbox_protocol/waw_stream_contract.py\<close>) and the framed stream pump
  (\<open>agentbox_protocol/abws_stream.py\<close>). The pump is asynchronous: a send is two steps, the write
  under the lock and the end of the awaited drain, so that reads run between them. The transport is
  its events: a chunk that arrived (the empty one is end of file), a failed or cancelled read, and
  the outcome of a write and of a drain. A transport call can also raise an exception of a class the
  pump does not catch; it passes through, and the pump stays open.
\<close>

section \<open>Stream contract\<close>

datatype contract_error = WAWStreamContractError string

record WAWResize =
  rz_columns :: int
  rz_rows :: int

record WAWReplay =
  rp_after_cursor :: int

text \<open>\<open>payload.get("protocol_version") != 1\<close>: \<open>True\<close> and \<open>1.0\<close> are equal to \<open>1\<close> too.\<close>

definition is_one :: "json option \<Rightarrow> bool" where
  "is_one v \<longleftrightarrow> v \<in> {Some (JInt 1), Some (JBool True), Some (JFloat (lit ''1.0''))}"

definition stream_control ::
  "ABWSFrame \<Rightarrow> pystr list \<Rightarrow> contract_error + (pystr \<times> json) list" where
  "stream_control frame allowed =
     (case fr_json frame of
        None \<Rightarrow> Inl (WAWStreamContractError ''WAW stream control frame requires JSON'')
      | Some payload \<Rightarrow>
          if \<not> set (map fst payload) \<subseteq> set allowed
             \<or> \<not> is_one (map_of payload (lit ''protocol_version''))
          then Inl (WAWStreamContractError ''WAW stream control payload fields are not allowed'')
          else Inr payload)"

definition decode_resize :: "ABWSFrame \<Rightarrow> contract_error + WAWResize" where
  "decode_resize frame =
     (if fr_type frame \<noteq> RESIZE then Inl (WAWStreamContractError ''expected RESIZE frame'')
      else ebind (stream_control frame [lit ''protocol_version'', lit ''columns'', lit ''rows'']) (\<lambda>payload.
        case (map_of payload (lit ''columns''), map_of payload (lit ''rows'')) of
          (Some (JInt c), Some (JInt r)) \<Rightarrow> Inr \<lparr>rz_columns = c, rz_rows = r\<rparr>
        | _ \<Rightarrow> Inl (WAWStreamContractError ''resize geometry must contain integer columns and rows'')))"

definition decode_replay :: "ABWSFrame \<Rightarrow> contract_error + WAWReplay" where
  "decode_replay frame =
     (if fr_type frame \<noteq> STATE then Inl (WAWStreamContractError ''expected STATE replay request'')
      else ebind (stream_control frame [lit ''protocol_version'', lit ''after_cursor'']) (\<lambda>payload.
        case map_of payload (lit ''after_cursor'') of
          Some (JInt v) \<Rightarrow>
            if 0 \<le> v \<and> v < 2 ^ 64 - 1 then Inr \<lparr>rp_after_cursor = v\<rparr>
            else Inl (WAWStreamContractError ''after_cursor must be a usable uint64 cursor'')
        | _ \<Rightarrow> Inl (WAWStreamContractError ''after_cursor must be a usable uint64 cursor'')))"

fun frame_name :: "FrameType \<Rightarrow> string" where
  "frame_name WS_HELLO = ''WS_HELLO''"
| "frame_name RUNTIME_HELLO = ''RUNTIME_HELLO''"
| "frame_name KEY_INIT = ''KEY_INIT''"
| "frame_name KEY_ATTEST = ''KEY_ATTEST''"
| "frame_name KEY_CONFIRM = ''KEY_CONFIRM''"
| "frame_name KEY_CONFIRM_ACK = ''KEY_CONFIRM_ACK''"
| "frame_name HELLO_ACK = ''HELLO_ACK''"
| "frame_name ADMITTED = ''ADMITTED''"
| "frame_name INPUT = ''INPUT''"
| "frame_name OUTPUT = ''OUTPUT''"
| "frame_name RESIZE = ''RESIZE''"
| "frame_name HEARTBEAT = ''HEARTBEAT''"
| "frame_name PING = ''PING''"
| "frame_name PONG = ''PONG''"
| "frame_name DETACH = ''DETACH''"
| "frame_name EXIT = ''EXIT''"
| "frame_name GAP = ''GAP''"
| "frame_name ACK = ''ACK''"
| "frame_name FT_ERROR = ''ERROR''"
| "frame_name CLOSE = ''CLOSE''"
| "frame_name STATE = ''STATE''"
| "frame_name STREAM_READY = ''STREAM_READY''"
| "frame_name STREAM_READY_ACK = ''STREAM_READY_ACK''"
| "frame_name ADMISSION_COMMIT = ''ADMISSION_COMMIT''"
| "frame_name ADMISSION_COMMIT_ACK = ''ADMISSION_COMMIT_ACK''"
| "frame_name RESIZE_ACK = ''RESIZE_ACK''"
| "frame_name DETACH_ACK = ''DETACH_ACK''"

definition validate_empty_control :: "ABWSFrame \<Rightarrow> FrameType \<Rightarrow> contract_error + unit" where
  "validate_empty_control frame frame_type =
     (if fr_type frame \<noteq> frame_type
      then Inl (WAWStreamContractError (''expected '' @ frame_name frame_type @ '' frame''))
      else ebind (stream_control frame [lit ''protocol_version'']) (\<lambda>_. Inr ()))"

section \<open>The framed stream pump\<close>

definition MAX_READ_CHUNK_SIZE :: int where "MAX_READ_CHUNK_SIZE = 64 * 1024"

record Pump =
  pm_parser :: ABWSParser
  pm_next_outbound :: int
  pm_lock :: "int option"
  pm_receive_started :: bool
  pm_closed :: bool
  pm_written :: bytes

datatype pump_error = PumpValueError string | PumpRuntimeError string | PumpABWS abws_error
  | PumpCancelled | PumpOtherException

definition Pump_init :: "int \<Rightarrow> int \<Rightarrow> int \<Rightarrow> rat option \<Rightarrow> pump_error + Pump" where
  "Pump_init first_inbound first_outbound read_chunk_size read_timeout =
     (if \<not> (1 \<le> first_inbound \<and> first_inbound \<le> MAX_U64)
      then Inl (PumpValueError ''first_inbound_sequence must be a non-zero uint64'')
      else if \<not> (1 \<le> first_outbound \<and> first_outbound \<le> MAX_U64)
      then Inl (PumpValueError ''first_outbound_sequence must be a non-zero uint64'')
      else if \<not> (1 \<le> read_chunk_size \<and> read_chunk_size \<le> MAX_READ_CHUNK_SIZE)
      then Inl (PumpValueError ''read_chunk_size must be between 1 and 65536'')
      else if (case read_timeout of None \<Rightarrow> False | Some t \<Rightarrow> t \<le> 0)
      then Inl (PumpValueError ''read_timeout must be positive'')
      else case ABWSParser_init first_inbound of
        Inl e \<Rightarrow> Inl (PumpABWS e)
      | Inr parser \<Rightarrow>
          Inr \<lparr>pm_parser = parser, pm_next_outbound = first_outbound, pm_lock = None,
               pm_receive_started = False, pm_closed = False, pm_written = []\<rparr>)"

definition pump_close :: "Pump \<Rightarrow> Pump" where
  "pump_close p = (if pm_closed p then p else p\<lparr>pm_closed := True\<rparr>)"

definition pump_receive :: "Pump \<Rightarrow> pump_error + Pump" where
  "pump_receive p =
     (if pm_receive_started p then Inl (PumpRuntimeError ''ABWS receive may only be started once'')
      else if pm_closed p then Inl (PumpABWS (ABWSError ''ABWS stream pump is closed''))
      else Inr (p\<lparr>pm_receive_started := True\<rparr>))"

datatype read_event = Chunk bytes | ReadFailed | ReadCancelled | ReadRaised

datatype read_result = Yielded "ABWSFrame list" | Finished | Raised pump_error

text \<open>One round of the loop of \<open>receive\<close>: what it yields, or how it ends.\<close>

definition pump_read :: "Pump \<Rightarrow> read_event \<Rightarrow> read_result \<times> Pump" where
  "pump_read p ev =
     (case ev of
        Chunk c \<Rightarrow>
          if c = [] then
            (case parser_finish (pm_parser p) of
               Inl e \<Rightarrow> (Raised (PumpABWS e), pump_close p)
             | Inr _ \<Rightarrow> (Finished, pump_close p))
          else
            (case feed (pm_parser p) c of
               (Inl e, q) \<Rightarrow> (Raised (PumpABWS e), pump_close (p\<lparr>pm_parser := q\<rparr>))
             | (Inr fs, q) \<Rightarrow> (Yielded fs, p\<lparr>pm_parser := q\<rparr>))
      | ReadFailed \<Rightarrow> (Raised (PumpABWS (ABWSError ''ABWS stream read failed'')), pump_close p)
      | ReadCancelled \<Rightarrow> (Raised PumpCancelled, pump_close p)
      | ReadRaised \<Rightarrow> (Raised PumpOtherException, p))"

text \<open>The consumer of the generator: the frames it got and how the generator ended, if it did.\<close>

fun pump_read_all :: "Pump \<Rightarrow> read_event list \<Rightarrow> ABWSFrame list \<times> read_result option \<times> Pump" where
  "pump_read_all p [] = ([], None, p)"
| "pump_read_all p (ev # evs) =
     (case pump_read p ev of
        (Yielded fs, q) \<Rightarrow> (case pump_read_all q evs of (gs, r, q') \<Rightarrow> (fs @ gs, r, q'))
      | (r, q) \<Rightarrow> ([], Some r, q))"

datatype write_outcome = Written | WriteFailed | WriteRaised

text \<open>The first part of \<open>send\<close>; \<open>None\<close> is waiting for the lock.\<close>

definition send_begin ::
  "Pump \<Rightarrow> int \<Rightarrow> abws_payload \<Rightarrow> write_outcome \<Rightarrow> ((pump_error + unit) \<times> Pump) option" where
  "send_begin p frame_type payload outcome =
     (if pm_closed p then Some (Inl (PumpABWS (ABWSError ''ABWS stream pump is closed'')), p)
      else if pm_lock p \<noteq> None then None
      else case encode_frame frame_type payload (pm_next_outbound p) of
        Inl (AbwsTypeError m) \<Rightarrow> Some (Inl (PumpABWS (AbwsTypeError m)), p)
      | Inl e \<Rightarrow> Some (Inl (PumpABWS e), pump_close p)
      | Inr encoded \<Rightarrow>
          (case outcome of
             Written \<Rightarrow>
               Some (Inr (), p\<lparr>pm_written := pm_written p @ encoded, pm_lock := Some (pm_next_outbound p)\<rparr>)
           | WriteFailed \<Rightarrow> Some (Inl (PumpABWS (ABWSError ''ABWS stream write failed'')), pump_close p)
           | WriteRaised \<Rightarrow> Some (Inl PumpOtherException, p)))"

datatype drain_outcome = Drained | DrainFailed | DrainCancelled | DrainRaised

definition send_end :: "Pump \<Rightarrow> int \<Rightarrow> drain_outcome \<Rightarrow> (pump_error + int) \<times> Pump" where
  "send_end p sequence outcome =
     (let q = p\<lparr>pm_lock := None\<rparr> in
      case outcome of
        Drained \<Rightarrow>
          (Inr sequence,
           if sequence = MAX_U64 then pump_close q
           else q\<lparr>pm_next_outbound := pm_next_outbound q + 1\<rparr>)
      | DrainFailed \<Rightarrow> (Inl (PumpABWS (ABWSError ''ABWS stream write failed'')), pump_close q)
      | DrainCancelled \<Rightarrow> (Inl PumpCancelled, pump_close q)
      | DrainRaised \<Rightarrow> (Inl PumpOtherException, q))"

section \<open>Runs of a pump\<close>

text \<open>
  \<open>pump_run n p ms\<close>: the pump \<open>p\<close> is reached from one with first outbound sequence \<open>n\<close>, through
  any interleaving of sends and reads, having written the frames of the messages \<open>ms\<close>, and no drain
  has raised an exception the pump does not catch: after one the next frame repeats the sequence
  number (lemma \<open>drain_raised_repeats\<close>).
\<close>

inductive pump_run :: "int \<Rightarrow> Pump \<Rightarrow> (int \<times> abws_payload) list \<Rightarrow> bool" where
  run_start: "Pump_init m n chunk_size timeout = Inr p \<Longrightarrow> pump_run n p []"
| run_receive: "pump_run n p ms \<Longrightarrow> pump_receive p = Inr q \<Longrightarrow> pump_run n q ms"
| run_read: "pump_run n p ms \<Longrightarrow> pm_receive_started p \<Longrightarrow> pump_read p ev = (r, q) \<Longrightarrow> pump_run n q ms"
| run_write: "pump_run n p ms \<Longrightarrow> send_begin p t payload ok = Some (Inr (), q) \<Longrightarrow>
    pump_run n q (ms @ [(t, payload)])"
| run_refused: "pump_run n p ms \<Longrightarrow> send_begin p t payload ok = Some (Inl e, q) \<Longrightarrow> pump_run n q ms"
| run_drain: "pump_run n p ms \<Longrightarrow> pm_lock p = Some sequence \<Longrightarrow> outcome \<noteq> DrainRaised \<Longrightarrow>
    send_end p sequence outcome = (r, q) \<Longrightarrow> pump_run n q ms"

lemma encode_stream_snoc:
  "encode_stream n ms = Inr s \<Longrightarrow> encode_frame t payload (n + int (length ms)) = Inr bs \<Longrightarrow>
   encode_stream n (ms @ [(t, payload)]) = Inr (s @ bs)"
  by (induction ms arbitrary: n s) (auto simp: result_simps algebra_simps)

text \<open>
  The next outbound sequence counts the messages; it falls behind by the frame in flight, and for
  good when the pump closed during a send.
\<close>

definition pump_inv :: "int \<Rightarrow> Pump \<Rightarrow> (int \<times> abws_payload) list \<Rightarrow> bool" where
  "pump_inv n p ms \<longleftrightarrow> encode_stream n ms = Inr (pm_written p)
     \<and> (case pm_lock p of
          None \<Rightarrow> pm_closed p \<or> pm_next_outbound p = n + int (length ms)
        | Some sequence \<Rightarrow> sequence = pm_next_outbound p \<and> n + int (length ms) = sequence + 1)"

lemma pump_close_inv: "pump_inv n p ms \<Longrightarrow> pump_inv n (pump_close p) ms"
  by (auto simp: pump_inv_def pump_close_def split: option.splits)

lemma pump_read_inv:
  "pump_inv n p ms \<Longrightarrow> pump_read p ev = (r, q) \<Longrightarrow> pump_inv n q ms"
proof -
  assume inv: "pump_inv n p ms" and read: "pump_read p ev = (r, q)"
  have "pump_inv n (p\<lparr>pm_parser := x\<rparr>) ms" for x
    using inv by (simp add: pump_inv_def split: option.splits)
  then show ?thesis
    using read inv
    by (auto simp: pump_read_def pump_close_inv split: read_event.splits if_splits sum.splits prod.splits)
qed

lemma send_begin_Inr:
  "send_begin p t payload ok = Some (Inr (), q) \<Longrightarrow>
   \<not> pm_closed p \<and> pm_lock p = None \<and> (\<exists>bs. encode_frame t payload (pm_next_outbound p) = Inr bs
     \<and> q = p\<lparr>pm_written := pm_written p @ bs, pm_lock := Some (pm_next_outbound p)\<rparr>)"
  by (auto simp: send_begin_def split: if_splits sum.splits abws_error.splits write_outcome.splits)

lemma send_begin_Inl: "send_begin p t payload ok = Some (Inl e, q) \<Longrightarrow> q = p \<or> q = pump_close p"
  by (auto simp: send_begin_def split: if_splits sum.splits abws_error.splits write_outcome.splits)

lemma send_end_inv:
  assumes "pump_inv n p ms" "pm_lock p = Some sequence" "outcome \<noteq> DrainRaised"
    and "send_end p sequence outcome = (r, q)"
  shows "pump_inv n q ms"
  using assms
  by (cases outcome) (auto simp: pump_inv_def send_end_def pump_close_def Let_def split: if_splits)

lemma drain_raised_repeats:
  assumes "send_begin p t payload Written = Some (Inr (), q)"
    "send_end q (pm_next_outbound p) DrainRaised = (r, q')"
    "send_begin q' t' payload' Written = Some (Inr (), q'')"
  shows "\<exists>bs bs'. encode_frame t payload (pm_next_outbound p) = Inr bs
    \<and> encode_frame t' payload' (pm_next_outbound p) = Inr bs' \<and> pm_written q'' = pm_written p @ bs @ bs'"
  using send_begin_Inr [OF assms(1)] send_begin_Inr [OF assms(3)] assms(2)
  by (auto simp: send_end_def Let_def)

lemma pump_run_inv: "pump_run n p ms \<Longrightarrow> pump_inv n p ms"
proof (induction rule: pump_run.induct)
  case (run_start m n chunk_size timeout p)
  then show ?case
    by (auto simp: Pump_init_def pump_inv_def split: if_splits sum.splits)
next
  case (run_receive n p ms q)
  then show ?case
    by (auto simp: pump_receive_def pump_inv_def split: if_splits option.splits)
next
  case (run_write n p ms t payload ok q)
  then show ?case
    by (auto dest!: send_begin_Inr simp: pump_inv_def encode_stream_snoc)
qed (auto dest: pump_read_inv send_begin_Inl send_end_inv pump_close_inv)

lemma pump_read_all_chunks:
  "[] \<notin> set cs \<Longrightarrow> feed_all (pm_parser p) cs = (Inr fs, q) \<Longrightarrow> parser_finish q = Inr () \<Longrightarrow>
   pump_read_all p (map Chunk cs @ [Chunk []]) = (fs, Some Finished, pump_close (p\<lparr>pm_parser := q\<rparr>))"
proof (induction cs arbitrary: p fs)
  case Nil
  then show ?case
    by (cases p) (auto simp: pump_read_def)
next
  case (Cons c cs)
  obtain gs q' where g: "feed (pm_parser p) c = (Inr gs, q')"
    using Cons.prems(2) by (auto split: prod.splits sum.splits)
  then obtain hs where h: "feed_all q' cs = (Inr hs, q)" "fs = gs @ hs"
    using Cons.prems(2) by (auto simp: prepend_Inr)
  then show ?case
    using Cons.IH [of "p\<lparr>pm_parser := q'\<rparr>" hs] Cons.prems g by (auto simp: pump_read_def)
qed

section \<open>Property\<close>

text \<open>
  C9. Two pumps over one transport deliver what was sent. After any interleaving of sends and reads,
  with any outcomes but an uncaught exception of a drain, the bytes a pump has written are the encodings of the accepted messages under
  consecutive sequence numbers; and a peer pump starting at the same number that reads those bytes
  in any non-empty chunks and then end of file yields exactly those messages in order and ends
  cleanly.
\<close>

theorem pump_delivery:
  assumes "pump_run n p ms" "list_all (payload_ok \<circ> snd) ms" "Pump_init n k chunk_size timeout = Inr peer"
    "concat cs = pm_written p" "[] \<notin> set cs"
  shows "encode_stream n ms = Inr (pm_written p)
    \<and> (\<exists>fs peer'. pump_read_all peer (map Chunk cs @ [Chunk []]) = (fs, Some Finished, peer')
         \<and> list_all2 carries ms fs)"
proof -
  have enc: "encode_stream n ms = Inr (pm_written p)"
    using pump_run_inv [OF assms(1)] by (simp add: pump_inv_def)
  have "ABWSParser_init n = Inr (pm_parser peer)"
    using assms(3) by (auto simp: Pump_init_def split: if_splits sum.splits)
  then obtain fs q where "feed_all (pm_parser peer) cs = (Inr fs, q)" "list_all2 carries ms fs"
    "parser_finish q = Inr ()"
    using stream_delivered [OF enc assms(2) _ assms(4)] by blast
  then show ?thesis
    using pump_read_all_chunks [OF assms(5)] enc by blast
qed

definition sample_pump :: Pump where
  "sample_pump = \<lparr>pm_parser = \<lparr>pa_buffer = [], pa_expected_sequence = 1, pa_exhausted = False\<rparr>,
     pm_next_outbound = 1, pm_lock = None, pm_receive_started = False, pm_closed = False, pm_written = []\<rparr>"

lemma sample_pump_init: "Pump_init 1 1 100 None = Inr sample_pump"
  by (simp add: Pump_init_def sample_pump_def MAX_U64_eval MAX_READ_CHUNK_SIZE_def ABWSParser_init_def)

lemma sample_pump_run:
  "\<exists>bs. pump_run 1 (sample_pump\<lparr>pm_written := bs, pm_lock := Some 1\<rparr>) [(9, BytesPayload [7])] \<and> length bs = 25"
proof -
  obtain bs where "encode_frame 9 (BytesPayload [7]) 1 = Inr bs" "length bs = 25"
    by (simp add: encode_frame_def coerce_type_def frame_types_def encode_payload_def OPAQUE_TYPES_def
        abws_limits MAX_U64_eval)
  then have "send_begin sample_pump 9 (BytesPayload [7]) Written =
      Some (Inr (), sample_pump\<lparr>pm_written := bs, pm_lock := Some 1\<rparr>)"
    by (simp add: send_begin_def sample_pump_def)
  then show ?thesis
    using run_write [OF run_start [OF sample_pump_init]] \<open>length bs = 25\<close> by fastforce
qed

theorem pump_delivery_witness:
  "\<exists>p :: Pump. encode_stream 1 [(9, BytesPayload [7])] = Inr (pm_written p)
     \<and> (\<exists>fs peer'. pump_read_all sample_pump (map Chunk [take 5 (pm_written p), drop 5 (pm_written p)] @ [Chunk []])
           = (fs, Some Finished, peer') \<and> list_all2 carries [(9, BytesPayload [7])] fs)"
proof -
  obtain bs where bs: "pump_run 1 (sample_pump\<lparr>pm_written := bs, pm_lock := Some 1\<rparr>) [(9, BytesPayload [7])]"
    "length bs = 25"
    using sample_pump_run by blast
  then have "[] \<notin> set [take 5 bs, drop 5 bs]"
    by auto
  note delivered = pump_delivery [OF bs(1) _ sample_pump_init _ this]
  show ?thesis
    by (rule exI [of _ "sample_pump\<lparr>pm_written := bs, pm_lock := Some 1\<rparr>"]) (use delivered in simp)
qed

end
