(* ===== verification/Tickets.thy ===== *)
theory Tickets
  imports Tables Waw_Domain Complex_Main
begin

text \<open>
  The attachment authority (\<open>agentbox_core/waw_tickets.py\<close>): bearer tickets, staged admissions and
  one writer slot per workspace. The four dicts and the replay deque are lists in insertion order.
  Every operation runs under one lock and is one function; one that raises after it has changed
  the state returns the error and the changed state. Clock readings are finite, so the tests with
  \<open>math.isfinite\<close> pass. A staged handle and a connection are their identity, a number. Random bytes
  are arguments. The publication queue is the interface \<open>Publication\<close>.
\<close>

section \<open>Errors and claims\<close>

datatype TicketErrorCode = TK_INVALID | TK_EXPIRED | TK_REPLAYED | TK_STALE | TK_WRITER_BUSY
  | TK_CAPACITY | TK_SEQUENCE_EXHAUSTED | TK_LEASE_EXPIRED | TK_LEASE_MISMATCH
  | TK_RANDOMNESS_UNAVAILABLE | TK_DELIVERY_FAILED

datatype ticket_error = TicketAuthorityError TicketErrorCode | TicketDomainError waw_error
  | TicketTypeError | TicketValueError

abbreviation tk_fail :: "TicketErrorCode \<Rightarrow> ticket_error + 'a" where
  "tk_fail c \<equiv> Inl (TicketAuthorityError c)"

fun tk_domain :: "waw_error + 'a \<Rightarrow> ticket_error + 'a" where
  "tk_domain (Inl e) = Inl (TicketDomainError e)"
| "tk_domain (Inr a) = Inr a"

record AuthenticatedAttachmentContext =
  cx_session_id :: pystr
  cx_user_id :: pystr
  cx_authorization_scope :: pystr
  cx_origin :: pystr
  cx_runtime_epoch :: pystr
  cx_auth_epoch :: int

definition context_text_ok :: "pystr \<Rightarrow> nat \<Rightarrow> bool" where
  "context_text_ok s maximum \<longleftrightarrow> s \<noteq> [] \<and> length s \<le> maximum
     \<and> list_all (\<lambda>c. \<not> (c < 0x20 \<or> 0x7F \<le> c \<and> c \<le> 0x9F)) s"

text \<open>\<open>[1-9][0-9]{0,19}\<close> with a value of at most \<open>2 ** 64 - 1\<close>\<close>

definition decimal_u64 :: "pystr \<Rightarrow> bool" where
  "decimal_u64 s \<longleftrightarrow> s \<noteq> [] \<and> length s \<le> 20 \<and> hd s \<noteq> 48 \<and> list_all is_digit s
     \<and> int (dec_val s) \<le> MAX_U64"

definition Context_init :: "AuthenticatedAttachmentContext \<Rightarrow> ticket_error + AuthenticatedAttachmentContext" where
  "Context_init c =
     (if \<not> (context_text_ok (cx_session_id c) 128 \<and> context_text_ok (cx_user_id c) 128
            \<and> context_text_ok (cx_authorization_scope c) 128 \<and> context_text_ok (cx_origin c) 256)
      then tk_fail TK_INVALID
      else if \<not> decimal_u64 (cx_runtime_epoch c) then tk_fail TK_INVALID
      else if \<not> is_ok (validate_positive_u64 (cx_auth_epoch c) ''auth_epoch'') then tk_fail TK_INVALID
      else Inr c)"

record AttachmentTuple =
  at_workspace_id :: pystr
  at_project_id :: pystr
  at_agent_type :: AgentType
  at_attachment_id :: pystr
  at_lease_number :: int
  at_generation :: int
  at_auth_epoch :: int
  at_api_authority_epoch :: int
  at_host_installation_id :: pystr
  at_host_installation_revision :: int
  at_binding_revision :: int
  at_binding_digest :: pystr
  at_mode :: pystr

definition AttachmentTuple_init :: "AttachmentTuple \<Rightarrow> pystr \<Rightarrow> ticket_error + AttachmentTuple" where
  "AttachmentTuple_init t agent_type =
     ebind (tk_domain (validate_workspace_id (at_workspace_id t))) (\<lambda>_.
     ebind (tk_domain (validate_project_id (at_project_id t))) (\<lambda>_.
     case agent_type_of agent_type of
       Inl _ \<Rightarrow> tk_fail TK_INVALID
     | Inr agent \<Rightarrow>
     ebind (tk_domain (validate_attachment_id (at_attachment_id t))) (\<lambda>_.
     ebind (tk_domain (workspace_id (at_project_id t) (AgentType_value agent))) (\<lambda>ws.
     if at_workspace_id t \<noteq> ws then tk_fail TK_STALE
     else
     ebind (tk_domain (validate_positive_u64 (at_lease_number t) ''lease_number'')) (\<lambda>_.
     ebind (tk_domain (validate_positive_u64 (at_generation t) ''generation'')) (\<lambda>_.
     ebind (tk_domain (validate_positive_u64 (at_auth_epoch t) ''auth_epoch'')) (\<lambda>_.
     ebind (tk_domain (validate_positive_u64 (at_api_authority_epoch t) ''api_authority_epoch'')) (\<lambda>_.
     ebind (tk_domain (validate_runtime_host_installation_id (at_host_installation_id t))) (\<lambda>_.
     ebind (tk_domain (validate_positive_u64 (at_host_installation_revision t)
              ''runtime_host_installation_revision'')) (\<lambda>_.
     ebind (tk_domain (validate_positive_u64 (at_binding_revision t) ''binding_revision'')) (\<lambda>_.
     ebind (tk_domain (validate_binding_digest (at_binding_digest t))) (\<lambda>_.
     if at_mode t \<noteq> lit ''writer'' then tk_fail TK_INVALID
     else Inr (t\<lparr>at_agent_type := agent\<rparr>)))))))))))))"

text \<open>The fields of a tuple with their \<open>str\<close>, in the order in which they are compared.\<close>

definition claim_fields :: "AttachmentTuple \<Rightarrow> (pystr \<times> pystr) list" where
  "claim_fields t =
     [(lit ''workspace_id'', at_workspace_id t), (lit ''project_id'', at_project_id t),
      (lit ''agent_type'', AgentType_value (at_agent_type t)),
      (lit ''attachment_id'', at_attachment_id t),
      (lit ''lease_number'', dec_str (nat (at_lease_number t))),
      (lit ''generation'', dec_str (nat (at_generation t))),
      (lit ''auth_epoch'', dec_str (nat (at_auth_epoch t))),
      (lit ''api_authority_epoch'', dec_str (nat (at_api_authority_epoch t))),
      (lit ''runtime_host_installation_id'', at_host_installation_id t),
      (lit ''runtime_host_installation_revision'', dec_str (nat (at_host_installation_revision t))),
      (lit ''binding_revision'', dec_str (nat (at_binding_revision t))),
      (lit ''binding_digest'', at_binding_digest t), (lit ''mode'', at_mode t)]"

definition same_tuple :: "AttachmentTuple \<Rightarrow> AttachmentTuple \<Rightarrow> bool" where
  "same_tuple l r \<longleftrightarrow>
     at_workspace_id l = at_workspace_id r \<and> at_project_id l = at_project_id r
     \<and> at_agent_type l = at_agent_type r \<and> at_attachment_id l = at_attachment_id r
     \<and> at_lease_number l = at_lease_number r \<and> at_generation l = at_generation r
     \<and> at_auth_epoch l = at_auth_epoch r \<and> at_api_authority_epoch l = at_api_authority_epoch r
     \<and> at_host_installation_id l = at_host_installation_id r
     \<and> at_host_installation_revision l = at_host_installation_revision r
     \<and> at_binding_revision l = at_binding_revision r \<and> at_binding_digest l = at_binding_digest r
     \<and> at_mode l = at_mode r"

lemma same_tuple_eq: "same_tuple l r \<longleftrightarrow> l = r"
  by (auto simp: same_tuple_def)

definition same_presented_tuple :: "AttachmentTuple \<Rightarrow> (pystr \<times> pystr) list \<Rightarrow> bool" where
  "same_presented_tuple claims presented \<longleftrightarrow>
     set (map fst presented) = set (map fst (claim_fields claims))
     \<and> list_all (\<lambda>(name, v). map_of presented name = Some v) (claim_fields claims)"

text \<open>\<open>hmac.compare_digest\<close> on strings refuses those outside ASCII.\<close>

fun compare_all :: "(pystr \<times> pystr) list \<Rightarrow> ticket_error + bool" where
  "compare_all [] = Inr True"
| "compare_all ((a, b) # r) =
     (if \<not> list_all (\<lambda>c. c < 128) a \<or> \<not> list_all (\<lambda>c. c < 128) b then Inl TicketTypeError
      else if a \<noteq> b then Inr False else compare_all r)"

fun same_context ::
  "AuthenticatedAttachmentContext option \<Rightarrow> AuthenticatedAttachmentContext option \<Rightarrow> ticket_error + bool" where
  "same_context (Some l) (Some r) =
     compare_all [(cx_session_id l, cx_session_id r), (cx_user_id l, cx_user_id r),
       (cx_authorization_scope l, cx_authorization_scope r), (cx_origin l, cx_origin r),
       (cx_runtime_epoch l, cx_runtime_epoch r),
       (dec_str (nat (cx_auth_epoch l)), dec_str (nat (cx_auth_epoch r)))]"
| "same_context None None = Inr True"
| "same_context _ _ = Inr False"

section \<open>Records\<close>

record IssuedAttachmentTicket =
  it_ticket :: pystr
  it_claims :: AttachmentTuple
  it_issued_at :: real
  it_expires_at_monotonic :: real
  it_expires_at :: int

record ActiveAttachment =
  aa_claims :: AttachmentTuple
  aa_opened_at :: real
  aa_last_heartbeat :: real
  aa_lease_expires_at :: real
  aa_absolute_expires_at :: real
  aa_context :: "AuthenticatedAttachmentContext option"

definition active_at :: "ActiveAttachment \<Rightarrow> real \<Rightarrow> bool" where
  "active_at a now \<longleftrightarrow> now < aa_lease_expires_at a \<and> now < aa_absolute_expires_at a"

record PendingTicket =
  pt_digest :: bytes
  pt_claims :: AttachmentTuple
  pt_issued_at :: real
  pt_expires_at :: real
  pt_context :: "AuthenticatedAttachmentContext option"

datatype AdmissionStage = AS_RESERVED | AS_RUNTIME_PREPARED | AS_VERIFIED | AS_PREPARED_AUDITED
  | AS_READY | AS_QUARANTINED | AS_COMMITTED | AS_ADMITTED_AUDITED | AS_ACTIVE | AS_FENCED

fun stage_index :: "AdmissionStage \<Rightarrow> nat" where
  "stage_index AS_RESERVED = 0" | "stage_index AS_RUNTIME_PREPARED = 1"
| "stage_index AS_VERIFIED = 2" | "stage_index AS_PREPARED_AUDITED = 3"
| "stage_index AS_READY = 4" | "stage_index AS_QUARANTINED = 5"
| "stage_index AS_COMMITTED = 6" | "stage_index AS_ADMITTED_AUDITED = 7"
| "stage_index AS_ACTIVE = 8" | "stage_index AS_FENCED = 9"

record StagedAttachment =
  sa_id :: nat
  sa_claims :: AttachmentTuple
  sa_context :: AuthenticatedAttachmentContext
  sa_connection_id :: nat
  sa_started_at :: real
  sa_deadline :: real
  sa_lease_expires_at :: real
  sa_absolute_expires_at :: real

record StagedRecord =
  sr_handle :: StagedAttachment
  sr_stage :: AdmissionStage

record 'p Publication =
  pub_release :: "'p \<Rightarrow> bool \<times> 'p"
  pub_discard :: "'p \<Rightarrow> 'p"
  pub_take :: "'p \<Rightarrow> bytes option \<times> 'p"

record AttachmentAuthority =
  au_authority_epoch :: int
  au_next_lease_number :: int
  au_ticket_ttl :: real
  au_lease_ttl :: real
  au_absolute_lease :: real
  au_max_records :: nat
  au_max_writers :: nat
  au_max_per_admin :: nat
  au_replay_cache_size :: nat
  au_pending :: "(bytes \<times> PendingTicket) list"
  au_active :: "(pystr \<times> ActiveAttachment) list"
  au_cleanup_pending :: "(pystr \<times> AttachmentTuple) list"
  au_cleanup_contexts :: "(pystr \<times> AuthenticatedAttachmentContext option) list"
  au_staged :: "(pystr \<times> StagedRecord) list"
  au_replayed :: "bytes list"
  au_shutdown_started :: bool
  au_next_handle :: nat

text \<open>\<open>_u64_or_random\<close>: the given value, or one drawn from the random source when it works.\<close>

definition u64_or_random :: "int option \<Rightarrow> nat option \<Rightarrow> ticket_error + int" where
  "u64_or_random v rnd =
     (case v of
        None \<Rightarrow> (case rnd of None \<Rightarrow> tk_fail TK_RANDOMNESS_UNAVAILABLE
                   | Some r \<Rightarrow> Inr (int r mod MAX_U64 + 1))
      | Some n \<Rightarrow> tk_domain (validate_positive_u64 n ''value''))"

definition Authority_init ::
  "int option \<Rightarrow> int option \<Rightarrow> nat option \<Rightarrow> nat option \<Rightarrow> real \<Rightarrow> real \<Rightarrow> real \<Rightarrow> int \<Rightarrow> int \<Rightarrow> int \<Rightarrow> int \<Rightarrow>
   ticket_error + AttachmentAuthority" where
  "Authority_init authority_epoch lease_seed rnd1 rnd2 ticket_ttl lease_ttl absolute_lease
       max_records replay_cache_size max_writers max_per_admin =
     (if ticket_ttl \<le> 0 \<or> lease_ttl \<le> 0 \<or> absolute_lease \<le> 0 then Inl TicketValueError
      else if lease_ttl > absolute_lease then Inl TicketValueError
      else if \<not> (1 \<le> max_records \<and> max_records \<le> 64) \<or> replay_cache_size < 1 then Inl TicketValueError
      else if \<not> (1 \<le> max_writers \<and> max_writers \<le> 32) \<or> \<not> (1 \<le> max_per_admin \<and> max_per_admin \<le> 4)
      then Inl TicketValueError
      else ebind (u64_or_random authority_epoch rnd1) (\<lambda>ep.
        ebind (u64_or_random lease_seed rnd2) (\<lambda>seed.
          Inr \<lparr>au_authority_epoch = ep, au_next_lease_number = seed, au_ticket_ttl = ticket_ttl,
             au_lease_ttl = lease_ttl, au_absolute_lease = absolute_lease,
             au_max_records = nat max_records, au_max_writers = nat max_writers,
             au_max_per_admin = nat max_per_admin, au_replay_cache_size = nat replay_cache_size,
             au_pending = [], au_active = [], au_cleanup_pending = [], au_cleanup_contexts = [],
             au_staged = [], au_replayed = [], au_shutdown_started = False, au_next_handle = 0\<rparr>)))"


section \<open>Tickets\<close>

definition TICKET_PREFIX :: pystr where
  "TICKET_PREFIX = lit ''wat_''"

definition TOKEN_LENGTH :: nat where
  "TOKEN_LENGTH = 32"

text \<open>Sixteen random bytes in hexadecimal; the random source may fail.\<close>

definition new_ticket :: "bytes option \<Rightarrow> ticket_error + pystr" where
  "new_ticket rnd = (case rnd of None \<Rightarrow> tk_fail TK_RANDOMNESS_UNAVAILABLE
     | Some token \<Rightarrow> Inr (TICKET_PREFIX @ hex_bytes token))"

definition ticket_digest :: "pystr \<Rightarrow> ticket_error + bytes" where
  "ticket_digest ticket =
     (if length ticket \<noteq> length TICKET_PREFIX + TOKEN_LENGTH then tk_fail TK_INVALID
      else if take (length TICKET_PREFIX) ticket \<noteq> TICKET_PREFIX then tk_fail TK_INVALID
      else if \<not> list_all is_hex (drop (length TICKET_PREFIX) ticket) then tk_fail TK_INVALID
      else Inr (sha256 (map of_nat ticket)))"

text \<open>The replay deque drops its oldest digest when it is full.\<close>

definition push_replayed :: "bytes \<Rightarrow> AttachmentAuthority \<Rightarrow> AttachmentAuthority" where
  "push_replayed d au =
     (let q = au_replayed au @ [d] in au\<lparr>au_replayed := drop (length q - au_replay_cache_size au) q\<rparr>)"

definition burn_ticket :: "bytes \<Rightarrow> AttachmentAuthority \<Rightarrow> AttachmentAuthority" where
  "burn_ticket d au = push_replayed d (au\<lparr>au_pending := AList.delete d (au_pending au)\<rparr>)"

definition allocate_lease_number :: "AttachmentAuthority \<Rightarrow> (ticket_error + int) \<times> AttachmentAuthority" where
  "allocate_lease_number au =
     (let number = (if au_next_lease_number au = 0 then 1 else au_next_lease_number au)
      in if number > MAX_U64 then (tk_fail TK_SEQUENCE_EXHAUSTED, au)
         else (Inr number, au\<lparr>au_next_lease_number := number + 1\<rparr>))"

section \<open>Writer slots\<close>

definition writer_keys :: "AttachmentAuthority \<Rightarrow> pystr list" where
  "writer_keys au = remdups (map fst (au_active au) @ map fst (au_cleanup_pending au) @ map fst (au_staged au))"

definition pending_count :: "AttachmentAuthority \<Rightarrow> nat" where
  "pending_count au = length (au_pending au)"

definition active_count :: "AttachmentAuthority \<Rightarrow> nat" where
  "active_count au = length (au_active au)"

definition record_count :: "AttachmentAuthority \<Rightarrow> nat" where
  "record_count au = length (au_pending au) + length (writer_keys au)"

definition shutdown_clean :: "AttachmentAuthority \<Rightarrow> bool" where
  "shutdown_clean au \<longleftrightarrow> au_shutdown_started au \<and> au_pending au = [] \<and> au_active au = []
     \<and> au_staged au = [] \<and> au_cleanup_pending au = [] \<and> au_cleanup_contexts au = []"

definition admin_count :: "pystr \<Rightarrow> AttachmentAuthority \<Rightarrow> nat" where
  "admin_count user au =
     length (filter (\<lambda>c. case c of None \<Rightarrow> False | Some x \<Rightarrow> cx_user_id x = user)
       (map (pt_context \<circ> snd) (au_pending au) @ map (aa_context \<circ> snd) (au_active au)
        @ map snd (au_cleanup_contexts au)
        @ map (\<lambda>(w, r). Some (sa_context (sr_handle r)))
            (filter (\<lambda>(w, r). map_of (au_active au) w = None \<and> map_of (au_cleanup_pending au) w = None)
              (au_staged au))))"

abbreviation tk_ws :: "StagedAttachment \<Rightarrow> pystr" where
  "tk_ws h \<equiv> at_workspace_id (sa_claims h)"

definition exact_staged :: "StagedAttachment \<Rightarrow> AttachmentAuthority \<Rightarrow> ticket_error + StagedRecord" where
  "exact_staged h au =
     (case map_of (au_staged au) (tk_ws h) of
        None \<Rightarrow> tk_fail TK_STALE
      | Some r \<Rightarrow> if sr_handle r \<noteq> h then tk_fail TK_STALE else Inr r)"

text \<open>Fencing closes the lease for good and keeps the slot until its cleanup is proved.\<close>

definition tk_fence :: "StagedAttachment \<Rightarrow> AttachmentAuthority \<Rightarrow> (ticket_error + unit) \<times> AttachmentAuthority" where
  "tk_fence h au =
     (case exact_staged h au of
        Inl e \<Rightarrow> (Inl e, au)
      | Inr r \<Rightarrow> (Inr (), au\<lparr>
          au_staged := AList.update (tk_ws h) (r\<lparr>sr_stage := AS_FENCED\<rparr>) (au_staged au),
          au_active := AList.delete (tk_ws h) (au_active au),
          au_cleanup_pending := AList.update (tk_ws h) (sa_claims h) (au_cleanup_pending au),
          au_cleanup_contexts := AList.update (tk_ws h) (Some (sa_context h)) (au_cleanup_contexts au)\<rparr>))"

text \<open>An active lease becomes a cleanup obligation. The calls of \<open>fence\<close> inside the class name the
  handle of a stored record, where \<open>fence\<close> cannot raise (\<open>fence_stored\<close> below).\<close>

definition retire_active :: "pystr \<Rightarrow> ActiveAttachment \<Rightarrow> AttachmentAuthority \<Rightarrow> AttachmentAuthority" where
  "retire_active w a au = au\<lparr>
     au_active := AList.delete w (au_active au),
     au_cleanup_pending := AList.update w (aa_claims a) (au_cleanup_pending au),
     au_cleanup_contexts := AList.update w (aa_context a) (au_cleanup_contexts au)\<rparr>"

definition fence_workspace :: "pystr \<Rightarrow> AttachmentAuthority \<Rightarrow> AttachmentAuthority" where
  "fence_workspace w au =
     (case map_of (au_staged au) w of None \<Rightarrow> au | Some r \<Rightarrow> snd (tk_fence (sr_handle r) au))"

definition expire_active :: "pystr \<Rightarrow> ActiveAttachment \<Rightarrow> AttachmentAuthority \<Rightarrow> AttachmentAuthority" where
  "expire_active w a au = fence_workspace w (retire_active w a au)"

definition check_reserved :: "StagedAttachment \<Rightarrow> real \<Rightarrow> AttachmentAuthority \<Rightarrow>
    (ticket_error + StagedRecord) \<times> AttachmentAuthority" where
  "check_reserved h now au =
     (case exact_staged h au of
        Inl e \<Rightarrow> (Inl e, au)
      | Inr r \<Rightarrow>
          if now < sa_started_at h \<or> now \<ge> min (sa_deadline h) (sa_lease_expires_at h)
             \<or> sr_stage r \<in> {AS_FENCED, AS_ACTIVE}
          then (tk_fail TK_STALE, if sr_stage r \<noteq> AS_ACTIVE then snd (tk_fence h au) else au)
          else (Inr r, au))"

section \<open>Sweeping, revocation and shutdown\<close>

text \<open>Each loop runs over a snapshot of the items and returns the attachments it touched.\<close>

fun sweep_pending :: "real \<Rightarrow> (bytes \<times> PendingTicket) list \<Rightarrow> AttachmentAuthority \<Rightarrow> pystr list \<times> AttachmentAuthority" where
  "sweep_pending now [] au = ([], au)"
| "sweep_pending now ((d, p) # ps) au =
     (if now \<ge> pt_expires_at p
      then (case sweep_pending now ps (burn_ticket d au) of
              (ids, au') \<Rightarrow> (at_attachment_id (pt_claims p) # ids, au'))
      else sweep_pending now ps au)"

fun sweep_active :: "real \<Rightarrow> (pystr \<times> ActiveAttachment) list \<Rightarrow> AttachmentAuthority \<Rightarrow> pystr list \<times> AttachmentAuthority" where
  "sweep_active now [] au = ([], au)"
| "sweep_active now ((w, a) # as) au =
     (if \<not> active_at a now
      then (case sweep_active now as (expire_active w a au) of
              (ids, au') \<Rightarrow> (at_attachment_id (aa_claims a) # ids, au'))
      else sweep_active now as au)"

fun sweep_staged :: "real \<Rightarrow> (pystr \<times> StagedRecord) list \<Rightarrow> AttachmentAuthority \<Rightarrow> pystr list \<times> AttachmentAuthority" where
  "sweep_staged now [] au = ([], au)"
| "sweep_staged now ((w, r) # rs) au =
     (if sr_stage r \<notin> {AS_ACTIVE, AS_FENCED} \<and> now \<ge> sa_deadline (sr_handle r)
      then (case sweep_staged now rs (snd (tk_fence (sr_handle r) au)) of
              (ids, au') \<Rightarrow> (at_attachment_id (sa_claims (sr_handle r)) # ids, au'))
      else sweep_staged now rs au)"

definition tk_sweep :: "real \<Rightarrow> AttachmentAuthority \<Rightarrow> pystr list \<times> AttachmentAuthority" where
  "tk_sweep now au =
     (case sweep_pending now (au_pending au) au of (ids1, au1) \<Rightarrow>
      case sweep_active now (au_active au1) au1 of (ids2, au2) \<Rightarrow>
      case sweep_staged now (au_staged au2) au2 of (ids3, au3) \<Rightarrow> (ids1 @ ids2 @ ids3, au3))"

fun burn_active :: "(pystr \<times> ActiveAttachment) list \<Rightarrow> AttachmentAuthority \<Rightarrow> AttachmentAuthority" where
  "burn_active [] au = au"
| "burn_active ((w, a) # as) au =
     burn_active as
       (if map_of (au_staged au) w \<noteq> None then fence_workspace w au else retire_active w a au)"

fun burn_staged :: "(pystr \<times> StagedRecord) list \<Rightarrow> AttachmentAuthority \<Rightarrow> AttachmentAuthority" where
  "burn_staged [] au = au"
| "burn_staged ((w, r) # rs) au =
     burn_staged rs (if sr_stage r \<noteq> AS_FENCED then snd (tk_fence (sr_handle r) au) else au)"

definition burn_pending_and_fence_live_records :: "AttachmentAuthority \<Rightarrow> AttachmentAuthority" where
  "burn_pending_and_fence_live_records au =
     (let au1 = (fold push_replayed (map fst (au_pending au)) au)\<lparr>au_pending := []\<rparr>;
          au2 = burn_active (au_active au1) au1
      in burn_staged (au_staged au2) au2)"

definition begin_shutdown :: "AttachmentAuthority \<Rightarrow> AttachmentAuthority" where
  "begin_shutdown au = (if au_shutdown_started au then au
     else burn_pending_and_fence_live_records (au\<lparr>au_shutdown_started := True\<rparr>))"

definition invalidate_all :: "AttachmentAuthority \<Rightarrow> AttachmentAuthority" where
  "invalidate_all au = burn_pending_and_fence_live_records au"

definition of_session :: "pystr \<Rightarrow> int \<Rightarrow> AuthenticatedAttachmentContext option \<Rightarrow> bool" where
  "of_session sid epoch c = (case c of None \<Rightarrow> False | Some x \<Rightarrow> cx_session_id x = sid \<and> cx_auth_epoch x = epoch)"

fun revoke_pending :: "pystr \<Rightarrow> int \<Rightarrow> (bytes \<times> PendingTicket) list \<Rightarrow> AttachmentAuthority \<Rightarrow> pystr list \<times> AttachmentAuthority" where
  "revoke_pending sid ep [] au = ([], au)"
| "revoke_pending sid ep ((d, p) # ps) au =
     (if of_session sid ep (pt_context p)
      then (case revoke_pending sid ep ps (burn_ticket d au) of
              (ids, au') \<Rightarrow> (at_attachment_id (pt_claims p) # ids, au'))
      else revoke_pending sid ep ps au)"

fun revoke_active :: "pystr \<Rightarrow> int \<Rightarrow> (pystr \<times> ActiveAttachment) list \<Rightarrow> AttachmentAuthority \<Rightarrow> pystr list \<times> AttachmentAuthority" where
  "revoke_active sid ep [] au = ([], au)"
| "revoke_active sid ep ((w, a) # as) au =
     (if of_session sid ep (aa_context a)
      then (case revoke_active sid ep as (retire_active w a au) of
              (ids, au') \<Rightarrow> (at_attachment_id (aa_claims a) # ids, au'))
      else revoke_active sid ep as au)"

fun revoke_staged :: "pystr \<Rightarrow> int \<Rightarrow> (pystr \<times> StagedRecord) list \<Rightarrow> pystr list \<Rightarrow> AttachmentAuthority \<Rightarrow> pystr list \<times> AttachmentAuthority" where
  "revoke_staged sid ep [] revoked au = (revoked, au)"
| "revoke_staged sid ep ((w, r) # rs) revoked au =
     (if of_session sid ep (Some (sa_context (sr_handle r)))
      then revoke_staged sid ep rs
             (if at_attachment_id (sa_claims (sr_handle r)) \<notin> set revoked
              then revoked @ [at_attachment_id (sa_claims (sr_handle r))] else revoked)
             (snd (tk_fence (sr_handle r) au))
      else revoke_staged sid ep rs revoked au)"

definition revoke_session :: "pystr \<Rightarrow> int \<Rightarrow> AttachmentAuthority \<Rightarrow> (ticket_error + pystr list) \<times> AttachmentAuthority" where
  "revoke_session sid epoch au =
     (if sid = [] then (tk_fail TK_INVALID, au)
      else if \<not> is_ok (validate_positive_u64 epoch ''auth_epoch'') then (tk_fail TK_INVALID, au)
      else case revoke_pending sid epoch (au_pending au) au of (ids1, au1) \<Rightarrow>
           case revoke_active sid epoch (au_active au1) au1 of (ids2, au2) \<Rightarrow>
           case revoke_staged sid epoch (au_staged au2) (ids1 @ ids2) au2 of
             (ids, au3) \<Rightarrow> (Inr ids, au3))"

section \<open>Issuing\<close>

fun draw_ticket :: "(nat \<Rightarrow> bytes option) \<Rightarrow> nat \<Rightarrow> nat \<Rightarrow> AttachmentAuthority \<Rightarrow> ticket_error + (pystr \<times> bytes)" where
  "draw_ticket rnd i 0 au = tk_fail TK_CAPACITY"
| "draw_ticket rnd i (Suc n) au =
     ebind (new_ticket (rnd i)) (\<lambda>ticket. ebind (ticket_digest ticket) (\<lambda>digest.
       if map_of (au_pending au) digest = None \<and> digest \<notin> set (au_replayed au)
       then Inr (ticket, digest) else draw_ticket rnd (Suc i) n au))"

text \<open>The request carries the claims; the lease number and the authority epoch are filled in here.
  The random bytes of the attempts and the displayed wall-clock expiry are arguments.\<close>

definition tk_issue ::
  "AttachmentTuple \<Rightarrow> pystr \<Rightarrow> pystr \<Rightarrow> AuthenticatedAttachmentContext option \<Rightarrow> int \<Rightarrow> (nat \<Rightarrow> bytes option) \<Rightarrow> real \<Rightarrow>
   AttachmentAuthority \<Rightarrow> (ticket_error + IssuedAttachmentTicket) \<times> AttachmentAuthority" where
  "tk_issue request agent_type origin context display rnd now au0 =
     (if au_shutdown_started au0 then (tk_fail TK_STALE, au0)
      else
      let au = snd (tk_sweep now au0); w = at_workspace_id request
      in if map_of (au_cleanup_pending au) w \<noteq> None
            \<or> (case map_of (au_staged au) w of None \<Rightarrow> False | Some r \<Rightarrow> sr_stage r = AS_FENCED)
         then (tk_fail TK_WRITER_BUSY, au)
         else if record_count au \<ge> au_max_records au then (tk_fail TK_CAPACITY, au)
         else if (case context of None \<Rightarrow> False
                  | Some c \<Rightarrow> admin_count (cx_user_id c) au \<ge> au_max_per_admin au)
         then (tk_fail TK_CAPACITY, au)
         else if origin = [] \<or> length origin > 256 then (tk_fail TK_INVALID, au)
         else case (case context of None \<Rightarrow> Inr True | Some c \<Rightarrow> compare_all [(cx_origin c, origin)]) of
           Inl e \<Rightarrow> (Inl e, au)
         | Inr same \<Rightarrow> if \<not> same then (tk_fail TK_INVALID, au) else
         case allocate_lease_number au of
           (Inl e, au') \<Rightarrow> (Inl e, au')
         | (Inr number, au') \<Rightarrow>
         case ebind (AttachmentTuple_init
                  (request\<lparr>at_lease_number := number, at_api_authority_epoch := au_authority_epoch au',
                           at_mode := lit ''writer''\<rparr>) agent_type) (\<lambda>claims.
                ebind (draw_ticket rnd 0 3 au') (\<lambda>(ticket, digest). Inr (claims, ticket, digest))) of
           Inl e \<Rightarrow> (Inl e, au')
         | Inr (claims, ticket, digest) \<Rightarrow>
             (Inr \<lparr>it_ticket = ticket, it_claims = claims, it_issued_at = now,
                   it_expires_at_monotonic = now + au_ticket_ttl au', it_expires_at = display\<rparr>,
              au'\<lparr>au_pending := AList.update digest
                    \<lparr>pt_digest = digest, pt_claims = claims, pt_issued_at = now,
                     pt_expires_at = now + au_ticket_ttl au', pt_context = context\<rparr>
                    (au_pending au')\<rparr>))"

section \<open>Consuming and reserving\<close>

definition take_pending :: "pystr \<Rightarrow> AttachmentAuthority \<Rightarrow> (ticket_error + PendingTicket) \<times> AttachmentAuthority" where
  "take_pending ticket au =
     (case ticket_digest ticket of
        Inl e \<Rightarrow> (Inl e, au)
      | Inr digest \<Rightarrow>
          case map_of (au_pending au) digest of
            None \<Rightarrow> (tk_fail (if digest \<in> set (au_replayed au) then TK_REPLAYED else TK_INVALID), au)
          | Some p \<Rightarrow> (Inr p, burn_ticket digest au))"

definition slot_taken :: "pystr \<Rightarrow> AttachmentAuthority \<Rightarrow> bool" where
  "slot_taken w au \<longleftrightarrow> map_of (au_active au) w \<noteq> None \<or> map_of (au_cleanup_pending au) w \<noteq> None
     \<or> map_of (au_staged au) w \<noteq> None"

definition tk_consume ::
  "pystr \<Rightarrow> AttachmentTuple \<Rightarrow> AuthenticatedAttachmentContext option \<Rightarrow> real \<Rightarrow> AttachmentAuthority \<Rightarrow>
   (ticket_error + ActiveAttachment) \<times> AttachmentAuthority" where
  "tk_consume ticket expected context now au0 =
     (if au_shutdown_started au0 then (tk_fail TK_STALE, au0)
      else case take_pending ticket au0 of
        (Inl e, au) \<Rightarrow> (Inl e, au)
      | (Inr p, au) \<Rightarrow>
          if now \<ge> pt_expires_at p then (tk_fail TK_EXPIRED, au)
          else if \<not> same_tuple (pt_claims p) expected then (tk_fail TK_STALE, au)
          else case same_context (pt_context p) context of
            Inl e \<Rightarrow> (Inl e, au)
          | Inr same \<Rightarrow> if \<not> same then (tk_fail TK_STALE, au) else
          let w = at_workspace_id expected in
          case map_of (au_active au) w of
            Some a \<Rightarrow> (tk_fail TK_WRITER_BUSY, if active_at a now then au else expire_active w a au)
          | None \<Rightarrow>
              if slot_taken w au \<or> length (writer_keys au) \<ge> au_max_writers au
              then (tk_fail TK_WRITER_BUSY, au)
              else let lease = \<lparr>aa_claims = expected, aa_opened_at = now, aa_last_heartbeat = now,
                     aa_lease_expires_at = now + au_lease_ttl au,
                     aa_absolute_expires_at = now + au_absolute_lease au, aa_context = pt_context p\<rparr>
                   in (Inr lease, au\<lparr>au_active := AList.update w lease (au_active au)\<rparr>))"

definition RESERVE_SECONDS :: real where
  "RESERVE_SECONDS = 5"

text \<open>The tests of the clock, the connection and the context, then of the times and the claims.\<close>

definition reserve_checks ::
  "AttachmentTuple \<Rightarrow> AuthenticatedAttachmentContext option \<Rightarrow> nat option \<Rightarrow> real \<Rightarrow> real \<Rightarrow>
   (pystr \<times> pystr) list option \<Rightarrow> pystr option \<Rightarrow> PendingTicket \<Rightarrow> int \<Rightarrow> ticket_error + unit" where
  "reserve_checks expected context connection started_at now presented presented_epoch p authority_epoch =
     (case (context, connection) of
        (Some c, Some _) \<Rightarrow>
          if started_at < 0 \<or> now < started_at then tk_fail TK_INVALID
          else if now \<ge> pt_expires_at p then tk_fail TK_EXPIRED
          else if now \<ge> started_at + RESERVE_SECONDS then tk_fail TK_STALE
          else if \<not> same_tuple (pt_claims p) expected then tk_fail TK_STALE
          else ebind (same_context (pt_context p) context) (\<lambda>same.
            ensure (same \<and> at_auth_epoch expected = cx_auth_epoch c
                \<and> at_api_authority_epoch expected = authority_epoch
                \<and> (presented = None) = (presented_epoch = None)
                \<and> (case presented of None \<Rightarrow> True
                   | Some f \<Rightarrow> same_presented_tuple (pt_claims p) f
                       \<and> presented_epoch = Some (cx_runtime_epoch c)))
              (TicketAuthorityError TK_STALE))
      | _ \<Rightarrow> tk_fail TK_INVALID)"

definition tk_reserve ::
  "pystr \<Rightarrow> AttachmentTuple \<Rightarrow> AuthenticatedAttachmentContext option \<Rightarrow> nat option \<Rightarrow> real \<Rightarrow> real \<Rightarrow>
   (pystr \<times> pystr) list option \<Rightarrow> pystr option \<Rightarrow> AttachmentAuthority \<Rightarrow>
   (ticket_error + StagedAttachment) \<times> AttachmentAuthority" where
  "tk_reserve ticket expected context connection started_at now presented presented_epoch au0 =
     (if au_shutdown_started au0 then (tk_fail TK_STALE, au0)
      else case take_pending ticket au0 of
        (Inl e, au1) \<Rightarrow> (Inl e, au1)
      | (Inr p, au1) \<Rightarrow>
      case (reserve_checks expected context connection started_at now presented presented_epoch p
              (au_authority_epoch au1), context, connection) of
        (Inr _, Some c, Some conn) \<Rightarrow>
          let au = snd (tk_sweep now au1); w = at_workspace_id expected in
          if slot_taken w au then (tk_fail TK_WRITER_BUSY, au)
          else if length (writer_keys au) \<ge> au_max_writers au then (tk_fail TK_WRITER_BUSY, au)
          else if admin_count (cx_user_id c) au \<ge> au_max_per_admin au then (tk_fail TK_CAPACITY, au)
          else let h = \<lparr>sa_id = au_next_handle au, sa_claims = expected, sa_context = c,
                   sa_connection_id = conn, sa_started_at = started_at,
                   sa_deadline = min (started_at + RESERVE_SECONDS) (pt_expires_at p),
                   sa_lease_expires_at = now + au_lease_ttl au,
                   sa_absolute_expires_at = now + au_absolute_lease au\<rparr>
               in (Inr h, au\<lparr>au_staged := AList.update w \<lparr>sr_handle = h, sr_stage = AS_RESERVED\<rparr> (au_staged au),
                            au_next_handle := Suc (au_next_handle au)\<rparr>)
      | (Inl e, _, _) \<Rightarrow> (Inl e, au1)
      | (_, _, _) \<Rightarrow> (tk_fail TK_INVALID, au1))"

section \<open>Staged admissions\<close>

definition tk_stage :: "StagedAttachment \<Rightarrow> AttachmentAuthority \<Rightarrow> ticket_error + AdmissionStage" where
  "tk_stage h au = ebind (exact_staged h au) (\<lambda>r. Inr (sr_stage r))"

definition set_stage :: "StagedAttachment \<Rightarrow> AdmissionStage \<Rightarrow> AttachmentAuthority \<Rightarrow> AttachmentAuthority" where
  "set_stage h stage au = au\<lparr>au_staged := AList.update (tk_ws h) \<lparr>sr_handle = h, sr_stage = stage\<rparr> (au_staged au)\<rparr>"

definition tk_advance :: "StagedAttachment \<Rightarrow> AdmissionStage \<Rightarrow> real \<Rightarrow> AttachmentAuthority \<Rightarrow>
    (ticket_error + unit) \<times> AttachmentAuthority" where
  "tk_advance h stage now au0 =
     (if au_shutdown_started au0 then (tk_fail TK_STALE, au0)
      else case check_reserved h now au0 of
        (Inl e, au) \<Rightarrow> (Inl e, au)
      | (Inr r, au) \<Rightarrow>
          if stage \<in> {AS_ACTIVE, AS_FENCED} \<or> stage_index stage \<noteq> stage_index (sr_stage r) + 1
          then (tk_fail TK_STALE, snd (tk_fence h au))
          else (Inr (), set_stage h stage au))"

text \<open>Activation reads the clock twice: before the release of the queue and after it. A release that
  fails, or one that ends after the deadline, fences the handle and discards the queue.\<close>

definition activate_with_publication ::
  "StagedAttachment \<Rightarrow> 'p Publication \<Rightarrow> real \<Rightarrow> real \<Rightarrow> 'p \<Rightarrow> AttachmentAuthority \<Rightarrow>
   (ticket_error + ActiveAttachment) \<times> 'p \<times> AttachmentAuthority" where
  "activate_with_publication h pub now now2 q au0 =
     (if au_shutdown_started au0 then (tk_fail TK_STALE, q, au0)
      else case check_reserved h now au0 of
        (Inl e, au) \<Rightarrow> (Inl e, q, au)
      | (Inr r, au) \<Rightarrow>
          if sr_stage r \<noteq> AS_ADMITTED_AUDITED then (tk_fail TK_STALE, q, snd (tk_fence h au))
          else let lease = \<lparr>aa_claims = sa_claims h, aa_opened_at = now, aa_last_heartbeat = now,
                 aa_lease_expires_at = sa_lease_expires_at h,
                 aa_absolute_expires_at = sa_absolute_expires_at h, aa_context = Some (sa_context h)\<rparr>
          in case pub_release pub q of
            (False, q') \<Rightarrow> (tk_fail TK_DELIVERY_FAILED, pub_discard pub q', snd (tk_fence h au))
          | (True, q') \<Rightarrow>
              (case check_reserved h now2 au of
                 (Inl e, au') \<Rightarrow> (tk_fail TK_DELIVERY_FAILED, pub_discard pub q', snd (tk_fence h au'))
               | (Inr r', au') \<Rightarrow>
                   if sr_stage r' \<noteq> AS_ADMITTED_AUDITED
                   then (tk_fail TK_DELIVERY_FAILED, pub_discard pub q', snd (tk_fence h au'))
                   else (Inr lease, q', (set_stage h AS_ACTIVE au')
                           \<lparr>au_active := AList.update (tk_ws h) lease (au_active au')\<rparr>)))"

definition CLEANUP_PROOF :: pystr where
  "CLEANUP_PROOF = lit ''ATTACH_PTY_CLOSED''"

definition acknowledge_staged_cleanup :: "StagedAttachment \<Rightarrow> nat \<Rightarrow> pystr \<Rightarrow> bool \<Rightarrow> AttachmentAuthority \<Rightarrow>
    (ticket_error + unit) \<times> AttachmentAuthority" where
  "acknowledge_staged_cleanup h connection cleanup_state failure_audited au =
     (case exact_staged h au of
        Inl e \<Rightarrow> (Inl e, au)
      | Inr r \<Rightarrow>
          if sr_stage r \<noteq> AS_FENCED \<or> connection \<noteq> sa_connection_id h
             \<or> cleanup_state \<noteq> CLEANUP_PROOF \<or> \<not> failure_audited
          then (tk_fail TK_LEASE_MISMATCH, au)
          else (Inr (), au\<lparr>au_staged := AList.delete (tk_ws h) (au_staged au),
                  au_cleanup_pending := AList.delete (tk_ws h) (au_cleanup_pending au),
                  au_cleanup_contexts := AList.delete (tk_ws h) (au_cleanup_contexts au)\<rparr>))"

section \<open>Active leases\<close>

definition exact_lease :: "AttachmentTuple \<Rightarrow> AuthenticatedAttachmentContext option \<Rightarrow> AttachmentAuthority \<Rightarrow>
    ticket_error + ActiveAttachment option" where
  "exact_lease expected context au =
     (case map_of (au_active au) (at_workspace_id expected) of
        None \<Rightarrow> Inr None
      | Some a \<Rightarrow> if \<not> same_tuple (aa_claims a) expected then Inr None
          else ebind (same_context (aa_context a) context) (\<lambda>same. Inr (if same then Some a else None)))"

definition tk_heartbeat ::
  "AttachmentTuple \<Rightarrow> AuthenticatedAttachmentContext option \<Rightarrow> real \<Rightarrow> AttachmentAuthority \<Rightarrow>
   (ticket_error + ActiveAttachment) \<times> AttachmentAuthority" where
  "tk_heartbeat expected context now au =
     (if au_shutdown_started au then (tk_fail TK_STALE, au)
      else case exact_lease expected context au of
        Inl e \<Rightarrow> (Inl e, au)
      | Inr None \<Rightarrow> (tk_fail TK_LEASE_MISMATCH, au)
      | Inr (Some a) \<Rightarrow>
          if \<not> active_at a now
          then (tk_fail TK_LEASE_EXPIRED, expire_active (at_workspace_id expected) a au)
          else let updated = a\<lparr>aa_last_heartbeat := now,
                 aa_lease_expires_at := min (now + au_lease_ttl au) (aa_absolute_expires_at a)\<rparr>
               in (Inr updated, au\<lparr>au_active := AList.update (at_workspace_id expected) updated (au_active au)\<rparr>))"

definition tk_is_active ::
  "AttachmentTuple \<Rightarrow> AuthenticatedAttachmentContext option \<Rightarrow> real \<Rightarrow> AttachmentAuthority \<Rightarrow>
   (ticket_error + bool) \<times> AttachmentAuthority" where
  "tk_is_active expected context now au =
     (case exact_lease expected context au of
        Inl e \<Rightarrow> (Inl e, au)
      | Inr None \<Rightarrow> (Inr False, au)
      | Inr (Some a) \<Rightarrow>
          if \<not> active_at a now then (Inr False, expire_active (at_workspace_id expected) a au)
          else (Inr True, au))"

definition read_published ::
  "StagedAttachment \<Rightarrow> 'p Publication \<Rightarrow> real \<Rightarrow> 'p \<Rightarrow> AttachmentAuthority \<Rightarrow>
   (ticket_error + bytes option) \<times> 'p \<times> AttachmentAuthority" where
  "read_published h pub now q au =
     (case exact_staged h au of
        Inl e \<Rightarrow> (Inl e, q, au)
      | Inr r \<Rightarrow>
          if sr_stage r \<noteq> AS_ACTIVE then (Inr None, q, au)
          else case tk_is_active (sa_claims h) (Some (sa_context h)) now au of
            (Inl e, au') \<Rightarrow> (Inl e, q, au')
          | (Inr live, au') \<Rightarrow>
              if \<not> live then (Inr None, q, au')
              else case pub_take pub q of (frame, q') \<Rightarrow> (Inr frame, q', au'))"

definition tk_detach ::
  "AttachmentTuple \<Rightarrow> AuthenticatedAttachmentContext option \<Rightarrow> real \<Rightarrow> AttachmentAuthority \<Rightarrow>
   (ticket_error + ActiveAttachment) \<times> AttachmentAuthority" where
  "tk_detach expected context now au =
     (case exact_lease expected context au of
        Inl e \<Rightarrow> (Inl e, au)
      | Inr None \<Rightarrow> (tk_fail TK_LEASE_MISMATCH, au)
      | Inr (Some a) \<Rightarrow>
          let w = at_workspace_id expected in
          if \<not> active_at a now then (tk_fail TK_LEASE_EXPIRED, expire_active w a au)
          else if map_of (au_staged au) w \<noteq> None then (Inr a, fence_workspace w au)
          else (Inr a, au\<lparr>au_active := AList.delete w (au_active au)\<rparr>))"

definition tk_acknowledge_cleanup :: "AttachmentTuple \<Rightarrow> pystr \<Rightarrow> AttachmentAuthority \<Rightarrow>
    (ticket_error + unit) \<times> AttachmentAuthority" where
  "tk_acknowledge_cleanup expected cleanup_state au =
     (let w = at_workspace_id expected in
      if map_of (au_staged au) w \<noteq> None then (tk_fail TK_LEASE_MISMATCH, au)
      else case map_of (au_cleanup_pending au) w of
        None \<Rightarrow> (tk_fail TK_LEASE_MISMATCH, au)
      | Some claims \<Rightarrow>
          if \<not> same_tuple claims expected then (tk_fail TK_LEASE_MISMATCH, au)
          else if cleanup_state \<noteq> CLEANUP_PROOF then (tk_fail TK_LEASE_MISMATCH, au)
          else (Inr (), au\<lparr>au_cleanup_pending := AList.delete w (au_cleanup_pending au),
                  au_cleanup_contexts := AList.delete w (au_cleanup_contexts au)\<rparr>))"

end
