(* ===== verification/Ticket_Safety.thy ===== *)
theory Ticket_Safety
  imports Tickets
begin

text \<open>
  What the attachment authority guarantees. A workspace has at most one owner of its writer slot:
  \<open>slots\<close> is the abstract view, the claims and the context that hold the slot of a workspace, and
  \<open>authority_ok\<close> says how the five dicts represent it. Every call is a step with an event; all but
  admission and the three calls that free a slot leave the view unchanged.
\<close>

section \<open>The view and its representation\<close>

lemma lookup_adelete [table_simps]: "map_of (AList.delete k t) k' = (if k' = k then None else map_of t k')"
  by (simp add: delete_conv')

lemma dom_adelete [simp]: "dom (map_of (AList.delete k t)) = dom (map_of t) - {k}"
  by (auto simp: delete_conv')

lemma dom_aupdate [simp]: "dom (map_of (AList.update k v t)) = insert k (dom (map_of t))"
  by (simp add: update_conv')

lemma table_adelete [simp]: "table t \<Longrightarrow> table (AList.delete k t)"
  by (simp add: table_def distinct_delete)

fun slot_owner ::
  "ActiveAttachment option \<Rightarrow> StagedRecord option \<Rightarrow> AttachmentTuple option \<Rightarrow>
   AuthenticatedAttachmentContext option option \<Rightarrow> (AttachmentTuple \<times> AuthenticatedAttachmentContext option) option" where
  "slot_owner (Some a) s c x = Some (aa_claims a, aa_context a)"
| "slot_owner None (Some r) c x = Some (sa_claims (sr_handle r), Some (sa_context (sr_handle r)))"
| "slot_owner None None (Some c) x = Some (c, the x)"
| "slot_owner None None None x = None"

definition slots :: "AttachmentAuthority \<Rightarrow> pystr \<Rightarrow> (AttachmentTuple \<times> AuthenticatedAttachmentContext option) option" where
  "slots au w = slot_owner (map_of (au_active au) w) (map_of (au_staged au) w)
     (map_of (au_cleanup_pending au) w) (map_of (au_cleanup_contexts au) w)"

definition staged_ok ::
  "(StagedRecord \<Rightarrow> bool) \<Rightarrow> ActiveAttachment option \<Rightarrow> AttachmentTuple option \<Rightarrow>
   AuthenticatedAttachmentContext option option \<Rightarrow> StagedRecord \<Rightarrow> bool" where
  "staged_ok lag a c x r \<longleftrightarrow>
     (let h = sr_handle r; fenced = (c = Some (sa_claims h) \<and> x = Some (Some (sa_context h))) in
      case sr_stage r of
        AS_FENCED \<Rightarrow> fenced
      | AS_ACTIVE \<Rightarrow> (case a of None \<Rightarrow> lag r \<and> fenced
                      | Some l \<Rightarrow> aa_claims l = sa_claims h \<and> aa_context l = Some (sa_context h))
      | _ \<Rightarrow> a = None \<and> c = None)"

definition slot_ok ::
  "(StagedRecord \<Rightarrow> bool) \<Rightarrow> pystr \<Rightarrow> ActiveAttachment option \<Rightarrow> AttachmentTuple option \<Rightarrow>
   AuthenticatedAttachmentContext option option \<Rightarrow> StagedRecord option \<Rightarrow> bool" where
  "slot_ok lag w a c x s \<longleftrightarrow>
     (case a of None \<Rightarrow> True | Some l \<Rightarrow> at_workspace_id (aa_claims l) = w \<and> c = None)
     \<and> (case c of None \<Rightarrow> x = None | Some t \<Rightarrow> at_workspace_id t = w \<and> x \<noteq> None)
     \<and> (case s of None \<Rightarrow> True | Some r \<Rightarrow> tk_ws (sr_handle r) = w \<and> staged_ok lag a c x r)"

definition slots_ok :: "(StagedRecord \<Rightarrow> bool) \<Rightarrow> AttachmentAuthority \<Rightarrow> bool" where
  "slots_ok lag au \<longleftrightarrow> table (au_pending au) \<and> table (au_active au) \<and> table (au_cleanup_pending au)
     \<and> table (au_cleanup_contexts au) \<and> table (au_staged au)
     \<and> (\<forall>w. slot_ok lag w (map_of (au_active au) w) (map_of (au_cleanup_pending au) w)
              (map_of (au_cleanup_contexts au) w) (map_of (au_staged au) w))
     \<and> (\<forall>w r. map_of (au_staged au) w = Some r \<longrightarrow> sa_id (sr_handle r) < au_next_handle au)"

abbreviation authority_ok :: "AttachmentAuthority \<Rightarrow> bool" where
  "authority_ok \<equiv> slots_ok (\<lambda>_. False)"

text \<open>A quiet change: no slot gets or loses its owner, tickets and active leases are only removed,
  and a staged admission that is not fenced has its stage from before.\<close>

definition same_limits :: "AttachmentAuthority \<Rightarrow> AttachmentAuthority \<Rightarrow> bool" where
  "same_limits au au' \<longleftrightarrow> au_max_records au' = au_max_records au \<and> au_max_writers au' = au_max_writers au
     \<and> au_max_per_admin au' = au_max_per_admin au \<and> au_authority_epoch au' = au_authority_epoch au"

definition quiet :: "AttachmentAuthority \<Rightarrow> AttachmentAuthority \<Rightarrow> bool" where
  "quiet au au' \<longleftrightarrow> slots au' = slots au \<and> map_of (au_pending au') \<subseteq>\<^sub>m map_of (au_pending au)
     \<and> same_limits au au' \<and> au_next_handle au' = au_next_handle au
     \<and> (au_shutdown_started au \<longrightarrow> au_shutdown_started au')
     \<and> dom (map_of (au_active au')) \<subseteq> dom (map_of (au_active au))
     \<and> (\<forall>w r. map_of (au_staged au') w = Some r \<longrightarrow> sr_stage r \<noteq> AS_FENCED \<longrightarrow> map_of (au_staged au) w = Some r)"

lemma quiet_refl [simp]: "quiet au au"
  by (simp add: quiet_def same_limits_def)

lemma quiet_trans [trans]: "quiet a b \<Longrightarrow> quiet b c \<Longrightarrow> quiet a c"
  unfolding quiet_def same_limits_def by (metis map_le_trans subset_trans)

definition calm :: "(StagedRecord \<Rightarrow> bool) \<Rightarrow> AttachmentAuthority \<Rightarrow> AttachmentAuthority \<Rightarrow> bool" where
  "calm lag au au' \<longleftrightarrow> (slots_ok lag au \<longrightarrow> slots_ok lag au' \<and> quiet au au')"

lemma calm_refl [simp]: "calm lag au au"
  by (simp add: calm_def)

lemma calm_trans [trans]: "calm lag a b \<Longrightarrow> calm lag b c \<Longrightarrow> calm lag a c"
  unfolding calm_def using quiet_trans by blast

lemmas slot_simps = slots_ok_def quiet_def same_limits_def Let_def

lemma slots_other [simp]:
  "slots (au\<lparr>au_pending := x\<rparr>) = slots au" "slots (au\<lparr>au_replayed := y\<rparr>) = slots au"
  "slots (au\<lparr>au_shutdown_started := b\<rparr>) = slots au" "slots (au\<lparr>au_next_lease_number := n\<rparr>) = slots au"
  "slots (au\<lparr>au_next_handle := m\<rparr>) = slots au"
  by (auto simp: slots_def fun_eq_iff)

lemma push_calm [simp]: "calm lag au (push_replayed d au)"
  by (simp add: calm_def push_replayed_def slot_simps)

lemma drop_pending_calm [simp]: "calm lag au (au\<lparr>au_pending := AList.delete d (au_pending au)\<rparr>)"
  by (auto simp: calm_def slot_simps table_simps map_le_def)

lemma burn_calm [simp]: "calm lag au (burn_ticket d au)"
  unfolding burn_ticket_def by (rule calm_trans [OF drop_pending_calm push_calm])

lemma exact_staged_Inr:
  "exact_staged h au = Inr r \<longleftrightarrow> map_of (au_staged au) (tk_ws h) = Some r \<and> sr_handle r = h"
  by (auto simp: exact_staged_def split: option.splits if_splits)

lemma slot_okD: "slots_ok lag au \<Longrightarrow> slot_ok lag w (map_of (au_active au) w) (map_of (au_cleanup_pending au) w)
              (map_of (au_cleanup_contexts au) w) (map_of (au_staged au) w)"
  by (simp add: slots_ok_def)

lemma fence_calm [simp]: "calm lag au (snd (tk_fence h au))"
proof (cases "exact_staged h au")
  case (Inl e)
  then show ?thesis by (simp add: tk_fence_def)
next
  case (Inr r)
  then have r: "map_of (au_staged au) (tk_ws h) = Some r" and h: "sr_handle r = h"
    by (auto simp: exact_staged_Inr)
  show ?thesis unfolding calm_def
  proof (intro impI conjI)
    assume ok: "slots_ok lag au"
    note here = slot_okD [OF ok, of "tk_ws h", unfolded r slot_ok_def staged_ok_def, simplified h Let_def]
    show "slots_ok lag (snd (tk_fence h au))"
      using ok r h by (auto simp: tk_fence_def Inr slots_ok_def table_simps slot_ok_def staged_ok_def)
    have "slots (snd (tk_fence h au)) = slots au"
      using here r h
      by (auto simp: tk_fence_def Inr slots_def table_simps fun_eq_iff split: option.splits AdmissionStage.splits)
    then show "quiet au (snd (tk_fence h au))"
      using r h by (auto simp: tk_fence_def Inr quiet_def same_limits_def table_simps)
  qed
qed

lemma fence_stored:
  "slots_ok lag au \<Longrightarrow> map_of (au_staged au) w = Some r \<Longrightarrow> exact_staged (sr_handle r) au = Inr r \<and> tk_ws (sr_handle r) = w"
  using slot_okD [of lag au w] by (simp add: exact_staged_Inr slot_ok_def)

lemma fence_workspace_calm [simp]: "calm lag au (fence_workspace w au)"
  by (simp add: fence_workspace_def split: option.splits)

lemma retire_calm:
  assumes ok: "slots_ok lag au" and a: "map_of (au_active au) w = Some a"
    and s: "\<And>r. map_of (au_staged au) w = Some r \<Longrightarrow> lag r"
  shows "slots_ok lag (retire_active w a au) \<and> quiet au (retire_active w a au)"
proof -
  note here = slot_okD [OF ok, of w, unfolded a slot_ok_def staged_ok_def Let_def, simplified]
  have "slots (retire_active w a au) = slots au"
    using here a by (auto simp: slots_def retire_active_def table_simps fun_eq_iff
      split: option.splits AdmissionStage.splits)
  moreover have "slot_ok lag w None (Some (aa_claims a)) (Some (aa_context a)) (map_of (au_staged au) w)"
    using here s by (auto simp: slot_ok_def staged_ok_def Let_def split: option.splits AdmissionStage.splits)
  ultimately show ?thesis
    using ok by (auto simp: slots_ok_def quiet_def same_limits_def retire_active_def table_simps)
qed

lemma slots_ok_lag:
  assumes "slots_ok lag au" and "\<And>w r. map_of (au_staged au) w = Some r \<Longrightarrow> lag r \<Longrightarrow> sr_stage r = AS_ACTIVE \<Longrightarrow> lag' r"
  shows "slots_ok lag' au"
proof -
  have "slot_ok lag' w (map_of (au_active au) w) (map_of (au_cleanup_pending au) w)
      (map_of (au_cleanup_contexts au) w) (map_of (au_staged au) w)" for w
    using slot_okD [OF assms(1), of w] assms(2) [of w]
    by (cases "map_of (au_staged au) w"; cases "map_of (au_active au) w")
      (auto simp: slot_ok_def staged_ok_def Let_def split: AdmissionStage.splits)
  then show ?thesis using assms(1) unfolding slots_ok_def by blast
qed

lemma expire_calm:
  assumes ok: "slots_ok lag au" and a: "map_of (au_active au) w = Some a"
  shows "slots_ok lag (expire_active w a au) \<and> quiet au (expire_active w a au)"
proof (cases "map_of (au_staged au) w")
  case None
  then show ?thesis using retire_calm [OF ok a]
    by (simp add: expire_active_def fence_workspace_def retire_active_def)
next
  case (Some r)
  let ?lag = "\<lambda>r'. lag r' \<or> r' = r" and ?b = "retire_active w a au"
  have b: "slots_ok ?lag ?b" "quiet au ?b"
    using retire_calm [of ?lag au w a] slots_ok_lag [OF ok, of ?lag] a Some by auto
  have rb: "map_of (au_staged ?b) w = Some r" using Some by (simp add: retire_active_def)
  let ?c = "expire_active w a au"
  have c: "?c = snd (tk_fence (sr_handle r) ?b)" using rb by (simp add: expire_active_def fence_workspace_def)
  have "slots_ok ?lag ?c" "quiet ?b ?c"
    using b(1) fence_calm [of ?lag ?b "sr_handle r"] unfolding c calm_def by auto
  moreover have "slots_ok lag ?c"
  proof (rule slots_ok_lag [OF \<open>slots_ok ?lag ?c\<close>])
    fix w' r' assume *: "map_of (au_staged ?c) w' = Some r'" "lag r' \<or> r' = r" "sr_stage r' = AS_ACTIVE"
    have e: "exact_staged (sr_handle r) ?b = Inr r" "tk_ws (sr_handle r) = w"
      using fence_stored [OF b(1) rb] by auto
    have "w' = w" if "r' = r"
      using fence_stored [OF \<open>slots_ok ?lag ?c\<close> *(1)] that e(2) by simp
    moreover have "map_of (au_staged ?c) w = Some (r\<lparr>sr_stage := AS_FENCED\<rparr>)"
      by (simp add: c tk_fence_def e table_simps)
    moreover have "r\<lparr>sr_stage := AS_FENCED\<rparr> \<noteq> r" if "sr_stage r = AS_ACTIVE"
      using that by (cases r) simp
    ultimately show "lag r'" using * by auto
  qed
  ultimately show ?thesis using b(2) quiet_trans by blast
qed

lemma check_reserved_calm [simp]: "calm lag au (snd (check_reserved h now au))"
  by (simp add: check_reserved_def split: sum.splits)

section \<open>Loops\<close>

text \<open>What a loop over a snapshot of the active leases still has to find in the dict.\<close>

definition snapshot :: "('k \<times> 'v) list \<Rightarrow> ('k \<times> 'v) list \<Rightarrow> bool" where
  "snapshot xs t \<longleftrightarrow> table xs \<and> list_all (\<lambda>(k, v). map_of t k = Some v) xs"

lemma snapshot_refl: "table t \<Longrightarrow> snapshot t t"
  by (auto simp: snapshot_def list_all_iff lookup_mem)

lemma snapshot_tl:
  "snapshot ((k, v) # xs) t \<Longrightarrow> (\<And>k'. k' \<noteq> k \<Longrightarrow> map_of t' k' = map_of t k') \<Longrightarrow> snapshot xs t'"
  by (force simp: snapshot_def list_all_iff table_def)

lemma snapshot_hd: "snapshot ((k, v) # xs) t \<Longrightarrow> map_of t k = Some v"
  by (simp add: snapshot_def)

lemma fence_active: "map_of (au_active (snd (tk_fence h au))) w' =
    (if w' = tk_ws h \<and> is_ok (exact_staged h au) then None else map_of (au_active au) w')"
  by (auto simp: tk_fence_def table_simps split: sum.splits)

lemma fence_staged: "map_of (au_staged (snd (tk_fence h au))) w' =
    (case exact_staged h au of Inl _ \<Rightarrow> map_of (au_staged au) w'
     | Inr r \<Rightarrow> if w' = tk_ws h then Some (r\<lparr>sr_stage := AS_FENCED\<rparr>) else map_of (au_staged au) w')"
  by (auto simp: tk_fence_def table_simps split: sum.splits)

lemma fence_workspace_active:
  "slots_ok lag au \<Longrightarrow> w' \<noteq> w \<Longrightarrow> map_of (au_active (fence_workspace w au)) w' = map_of (au_active au) w'"
  by (auto simp: fence_workspace_def fence_active split: option.splits dest: fence_stored)

lemma expire_active_active:
  assumes "slots_ok lag au" "w' \<noteq> w"
  shows "map_of (au_active (expire_active w a au)) w' = map_of (au_active au) w'"
proof -
  have "tk_ws (sr_handle r) = w" if "map_of (au_staged au) w = Some r" for r
    using fence_stored [OF assms(1) that] by simp
  then show ?thesis using assms(2)
    by (auto simp: expire_active_def fence_workspace_def retire_active_def fence_active table_simps split: option.splits)
qed

lemma sweep_pending_calm: "calm lag au (snd (sweep_pending now ps au))"
proof (induction ps arbitrary: au)
  case (Cons x ps)
  obtain d p where x: "x = (d, p)" by (cases x)
  show ?case using Cons [of au] calm_trans [OF burn_calm Cons [of "burn_ticket d au"]]
    by (simp add: x case_prod_unfold)
qed simp

lemma revoke_pending_calm: "calm lag au (snd (revoke_pending sid ep ps au))"
proof (induction ps arbitrary: au)
  case (Cons x ps)
  obtain d p where x: "x = (d, p)" by (cases x)
  show ?case using Cons [of au] calm_trans [OF burn_calm Cons [of "burn_ticket d au"]]
    by (simp add: x case_prod_unfold)
qed simp

lemma sweep_staged_calm: "calm lag au (snd (sweep_staged now rs au))"
proof (induction rs arbitrary: au)
  case (Cons x rs)
  obtain w r where x: "x = (w, r)" by (cases x)
  show ?case using Cons [of au] calm_trans [OF fence_calm Cons [of "snd (tk_fence (sr_handle r) au)"]]
    by (simp add: x case_prod_unfold)
qed simp

lemma burn_staged_calm: "calm lag au (burn_staged rs au)"
proof (induction rs arbitrary: au)
  case (Cons x rs)
  obtain w r where x: "x = (w, r)" by (cases x)
  show ?case using Cons [of au] calm_trans [OF fence_calm Cons [of "snd (tk_fence (sr_handle r) au)"]]
    by (simp add: x)
qed simp

lemma revoke_staged_calm: "calm lag au (snd (revoke_staged sid ep rs ids au))"
proof (induction rs arbitrary: au ids)
  case (Cons x rs)
  obtain w r where x: "x = (w, r)" by (cases x)
  show ?case using Cons [of au] calm_trans [OF fence_calm Cons [of "snd (tk_fence (sr_handle r) au)"]]
    by (simp add: x)
qed simp

lemma push_all_calm: "calm lag au (fold push_replayed ds au)"
proof (induction ds arbitrary: au)
  case (Cons d ds)
  show ?case using calm_trans [OF push_calm Cons [of "push_replayed d au"]] by simp
qed simp

text \<open>The loops over the active leases.\<close>

lemma sweep_active_calm:
  "slots_ok lag au \<Longrightarrow> snapshot as (au_active au) \<Longrightarrow>
     slots_ok lag (snd (sweep_active now as au)) \<and> quiet au (snd (sweep_active now as au))"
proof (induction as arbitrary: au)
  case (Cons x as)
  obtain w a where x: "x = (w, a)" by (cases x)
  note snap = Cons.prems(2) [unfolded x]
  have e: "slots_ok lag (expire_active w a au)" "quiet au (expire_active w a au)"
    using expire_calm [OF Cons.prems(1) snapshot_hd [OF snap]] by auto
  have "snapshot as (au_active (expire_active w a au))"
    by (rule snapshot_tl [OF snap expire_active_active [OF Cons.prems(1)]])
  note step = Cons.IH [OF e(1) this] and skip = Cons.IH [OF Cons.prems(1) snapshot_tl [OF snap]]
  show ?case using step skip quiet_trans [OF e(2)] by (simp add: x case_prod_unfold)
qed simp

lemma burn_active_calm:
  "authority_ok au \<Longrightarrow> snapshot as (au_active au) \<Longrightarrow>
     authority_ok (burn_active as au) \<and> quiet au (burn_active as au)"
proof (induction as arbitrary: au)
  case (Cons x as)
  obtain w a where x: "x = (w, a)" by (cases x)
  note snap = Cons.prems(2) [unfolded x]
  let ?b = "if map_of (au_staged au) w \<noteq> None then fence_workspace w au else retire_active w a au"
  have e: "authority_ok ?b" "quiet au ?b"
    using retire_calm [OF Cons.prems(1) snapshot_hd [OF snap]] fence_workspace_calm [of _ au w] Cons.prems(1)
    by (auto simp: calm_def)
  have "snapshot as (au_active ?b)"
    by (rule snapshot_tl [OF snap])
      (use fence_workspace_active [OF Cons.prems(1)] in \<open>auto simp: retire_active_def table_simps\<close>)
  from Cons.IH [OF e(1) this] show ?case using quiet_trans [OF e(2)] by (simp add: x)
qed simp

lemma revoke_active_calm:
  "slots_ok (\<lambda>r. of_session sid ep (Some (sa_context (sr_handle r)))) au \<Longrightarrow> snapshot as (au_active au) \<Longrightarrow>
     slots_ok (\<lambda>r. of_session sid ep (Some (sa_context (sr_handle r)))) (snd (revoke_active sid ep as au))
     \<and> quiet au (snd (revoke_active sid ep as au))"
proof (induction as arbitrary: au)
  case (Cons x as)
  let ?lag = "\<lambda>r. of_session sid ep (Some (sa_context (sr_handle r)))"
  obtain w a where x: "x = (w, a)" by (cases x)
  note snap = Cons.prems(2) [unfolded x]
  note a = snapshot_hd [OF snap]
  have lag: "?lag r" if "of_session sid ep (aa_context a)" "map_of (au_staged au) w = Some r" for r
    using slot_okD [OF Cons.prems(1), of w] that a
    by (auto simp: slot_ok_def staged_ok_def Let_def split: AdmissionStage.splits)
  have e: "slots_ok ?lag (retire_active w a au)" "quiet au (retire_active w a au)"
    if "of_session sid ep (aa_context a)"
    using retire_calm [OF Cons.prems(1) a lag [OF that]] by auto
  have "snapshot as (au_active (retire_active w a au))"
    by (rule snapshot_tl [OF snap]) (simp add: retire_active_def table_simps)
  note step = Cons.IH [OF e(1) this] and skip = Cons.IH [OF Cons.prems(1) snapshot_tl [OF snap]]
  show ?case using step skip quiet_trans [OF e(2)] by (simp add: x case_prod_unfold)
qed simp

lemma slots_ok_table: "slots_ok lag au \<Longrightarrow> table (au_active au) \<and> table (au_staged au) \<and> table (au_pending au)"
  by (simp add: slots_ok_def)

lemma sweep_calm [simp]: "calm lag au (snd (tk_sweep now au))"
  unfolding calm_def
proof (rule impI)
  assume ok: "slots_ok lag au"
  let ?a = "snd (sweep_pending now (au_pending au) au)"
  let ?b = "snd (sweep_active now (au_active ?a) ?a)" and ?c = "snd (tk_sweep now au)"
  have a: "slots_ok lag ?a" "quiet au ?a" using sweep_pending_calm [of lag au] ok by (auto simp: calm_def)
  then have b: "slots_ok lag ?b" "quiet ?a ?b"
    using sweep_active_calm [OF a(1) snapshot_refl] slots_ok_table by auto
  have "?c = snd (sweep_staged now (au_staged ?b) ?b)" by (simp add: tk_sweep_def case_prod_unfold)
  then have "slots_ok lag ?c" "quiet ?b ?c" using sweep_staged_calm [of lag ?b] b(1) by (auto simp: calm_def)
  then show "slots_ok lag ?c \<and> quiet au ?c" using a(2) b(2) quiet_trans by blast
qed

abbreviation session_record :: "pystr \<Rightarrow> int \<Rightarrow> StagedRecord \<Rightarrow> bool" where
  "session_record sid ep r \<equiv> of_session sid ep (Some (sa_context (sr_handle r)))"

lemma revoke_staged_staged:
  "slots_ok lag au \<Longrightarrow> snapshot rs (au_staged au) \<Longrightarrow>
     map_of (au_staged (snd (revoke_staged sid ep rs ids au))) w =
       (case map_of (au_staged au) w of None \<Rightarrow> None
        | Some r \<Rightarrow> Some (if session_record sid ep r \<and> w \<in> fst ` set rs then r\<lparr>sr_stage := AS_FENCED\<rparr> else r))"
proof (induction rs arbitrary: au ids)
  case Nil
  then show ?case by (simp split: option.splits)
next
  case (Cons x rs)
  obtain v r where x: "x = (v, r)" by (cases x)
  note snap = Cons.prems(2) [unfolded x]
  have v: "v \<notin> fst ` set rs" using snap by (simp add: snapshot_def table_def)
  note st = fence_stored [OF Cons.prems(1) snapshot_hd [OF snap]]
  let ?b = "snd (tk_fence (sr_handle r) au)"
  have b: "slots_ok lag ?b" using fence_calm [of lag au] Cons.prems(1) by (simp add: calm_def)
  have m: "map_of (au_staged ?b) w' = (if w' = v then Some (r\<lparr>sr_stage := AS_FENCED\<rparr>) else map_of (au_staged au) w')" for w'
    using st by (simp add: fence_staged)
  have "snapshot rs (au_staged ?b)" by (rule snapshot_tl [OF snap]) (simp add: m)
  note step = Cons.IH [OF b this] and skip = Cons.IH [OF Cons.prems(1) snapshot_tl [OF snap]]
  show ?case using step skip v snapshot_hd [OF snap] by (auto simp: x m split: option.splits)
qed

lemma fence_active_le: "map_of (au_active (snd (tk_fence h au))) \<subseteq>\<^sub>m map_of (au_active au)"
  by (auto simp: map_le_def fence_active split: if_splits)

lemma revoke_staged_active: "map_of (au_active (snd (revoke_staged sid ep rs ids au))) \<subseteq>\<^sub>m map_of (au_active au)"
proof (induction rs arbitrary: au ids)
  case (Cons x rs)
  obtain v r where x: "x = (v, r)" by (cases x)
  show ?case using Cons [of _ au] map_le_trans [OF Cons [of _ "snd (tk_fence (sr_handle r) au)"] fence_active_le]
    by (simp add: x)
qed simp

lemma fence_pending [simp]: "au_pending (snd (tk_fence h au)) = au_pending au"
  by (simp add: tk_fence_def split: sum.splits)

lemma revoke_staged_pending [simp]: "au_pending (snd (revoke_staged sid ep rs ids au)) = au_pending au"
  by (induction sid ep rs ids au rule: revoke_staged.induct) auto

lemma revoke_active_pending [simp]: "au_pending (snd (revoke_active sid ep as au)) = au_pending au"
  by (induction sid ep as au rule: revoke_active.induct) (auto simp: retire_active_def split: prod.splits)

lemma revoke_active_active:
  "table (au_active au) \<Longrightarrow> snapshot as (au_active au) \<Longrightarrow>
     map_of (au_active (snd (revoke_active sid ep as au))) w = (case map_of (au_active au) w of None \<Rightarrow> None
       | Some a \<Rightarrow> if of_session sid ep (aa_context a) \<and> w \<in> fst ` set as then None else Some a)"
proof (induction as arbitrary: au)
  case Nil
  then show ?case by (simp split: option.splits)
next
  case (Cons x as)
  obtain v a where x: "x = (v, a)" by (cases x)
  note snap = Cons.prems(2) [unfolded x]
  have v: "v \<notin> fst ` set as" using snap by (simp add: snapshot_def table_def)
  let ?b = "retire_active v a au"
  have m: "map_of (au_active ?b) w' = (if w' = v then None else map_of (au_active au) w')" for w'
    by (simp add: retire_active_def table_simps)
  have b: "table (au_active ?b)" using Cons.prems(1) by (simp add: retire_active_def)
  have "snapshot as (au_active ?b)" by (rule snapshot_tl [OF snap]) (simp add: m)
  note step = Cons.IH [OF b this] and skip = Cons.IH [OF Cons.prems(1) snapshot_tl [OF snap]]
  show ?case using step skip v snapshot_hd [OF snap] by (auto simp: x m case_prod_unfold split: option.splits)
qed

lemma revoke_pending_pending:
  "snapshot ps (au_pending au) \<Longrightarrow>
     map_of (au_pending (snd (revoke_pending sid ep ps au))) d = (case map_of (au_pending au) d of None \<Rightarrow> None
       | Some p \<Rightarrow> if of_session sid ep (pt_context p) \<and> d \<in> fst ` set ps then None else Some p)"
proof (induction ps arbitrary: au)
  case Nil
  then show ?case by (simp split: option.splits)
next
  case (Cons x ps)
  obtain v p where x: "x = (v, p)" by (cases x)
  note snap = Cons.prems(1) [unfolded x]
  have v: "v \<notin> fst ` set ps" using snap by (simp add: snapshot_def table_def)
  let ?b = "burn_ticket v au"
  have m: "map_of (au_pending ?b) w' = (if w' = v then None else map_of (au_pending au) w')" for w'
    by (simp add: burn_ticket_def push_replayed_def Let_def table_simps)
  have "snapshot ps (au_pending ?b)" by (rule snapshot_tl [OF snap]) (simp add: m)
  note step = Cons.IH [OF this] and skip = Cons.IH [OF snapshot_tl [OF snap]]
  show ?case using step skip v snapshot_hd [OF snap] by (auto simp: x m case_prod_unfold split: option.splits)
qed

lemma in_keys: "map_of t k = Some v \<Longrightarrow> k \<in> fst ` set t"
  by (metis domI dom_map_of_conv_image_fst)

text \<open>Revocation takes every ticket, every lease and every staged admission of the session.\<close>

definition session_gone :: "pystr \<Rightarrow> int \<Rightarrow> AttachmentAuthority \<Rightarrow> bool" where
  "session_gone sid ep au \<longleftrightarrow>
     (\<forall>d p. map_of (au_pending au) d = Some p \<longrightarrow> \<not> of_session sid ep (pt_context p))
     \<and> (\<forall>w a. map_of (au_active au) w = Some a \<longrightarrow> \<not> of_session sid ep (aa_context a))
     \<and> (\<forall>w r. map_of (au_staged au) w = Some r \<longrightarrow> session_record sid ep r \<longrightarrow> sr_stage r = AS_FENCED)"

lemma revoke_session_ok:
  assumes ok: "authority_ok au"
  shows "authority_ok (snd (revoke_session sid ep au)) \<and> quiet au (snd (revoke_session sid ep au))"
    and "fst (revoke_session sid ep au) = Inr ids \<Longrightarrow> session_gone sid ep (snd (revoke_session sid ep au))"
proof -
  let ?lag = "session_record sid ep"
  let ?a = "snd (revoke_pending sid ep (au_pending au) au)" and ?i = "fst (revoke_pending sid ep (au_pending au) au)"
  let ?b = "snd (revoke_active sid ep (au_active ?a) ?a)" and ?j = "fst (revoke_active sid ep (au_active ?a) ?a)"
  let ?c = "snd (revoke_staged sid ep (au_staged ?b) (?i @ ?j) ?b)"
  have a: "authority_ok ?a" "quiet au ?a" using revoke_pending_calm [of _ au] ok by (auto simp: calm_def)
  have lag: "slots_ok ?lag ?a" using slots_ok_lag [OF a(1), of ?lag] by auto
  have b: "slots_ok ?lag ?b" "quiet ?a ?b"
    using revoke_active_calm [OF lag snapshot_refl] slots_ok_table [OF a(1)] by auto
  have c: "slots_ok ?lag ?c" "quiet ?b ?c" using revoke_staged_calm [of ?lag ?b] b(1) by (auto simp: calm_def)
  have st: "map_of (au_staged ?c) w = (case map_of (au_staged ?b) w of None \<Rightarrow> None
        | Some r \<Rightarrow> Some (if ?lag r \<and> w \<in> fst ` set (au_staged ?b) then r\<lparr>sr_stage := AS_FENCED\<rparr> else r))" for w
    using slots_ok_table [OF b(1)] by (intro revoke_staged_staged [OF b(1)] snapshot_refl) simp
  have fenced: "sr_stage r = AS_FENCED" if "map_of (au_staged ?c) w = Some r" "?lag r" for w r
    using that st [of w] by (auto split: option.splits if_splits dest: in_keys)
  have "authority_ok ?c" by (rule slots_ok_lag [OF c(1)]) (simp add: fenced)
  moreover have q: "quiet au ?c" using a(2) b(2) c(2) quiet_trans by blast
  ultimately show "authority_ok (snd (revoke_session sid ep au)) \<and> quiet au (snd (revoke_session sid ep au))"
    using ok by (simp add: revoke_session_def case_prod_unfold)
  assume "fst (revoke_session sid ep au) = Inr ids"
  then have r: "snd (revoke_session sid ep au) = ?c"
    by (auto simp: revoke_session_def case_prod_unfold split: if_splits)
  have "map_of (au_active ?c) w \<noteq> Some x" if "of_session sid ep (aa_context x)" for w x
    using revoke_active_active [OF _ snapshot_refl, of ?a sid ep w] slots_ok_table [OF a(1)] that
      revoke_staged_active [of sid ep "au_staged ?b" "?i @ ?j" ?b]
    by (auto simp: map_le_def dom_def split: option.splits if_splits dest: in_keys)
  moreover have "map_of (au_pending ?c) d \<noteq> Some x" if "of_session sid ep (pt_context x)" for d x
    using revoke_pending_pending [OF snapshot_refl, of au sid ep d] slots_ok_table [OF ok] that
    by (auto split: option.splits if_splits dest: in_keys)
  ultimately show "session_gone sid ep (snd (revoke_session sid ep au))"
    unfolding r session_gone_def using fenced by blast
qed

section \<open>Shutdown\<close>

lemma burn_active_active:
  "authority_ok au \<Longrightarrow> snapshot as (au_active au) \<Longrightarrow>
     map_of (au_active (burn_active as au)) w = (if w \<in> fst ` set as then None else map_of (au_active au) w)"
proof (induction as arbitrary: au)
  case (Cons x as)
  obtain v a where x: "x = (v, a)" by (cases x)
  note snap = Cons.prems(2) [unfolded x]
  let ?b = "if map_of (au_staged au) v \<noteq> None then fence_workspace v au else retire_active v a au"
  have ok: "authority_ok ?b"
    using retire_calm [OF Cons.prems(1) snapshot_hd [OF snap]] fence_workspace_calm [of _ au v] Cons.prems(1)
    by (auto simp: calm_def)
  have m: "map_of (au_active ?b) w' = (if w' = v then None else map_of (au_active au) w')" for w'
    using fence_stored [OF Cons.prems(1), of v]
    by (auto simp: retire_active_def fence_workspace_def fence_active table_simps)
  have "snapshot as (au_active ?b)" by (rule snapshot_tl [OF snap]) (unfold m, simp)
  from Cons.IH [OF ok this] show ?case unfolding x burn_active.simps m by simp
qed simp

lemma burn_staged_staged:
  "slots_ok lag au \<Longrightarrow> snapshot rs (au_staged au) \<Longrightarrow>
     map_of (au_staged (burn_staged rs au)) w = (case map_of (au_staged au) w of None \<Rightarrow> None
        | Some r \<Rightarrow> Some (if w \<in> fst ` set rs then r\<lparr>sr_stage := AS_FENCED\<rparr> else r))"
proof (induction rs arbitrary: au)
  case Nil
  then show ?case by (simp split: option.splits)
next
  case (Cons x rs)
  obtain v r where x: "x = (v, r)" by (cases x)
  note snap = Cons.prems(2) [unfolded x]
  have v: "v \<notin> fst ` set rs" using snap by (simp add: snapshot_def table_def)
  note st = fence_stored [OF Cons.prems(1) snapshot_hd [OF snap]]
  let ?b = "snd (tk_fence (sr_handle r) au)"
  have b: "slots_ok lag ?b" using fence_calm [of lag au] Cons.prems(1) by (simp add: calm_def)
  have m: "map_of (au_staged ?b) w' = (if w' = v then Some (r\<lparr>sr_stage := AS_FENCED\<rparr>) else map_of (au_staged au) w')" for w'
    using st by (simp add: fence_staged)
  have same: "r\<lparr>sr_stage := AS_FENCED\<rparr> = r" if "sr_stage r = AS_FENCED" using that by (cases r) simp
  have "snapshot rs (au_staged ?b)" by (rule snapshot_tl [OF snap]) (simp add: m)
  note step = Cons.IH [OF b this] and skip = Cons.IH [OF Cons.prems(1) snapshot_tl [OF snap]]
  show ?case using step skip v snapshot_hd [OF snap] same by (auto simp: x m split: option.splits)
qed

lemma burn_staged_active: "map_of (au_active (burn_staged rs au)) \<subseteq>\<^sub>m map_of (au_active au)"
proof (induction rs arbitrary: au)
  case (Cons x rs)
  obtain v r where x: "x = (v, r)" by (cases x)
  show ?case using Cons [of au] map_le_trans [OF Cons [of "snd (tk_fence (sr_handle r) au)"] fence_active_le]
    by (simp add: x)
qed simp

lemma burn_staged_pending [simp]: "au_pending (burn_staged rs au) = au_pending au"
  by (induction rs au rule: burn_staged.induct) auto

lemma burn_active_pending [simp]: "au_pending (burn_active as au) = au_pending au"
  by (induction as au rule: burn_active.induct) (auto simp: retire_active_def fence_workspace_def split: option.splits)

text \<open>No ticket and no active lease is left, and every staged admission is fenced.\<close>

definition all_fenced :: "AttachmentAuthority \<Rightarrow> bool" where
  "all_fenced au \<longleftrightarrow> au_pending au = [] \<and> au_active au = []
     \<and> (\<forall>w r. map_of (au_staged au) w = Some r \<longrightarrow> sr_stage r = AS_FENCED)"

lemma clear_pending_calm: "calm lag au (au\<lparr>au_pending := []\<rparr>)"
  by (simp add: calm_def slot_simps)

lemma burn_all_ok:
  assumes ok: "authority_ok au"
  shows "authority_ok (burn_pending_and_fence_live_records au) \<and> quiet au (burn_pending_and_fence_live_records au)
     \<and> all_fenced (burn_pending_and_fence_live_records au)"
proof -
  define a where "a = (fold push_replayed (map fst (au_pending au)) au)\<lparr>au_pending := []\<rparr>"
  define b where "b = burn_active (au_active a) a"
  define c where "c = burn_staged (au_staged b) b"
  have c_def': "burn_pending_and_fence_live_records au = c"
    by (simp add: burn_pending_and_fence_live_records_def Let_def a_def b_def c_def)
  have a: "authority_ok a" "quiet au a"
    using calm_trans [OF push_all_calm clear_pending_calm] ok unfolding a_def by (auto simp: calm_def)
  have b: "authority_ok b" "quiet a b"
    using burn_active_calm [OF a(1) snapshot_refl] slots_ok_table [OF a(1)] unfolding b_def by auto
  have c: "authority_ok c" "quiet b c" using burn_staged_calm [of _ b] b(1) unfolding c_def by (auto simp: calm_def)
  have "map_of (au_active b) w = None" for w
    using burn_active_active [OF a(1) snapshot_refl, of w] slots_ok_table [OF a(1)]
    by (cases "w \<in> fst ` set (au_active a)") (simp_all add: b_def map_of_eq_None_iff)
  moreover have "map_of (au_active c) \<subseteq>\<^sub>m map_of (au_active b)" unfolding c_def by (rule burn_staged_active)
  ultimately have "map_of (au_active c) w = None" for w
    using map_le_implies_dom_le by (metis domIff subsetD)
  then have "map_of (au_active c) = Map.empty" by (rule ext)
  then have act: "au_active c = []" by (simp only: map_of_eq_empty_iff)
  have "sr_stage r = AS_FENCED" if "map_of (au_staged c) w = Some r" for w r
    using that burn_staged_staged [OF b(1) snapshot_refl, of w] slots_ok_table [OF b(1)]
    by (auto simp: c_def split: option.splits if_splits dest: in_keys)
  moreover have "au_pending c = []" by (simp add: c_def b_def a_def)
  ultimately have "all_fenced c" using act by (simp add: all_fenced_def)
  then show ?thesis unfolding c_def' using c a(2) b(2) quiet_trans by blast
qed

lemma start_shutdown_calm: "calm lag au (au\<lparr>au_shutdown_started := True\<rparr>)"
  by (simp add: calm_def slot_simps)

lemma invalidate_all_ok:
  "authority_ok au \<Longrightarrow> authority_ok (invalidate_all au) \<and> quiet au (invalidate_all au)"
  using burn_all_ok by (simp add: invalidate_all_def)

lemma begin_shutdown_ok:
  assumes ok: "authority_ok au"
  shows "authority_ok (begin_shutdown au) \<and> quiet au (begin_shutdown au)"
proof -
  let ?a = "au\<lparr>au_shutdown_started := True\<rparr>"
  have "authority_ok ?a" "quiet au ?a" using start_shutdown_calm [of _ au] ok by (auto simp: calm_def)
  then show ?thesis using burn_all_ok [of ?a] quiet_trans ok by (auto simp: begin_shutdown_def)
qed

section \<open>Issuing, consuming and reserving\<close>

lemma lease_number_calm: "calm lag au (au\<lparr>au_next_lease_number := n\<rparr>)"
  by (simp add: calm_def slot_simps)

lemma draw_ticket_fresh:
  "draw_ticket rnd i n au = Inr (t, d) \<Longrightarrow>
     ticket_digest t = Inr d \<and> map_of (au_pending au) d = None \<and> d \<notin> set (au_replayed au)"
proof (induction n arbitrary: i)
  case (Suc n)
  from Suc.prems obtain t' d' where d: "ticket_digest t' = Inr d'"
    and r: "(if map_of (au_pending au) d' = None \<and> d' \<notin> set (au_replayed au)
             then Inr (t', d') else draw_ticket rnd (Suc i) n au) = Inr (t, d)"
    unfolding draw_ticket.simps ebind_Inr by blast
  show ?case
  proof (cases "map_of (au_pending au) d' = None \<and> d' \<notin> set (au_replayed au)")
    case True
    with r d show ?thesis by simp
  next
    case False
    with r have "draw_ticket rnd (Suc i) n au = Inr (t, d)" by (simp only: if_False)
    then show ?thesis by (rule Suc.IH)
  qed
qed simp

lemma issue_fail: "tk_issue q agt orig ctx disp rnd now au = (Inl e, au') \<Longrightarrow> calm lag au au'"
proof -
  assume *: "tk_issue q agt orig ctx disp rnd now au = (Inl e, au')"
  have c: "calm lag au ((snd (tk_sweep now au))\<lparr>au_next_lease_number := n\<rparr>)" for n
    by (rule calm_trans [OF sweep_calm lease_number_calm])
  show ?thesis using *
    by (auto simp: tk_issue_def Let_def allocate_lease_number_def c split: if_splits sum.splits prod.splits)
qed

lemma issue_ok:
  assumes "tk_issue q agt orig ctx disp rnd now au = (Inr t, au')"
  obtains d p b n where "ticket_digest (it_ticket t) = Inr d" "calm (\<lambda>_. False) au b"
    "map_of (au_pending b) d = None" "pt_context p = ctx" "pt_claims p = it_claims t"
    "record_count b < au_max_records b"
    "\<forall>c. ctx = Some c \<longrightarrow> admin_count (cx_user_id c) b < au_max_per_admin b"
    "au' = b\<lparr>au_pending := AList.update d p (au_pending b)\<rparr>"
proof -
  let ?b = "snd (tk_sweep now au)"
  have c: "calm (\<lambda>_. False) au (?b\<lparr>au_next_lease_number := n\<rparr>)" for n
    by (rule calm_trans [OF sweep_calm lease_number_calm])
  have count: "record_count (?b\<lparr>au_next_lease_number := n\<rparr>) = record_count ?b"
    "admin_count u (?b\<lparr>au_next_lease_number := n\<rparr>) = admin_count u ?b" for n u
    by (simp_all add: record_count_def writer_keys_def admin_count_def)
  obtain claims tkt d n where f: "draw_ticket rnd 0 3 (?b\<lparr>au_next_lease_number := n\<rparr>) = Inr (tkt, d)"
      "it_ticket t = tkt" "it_claims t = claims" "record_count ?b < au_max_records ?b"
      "\<forall>c. ctx = Some c \<longrightarrow> admin_count (cx_user_id c) ?b < au_max_per_admin ?b"
      "au' = ?b\<lparr>au_next_lease_number := n, au_pending := AList.update d
         \<lparr>pt_digest = d, pt_claims = claims, pt_issued_at = now,
          pt_expires_at = now + au_ticket_ttl ?b, pt_context = ctx\<rparr> (au_pending ?b)\<rparr>"
    using assms
    by (auto simp: tk_issue_def Let_def allocate_lease_number_def result_simps not_le simp del: draw_ticket.simps
        split: if_splits sum.splits prod.splits option.splits)
  show thesis
    by (rule that [OF _ c [of n], of d "\<lparr>pt_digest = d, pt_claims = claims, pt_issued_at = now,
          pt_expires_at = now + au_ticket_ttl ?b, pt_context = ctx\<rparr>"])
      (use draw_ticket_fresh [OF f(1)] f count in simp_all)
qed

lemma take_pending_ok:
  "take_pending ticket au = (Inr p, au') \<longleftrightarrow>
     (\<exists>d. ticket_digest ticket = Inr d \<and> map_of (au_pending au) d = Some p \<and> au' = burn_ticket d au)"
  by (auto simp: take_pending_def split: sum.splits option.splits)

lemma take_pending_fail: "take_pending ticket au = (Inl e, au') \<Longrightarrow> au' = au"
  by (auto simp: take_pending_def split: sum.splits option.splits)

lemma take_pending_cases:
  obtains e where "take_pending ticket au = (Inl e, au)"
  | d p where "ticket_digest ticket = Inr d" "map_of (au_pending au) d = Some p"
      "take_pending ticket au = (Inr p, burn_ticket d au)"
  by (cases "take_pending ticket au"; cases "fst (take_pending ticket au)")
    (auto simp: take_pending_ok dest: take_pending_fail)

lemma expire_calm_at: "map_of (au_active au) w = Some a \<Longrightarrow> calm lag au (expire_active w a au)"
  using expire_calm unfolding calm_def by blast

lemma consume_fail:
  assumes "tk_consume ticket expd ctx now au = (Inl e, au')"
  shows "calm lag au au'"
proof (cases rule: take_pending_cases [of ticket au])
  case (1 e')
  then show ?thesis using assms by (auto simp: tk_consume_def split: if_splits)
next
  case (2 d p)
  let ?b = "burn_ticket d au"
  have "calm lag au (expire_active w a ?b)" if "map_of (au_active ?b) w = Some a" for w a
    by (rule calm_trans [OF burn_calm expire_calm_at [OF that]])
  then show ?thesis using assms
    by (auto simp: tk_consume_def 2(3) Let_def split: if_splits sum.splits option.splits)
qed

lemma consume_ok:
  assumes "tk_consume ticket expd ctx now au = (Inr l, au')"
  obtains d p where "ticket_digest ticket = Inr d" "map_of (au_pending au) d = Some p"
    "pt_claims p = expd" "now < pt_expires_at p" "aa_claims l = expd" "aa_context l = pt_context p"
    "\<not> slot_taken (at_workspace_id expd) (burn_ticket d au)"
    "length (writer_keys (burn_ticket d au)) < au_max_writers (burn_ticket d au)"
    "au' = (burn_ticket d au)\<lparr>au_active := AList.update (at_workspace_id expd) l (au_active (burn_ticket d au))\<rparr>"
proof (cases rule: take_pending_cases [of ticket au])
  case (1 e')
  then show ?thesis using assms by (auto simp: tk_consume_def split: if_splits)
next
  case (2 d p)
  show ?thesis
    by (rule that [OF 2(1,2)]) (use assms in \<open>auto simp: tk_consume_def 2(3) Let_def not_le same_tuple_eq
      split: if_splits sum.splits option.splits\<close>)
qed

lemma reserve_fail:
  assumes "tk_reserve ticket expd ctx conn st now pres pe au = (Inl e, au')"
  shows "calm lag au au'"
proof (cases rule: take_pending_cases [of ticket au])
  case (1 e')
  then show ?thesis using assms by (auto simp: tk_reserve_def split: if_splits)
next
  case (2 d p)
  have c: "calm lag au (snd (tk_sweep now (burn_ticket d au)))"
    by (rule calm_trans [OF burn_calm sweep_calm])
  then show ?thesis using assms
    by (auto simp: tk_reserve_def 2(3) Let_def split: if_splits sum.splits option.splits)
qed

lemma reserve_checks_ok:
  "reserve_checks expd ctx conn st now pres pe p ep = Inr u \<Longrightarrow> pt_claims p = expd \<and> now < pt_expires_at p"
  by (auto simp: reserve_checks_def same_tuple_eq split: if_splits option.splits)

lemma reserve_ok:
  assumes "tk_reserve ticket expd ctx conn st now pres pe au = (Inr h, au')"
  obtains d p b where "ticket_digest ticket = Inr d" "map_of (au_pending au) d = Some p"
    "pt_claims p = expd" "now < pt_expires_at p" "b = snd (tk_sweep now (burn_ticket d au))"
    "sa_claims h = expd" "ctx = Some (sa_context h)" "sa_id h = au_next_handle b"
    "\<not> slot_taken (at_workspace_id expd) b" "length (writer_keys b) < au_max_writers b"
    "admin_count (cx_user_id (sa_context h)) b < au_max_per_admin b"
    "au' = b\<lparr>au_staged := AList.update (at_workspace_id expd) \<lparr>sr_handle = h, sr_stage = AS_RESERVED\<rparr> (au_staged b),
            au_next_handle := Suc (au_next_handle b)\<rparr>"
proof (cases rule: take_pending_cases [of ticket au])
  case (1 e')
  then show ?thesis using assms by (auto simp: tk_reserve_def split: if_splits)
next
  case (2 d p)
  show ?thesis
    by (rule that [OF 2(1,2) _ _ refl]) (use assms in \<open>auto simp: tk_reserve_def 2(3) Let_def not_le
      split: if_splits sum.splits option.splits dest!: reserve_checks_ok\<close>)
qed

section \<open>Stages and leases\<close>

lemma check_reserved_ok:
  "check_reserved h now au = (Inr r, au') \<Longrightarrow>
     au' = au \<and> exact_staged h au = Inr r \<and> sr_stage r \<notin> {AS_FENCED, AS_ACTIVE}
     \<and> sa_started_at h \<le> now \<and> now < sa_deadline h \<and> now < sa_lease_expires_at h"
  by (auto simp: check_reserved_def split: sum.splits if_splits)

lemma check_reserved_fail: "check_reserved h now au = (Inl e, au') \<Longrightarrow> calm lag au au'"
  using check_reserved_calm [of lag au h now] by simp

lemma advance_fail: "tk_advance h stage now au = (Inl e, au') \<Longrightarrow> calm lag au au'"
  by (auto simp: tk_advance_def split: if_splits sum.splits prod.splits
      dest!: check_reserved_ok intro: check_reserved_fail)

lemma advance_ok:
  assumes "tk_advance h stage now au = (Inr u, au')"
  obtains s where "exact_staged h au = Inr \<lparr>sr_handle = h, sr_stage = s\<rparr>" "s \<notin> {AS_FENCED, AS_ACTIVE}"
    "stage \<notin> {AS_FENCED, AS_ACTIVE}" "stage_index stage = Suc (stage_index s)" "now < sa_deadline h"
    "au' = set_stage h stage au"
proof -
  obtain r where r: "check_reserved h now au = (Inr r, au)" "stage \<notin> {AS_ACTIVE, AS_FENCED}"
      "stage_index stage = stage_index (sr_stage r) + 1" "au' = set_stage h stage au"
    using assms by (auto simp: tk_advance_def split: if_splits sum.splits prod.splits dest!: check_reserved_ok)
  from check_reserved_ok [OF r(1)] have "r = \<lparr>sr_handle = h, sr_stage = sr_stage r\<rparr>" by (cases r) (auto simp: exact_staged_Inr)
  then show thesis using that [of "sr_stage r"] check_reserved_ok [OF r(1)] r by auto
qed

lemma set_stage_ok:
  assumes ok: "authority_ok au" and r: "exact_staged h au = Inr \<lparr>sr_handle = h, sr_stage = s\<rparr>"
    and "s \<notin> {AS_FENCED, AS_ACTIVE}" "stage \<notin> {AS_FENCED, AS_ACTIVE}"
  shows "authority_ok (set_stage h stage au) \<and> slots (set_stage h stage au) = slots au"
proof -
  have m: "map_of (au_staged au) (tk_ws h) = Some \<lparr>sr_handle = h, sr_stage = s\<rparr>"
    using r by (simp add: exact_staged_Inr)
  have "slot_ok (\<lambda>_. False) (tk_ws h) (map_of (au_active au) (tk_ws h)) (map_of (au_cleanup_pending au) (tk_ws h))
      (map_of (au_cleanup_contexts au) (tk_ws h)) (Some \<lparr>sr_handle = h, sr_stage = stage\<rparr>)"
    using slot_okD [OF ok, of "tk_ws h"] m assms(3,4)
    by (auto simp: slot_ok_def staged_ok_def Let_def split: AdmissionStage.splits)
  moreover have "slots (set_stage h stage au) = slots au"
    using m by (cases "map_of (au_active au) (tk_ws h)") (auto simp: slots_def set_stage_def table_simps fun_eq_iff)
  moreover have "sa_id h < au_next_handle au" using ok m unfolding slots_ok_def by fastforce
  ultimately show ?thesis using ok by (auto simp: slots_ok_def set_stage_def table_simps)
qed

lemma activate_fail: "activate_with_publication h pub now now2 q au = (Inl e, q', au') \<Longrightarrow> calm lag au au'"
  by (auto simp: activate_with_publication_def Let_def split: if_splits sum.splits prod.splits bool.splits
      dest!: check_reserved_ok intro: check_reserved_fail calm_trans [OF check_reserved_fail fence_calm])

lemma activate_ok:
  assumes "activate_with_publication h pub now now2 q au = (Inr l, q', au')"
  shows "exact_staged h au = Inr \<lparr>sr_handle = h, sr_stage = AS_ADMITTED_AUDITED\<rparr>
     \<and> now2 < sa_deadline h \<and> now2 < sa_lease_expires_at h \<and> pub_release pub q = (True, q')
     \<and> aa_claims l = sa_claims h \<and> aa_context l = Some (sa_context h)
     \<and> au' = (set_stage h AS_ACTIVE au)\<lparr>au_active := AList.update (tk_ws h) l (au_active au)\<rparr>"
proof -
  obtain r where r: "exact_staged h au = Inr r" "sr_stage r = AS_ADMITTED_AUDITED"
      "now2 < sa_deadline h" "now2 < sa_lease_expires_at h"
      "pub_release pub q = (True, q')" "aa_claims l = sa_claims h" "aa_context l = Some (sa_context h)"
      "au' = (set_stage h AS_ACTIVE au)\<lparr>au_active := AList.update (tk_ws h) l (au_active au)\<rparr>"
    using assms by (auto simp: activate_with_publication_def Let_def
        split: if_splits sum.splits prod.splits bool.splits dest!: check_reserved_ok)
  have "r = \<lparr>sr_handle = h, sr_stage = AS_ADMITTED_AUDITED\<rparr>"
    using r(1,2) by (cases r) (auto simp: exact_staged_Inr)
  then show ?thesis using r by simp
qed

lemma activated_ok:
  assumes ok: "authority_ok au" and r: "exact_staged h au = Inr \<lparr>sr_handle = h, sr_stage = AS_ADMITTED_AUDITED\<rparr>"
    and l: "aa_claims l = sa_claims h" "aa_context l = Some (sa_context h)"
    and au': "au' = (set_stage h AS_ACTIVE au)\<lparr>au_active := AList.update (tk_ws h) l (au_active au)\<rparr>"
  shows "authority_ok au' \<and> slots au' = slots au"
proof -
  have m: "map_of (au_staged au) (tk_ws h) = Some \<lparr>sr_handle = h, sr_stage = AS_ADMITTED_AUDITED\<rparr>"
    using r by (simp add: exact_staged_Inr)
  have none: "map_of (au_active au) (tk_ws h) = None" "map_of (au_cleanup_pending au) (tk_ws h) = None"
      "map_of (au_cleanup_contexts au) (tk_ws h) = None"
    using slot_okD [OF ok, of "tk_ws h"] m by (auto simp: slot_ok_def staged_ok_def)
  have "sa_id h < au_next_handle au" using ok m unfolding slots_ok_def by fastforce
  then show ?thesis
    using ok m none l by (auto simp: au' set_stage_def slots_ok_def slot_ok_def staged_ok_def Let_def slots_def
        table_simps fun_eq_iff)
qed

lemma exact_lease_Some:
  "exact_lease expd ctx au = Inr (Some a) \<Longrightarrow> map_of (au_active au) (at_workspace_id expd) = Some a \<and> aa_claims a = expd"
  by (auto simp: exact_lease_def same_tuple_eq result_simps split: option.splits if_splits)

lemma renew_calm:
  assumes a: "map_of (au_active au) w = Some a" and b: "aa_claims b = aa_claims a" "aa_context b = aa_context a"
  shows "calm lag au (au\<lparr>au_active := AList.update w b (au_active au)\<rparr>)"
  unfolding calm_def
proof (rule impI)
  assume ok: "slots_ok lag au"
  have "slot_ok lag w (Some b) (map_of (au_cleanup_pending au) w) (map_of (au_cleanup_contexts au) w)
      (map_of (au_staged au) w)"
    using slot_okD [OF ok, of w] a b by (auto simp: slot_ok_def staged_ok_def Let_def split: option.splits AdmissionStage.splits)
  then show "slots_ok lag (au\<lparr>au_active := AList.update w b (au_active au)\<rparr>)
      \<and> quiet au (au\<lparr>au_active := AList.update w b (au_active au)\<rparr>)"
    using ok a b by (auto simp: slots_ok_def quiet_def same_limits_def slots_def table_simps fun_eq_iff)
qed

lemma heartbeat_calm: "calm lag au (snd (tk_heartbeat expd ctx now au))"
  by (auto simp: tk_heartbeat_def Let_def split: sum.splits option.splits
      dest!: exact_lease_Some intro!: renew_calm expire_calm_at)

lemma is_active_calm: "calm lag au (snd (tk_is_active expd ctx now au))"
  by (auto simp: tk_is_active_def split: sum.splits option.splits dest!: exact_lease_Some intro!: expire_calm_at)

lemma read_published_calm: "calm lag au (snd (snd (read_published h pub now q au)))"
  using is_active_calm [of lag au "sa_claims h" "Some (sa_context h)" now]
  by (auto simp: read_published_def split: sum.splits prod.splits)

section \<open>Freeing a slot\<close>

text \<open>A slot is freed by the exact detachment of an unstaged lease, or by a cleanup proof.\<close>

definition freed :: "pystr \<Rightarrow> AttachmentTuple \<Rightarrow> AttachmentAuthority \<Rightarrow> AttachmentAuthority \<Rightarrow> bool" where
  "freed w c au au' \<longleftrightarrow> (\<exists>x. slots au w = Some (c, x)) \<and> slots au' = (slots au)(w := None)
     \<and> au_pending au' = au_pending au \<and> same_limits au au' \<and> map_of (au_active au') \<subseteq>\<^sub>m map_of (au_active au)
     \<and> au_shutdown_started au' = au_shutdown_started au \<and> au_next_handle au' = au_next_handle au
     \<and> map_of (au_staged au') \<subseteq>\<^sub>m map_of (au_staged au)"

lemma detach_fail: "tk_detach expd ctx now au = (Inl e, au') \<Longrightarrow> calm lag au au'"
  by (auto simp: tk_detach_def Let_def split: sum.splits option.splits if_splits
      dest!: exact_lease_Some intro!: expire_calm_at)

lemma detach_staged: "tk_detach expd ctx now au = (Inr a, au') \<Longrightarrow>
    map_of (au_staged au) (at_workspace_id expd) \<noteq> None \<Longrightarrow> calm lag au au'"
  by (auto simp: tk_detach_def Let_def split: sum.splits option.splits if_splits)

lemma detach_ok:
  assumes d: "tk_detach expd ctx now au = (Inr a, au')" and st: "map_of (au_staged au) (at_workspace_id expd) = None"
    and ok: "authority_ok au"
  shows "authority_ok au' \<and> freed (at_workspace_id expd) expd au au'"
proof -
  let ?w = "at_workspace_id expd"
  have au': "au' = au\<lparr>au_active := AList.delete ?w (au_active au)\<rparr>"
    and a: "map_of (au_active au) ?w = Some a" "aa_claims a = expd"
    using d st by (auto simp: tk_detach_def Let_def split: sum.splits option.splits if_splits dest!: exact_lease_Some)
  have none: "map_of (au_cleanup_pending au) ?w = None" "map_of (au_cleanup_contexts au) ?w = None"
    using slot_okD [OF ok, of ?w] a by (auto simp: slot_ok_def)
  show ?thesis using ok a none st
    by (auto simp: au' slots_ok_def slot_ok_def freed_def slots_def same_limits_def table_simps fun_eq_iff map_le_def)
qed

lemma acknowledge_staged_ok:
  assumes k: "acknowledge_staged_cleanup h conn st audited au = (Inr u, au')" and ok: "authority_ok au"
  shows "authority_ok au' \<and> freed (tk_ws h) (sa_claims h) au au'"
proof -
  obtain r where r: "map_of (au_staged au) (tk_ws h) = Some r" "sr_handle r = h" "sr_stage r = AS_FENCED"
      "au' = au\<lparr>au_staged := AList.delete (tk_ws h) (au_staged au),
                  au_cleanup_pending := AList.delete (tk_ws h) (au_cleanup_pending au),
                  au_cleanup_contexts := AList.delete (tk_ws h) (au_cleanup_contexts au)\<rparr>"
    using k by (auto simp: acknowledge_staged_cleanup_def exact_staged_Inr split: sum.splits if_splits)
  have a: "map_of (au_active au) (tk_ws h) = None"
    using slot_okD [OF ok, of "tk_ws h"] r by (auto simp: slot_ok_def staged_ok_def Let_def split: option.splits)
  show ?thesis using ok a r(1,2)
    by (auto simp: r(4) slots_ok_def slot_ok_def freed_def slots_def same_limits_def table_simps fun_eq_iff map_le_def)
qed

lemma acknowledge_cleanup_ok:
  assumes k: "tk_acknowledge_cleanup expd st au = (Inr u, au')" and ok: "authority_ok au"
  shows "authority_ok au' \<and> freed (at_workspace_id expd) expd au au'"
proof -
  let ?w = "at_workspace_id expd"
  have r: "map_of (au_staged au) ?w = None" "map_of (au_cleanup_pending au) ?w = Some expd"
      "au' = au\<lparr>au_cleanup_pending := AList.delete ?w (au_cleanup_pending au),
                  au_cleanup_contexts := AList.delete ?w (au_cleanup_contexts au)\<rparr>"
    using k by (auto simp: tk_acknowledge_cleanup_def Let_def same_tuple_eq split: option.splits if_splits)
  have a: "map_of (au_active au) ?w = None"
    using slot_okD [OF ok, of ?w] r by (auto simp: slot_ok_def split: option.splits)
  show ?thesis using ok a r(1,2)
    by (auto simp: r(3) slots_ok_def slot_ok_def freed_def slots_def same_limits_def table_simps fun_eq_iff)
qed

end
