(* ===== verification/Ticket_Trace.thy ===== *)
theory Ticket_Trace
  imports Ticket_Safety
begin

text \<open>
  Runs of the attachment authority and what holds along them. A call is one step labelled with what
  it did; \<open>slot_step\<close> is the abstract contract over the tickets and the writer slots, and the
  authority refines it. The bounds and the use of a ticket are shown of the contract.
\<close>

section \<open>Labelled runs and their refinement\<close>

inductive run :: "('e \<Rightarrow> 's \<Rightarrow> 's \<Rightarrow> bool) \<Rightarrow> 'e list \<Rightarrow> 's \<Rightarrow> 's \<Rightarrow> bool" for step where
  run_nil: "run step [] s s"
| run_snoc: "run step evs s s' \<Longrightarrow> step e s' s'' \<Longrightarrow> run step (evs @ [e]) s s''"

inductive_simps run_nil_simps [simp]: "run step [] s s'"

lemma run_cons: "run step evs s' s'' \<Longrightarrow> step e s s' \<Longrightarrow> run step (e # evs) s s''"
  by (induction rule: run.induct) (auto intro: run.intros(2) run.intros(2) [of _ "[]", simplified] simp flip: append_Cons)

lemma run_append: "run step ys s' s'' \<Longrightarrow> run step xs s s' \<Longrightarrow> run step (xs @ ys) s s''"
  by (induction rule: run.induct) (auto intro: run_snoc simp flip: append_assoc)

text \<open>A detailed system whose steps are steps of an abstract one, event by event.\<close>

locale stepwise_refinement =
  fixes cstep :: "'e \<Rightarrow> 'c \<Rightarrow> 'c \<Rightarrow> bool" and astep :: "'e \<Rightarrow> 'a \<Rightarrow> 'a \<Rightarrow> bool"
    and inv :: "'c \<Rightarrow> bool" and absv :: "'c \<Rightarrow> 'a"
  assumes refines: "cstep e c c' \<Longrightarrow> inv c \<Longrightarrow> inv c' \<and> astep e (absv c) (absv c')"
begin

lemma run_refines: "run cstep evs c c' \<Longrightarrow> inv c \<Longrightarrow> inv c' \<and> run astep evs (absv c) (absv c')"
  by (induction rule: run.induct) (auto intro: run.intros dest: refines)

lemma run_invariant:
  assumes "\<And>e a a'. astep e a a' \<Longrightarrow> P a \<Longrightarrow> P a'" and "run cstep evs c c'" "inv c" "P (absv c)"
  shows "P (absv c')"
  using assms(2-)
proof (induction rule: run.induct)
  case (run_snoc evs s s' e s'')
  then show ?case using run_refines [OF run_snoc(1)] refines [OF run_snoc(2)] assms(1) by blast
qed

end

section \<open>Calls as steps\<close>

datatype tk_event = Ev_issued bytes | Ev_admitted bytes pystr | Ev_reserved bytes StagedAttachment
  | Ev_advanced StagedAttachment AdmissionStage | Ev_activated StagedAttachment
  | Ev_freed pystr AttachmentTuple | Ev_quiet

inductive tk_step :: "tk_event \<Rightarrow> AttachmentAuthority \<Rightarrow> AttachmentAuthority \<Rightarrow> bool" where
  st_issue: "tk_issue q agt orig ctx disp rnd now au = (Inr t, au') \<Longrightarrow> ticket_digest (it_ticket t) = Inr d
     \<Longrightarrow> tk_step (Ev_issued d) au au'"
| st_issue_fail: "tk_issue q agt orig ctx disp rnd now au = (Inl e, au') \<Longrightarrow> tk_step Ev_quiet au au'"
| st_consume: "tk_consume ticket expd ctx now au = (Inr l, au') \<Longrightarrow> ticket_digest ticket = Inr d
     \<Longrightarrow> tk_step (Ev_admitted d (at_workspace_id expd)) au au'"
| st_consume_fail: "tk_consume ticket expd ctx now au = (Inl e, au') \<Longrightarrow> tk_step Ev_quiet au au'"
| st_reserve: "tk_reserve ticket expd ctx conn st now pres pe au = (Inr h, au') \<Longrightarrow> ticket_digest ticket = Inr d
     \<Longrightarrow> tk_step (Ev_reserved d h) au au'"
| st_reserve_fail: "tk_reserve ticket expd ctx conn st now pres pe au = (Inl e, au') \<Longrightarrow> tk_step Ev_quiet au au'"
| st_check: "check_reserved h now au = (res, au') \<Longrightarrow> tk_step Ev_quiet au au'"
| st_advance: "tk_advance h stage now au = (Inr u, au') \<Longrightarrow> tk_step (Ev_advanced h stage) au au'"
| st_advance_fail: "tk_advance h stage now au = (Inl e, au') \<Longrightarrow> tk_step Ev_quiet au au'"
| st_activate: "activate_with_publication h pub now now2 (p :: bytes list) au = (Inr l, p', au') \<Longrightarrow> tk_step (Ev_activated h) au au'"
| st_activate_fail: "activate_with_publication h pub now now2 (p :: bytes list) au = (Inl e, p', au') \<Longrightarrow> tk_step Ev_quiet au au'"
| st_fence: "tk_fence h au = (res, au') \<Longrightarrow> tk_step Ev_quiet au au'"
| st_read: "read_published h pub now (p :: bytes list) au = (res', p', au') \<Longrightarrow> tk_step Ev_quiet au au'"
| st_ack_staged: "acknowledge_staged_cleanup h conn' cs audited au = (Inr u, au') \<Longrightarrow>
     tk_step (Ev_freed (tk_ws h) (sa_claims h)) au au'"
| st_heartbeat: "tk_heartbeat expd ctx now au = (res2, au') \<Longrightarrow> tk_step Ev_quiet au au'"
| st_is_active: "tk_is_active expd ctx now au = (res3, au') \<Longrightarrow> tk_step Ev_quiet au au'"
| st_detach: "tk_detach expd ctx now au = (Inr l, au') \<Longrightarrow> map_of (au_staged au) (at_workspace_id expd) = None
     \<Longrightarrow> tk_step (Ev_freed (at_workspace_id expd) expd) au au'"
| st_detach_staged: "tk_detach expd ctx now au = (Inr l, au') \<Longrightarrow> map_of (au_staged au) (at_workspace_id expd) \<noteq> None
     \<Longrightarrow> tk_step Ev_quiet au au'"
| st_detach_fail: "tk_detach expd ctx now au = (Inl e, au') \<Longrightarrow> tk_step Ev_quiet au au'"
| st_ack: "tk_acknowledge_cleanup expd cs au = (Inr u, au') \<Longrightarrow>
     tk_step (Ev_freed (at_workspace_id expd) expd) au au'"
| st_revoke: "revoke_session sid ep au = (res4, au') \<Longrightarrow> tk_step Ev_quiet au au'"
| st_invalidate: "invalidate_all au = au' \<Longrightarrow> tk_step Ev_quiet au au'"
| st_shutdown: "begin_shutdown au = au' \<Longrightarrow> tk_step Ev_quiet au au'"
| st_sweep: "tk_sweep now au = (ids, au') \<Longrightarrow> tk_step Ev_quiet au au'"

text \<open>A newly made authority.\<close>

definition new_authority :: "AttachmentAuthority \<Rightarrow> bool" where
  "new_authority au \<longleftrightarrow> (\<exists>ep seed r1 r2 tt lt al mr rc mw ma.
     Authority_init ep seed r1 r2 tt lt al mr rc mw ma = Inr au)"

section \<open>The contract\<close>

type_synonym holding = "AttachmentTuple \<times> AuthenticatedAttachmentContext option"

definition held_by :: "pystr \<Rightarrow> holding \<Rightarrow> bool" where
  "held_by user hg \<longleftrightarrow> (case snd hg of None \<Rightarrow> False | Some x \<Rightarrow> cx_user_id x = user)"

definition users :: "pystr \<Rightarrow> ('k \<Rightarrow> holding option) \<Rightarrow> 'k set" where
  "users user m = {k. \<exists>hg. m k = Some hg \<and> held_by user hg}"

record authority_view =
  av_tickets :: "bytes \<Rightarrow> holding option"
  av_slots :: "pystr \<Rightarrow> holding option"
  av_records :: nat
  av_writers :: nat
  av_admin :: nat

definition av_user_count :: "pystr \<Rightarrow> authority_view \<Rightarrow> nat" where
  "av_user_count u v = card (users u (av_tickets v)) + card (users u (av_slots v))"

text \<open>Tickets may be burned at any step; \<open>room\<close> is what admitting one more holding needs.\<close>

inductive slot_step :: "tk_event \<Rightarrow> authority_view \<Rightarrow> authority_view \<Rightarrow> bool" where
  ab_quiet: "T \<subseteq>\<^sub>m av_tickets v \<Longrightarrow> e \<in> {Ev_quiet} \<union> range (\<lambda>(h, s). Ev_advanced h s) \<union> range Ev_activated
     \<Longrightarrow> slot_step e v (v\<lparr>av_tickets := T\<rparr>)"
| ab_issue: "T \<subseteq>\<^sub>m av_tickets v \<Longrightarrow> T d = None \<Longrightarrow> card (dom T) + card (dom (av_slots v)) < av_records v
     \<Longrightarrow> (\<And>u. held_by u hg \<Longrightarrow> av_user_count u (v\<lparr>av_tickets := T\<rparr>) < av_admin v)
     \<Longrightarrow> slot_step (Ev_issued d) v (v\<lparr>av_tickets := T(d \<mapsto> hg)\<rparr>)"
| ab_admit: "av_tickets v d = Some hg \<Longrightarrow> at_workspace_id (fst hg) = w \<Longrightarrow> av_slots v w = None
     \<Longrightarrow> card (dom (av_slots v)) < av_writers v
     \<Longrightarrow> slot_step (Ev_admitted d w) v
           (v\<lparr>av_tickets := (av_tickets v)(d := None), av_slots := (av_slots v)(w \<mapsto> hg)\<rparr>)"
| ab_reserve: "av_tickets v d = Some hg \<Longrightarrow> sa_claims h = fst hg \<Longrightarrow> T \<subseteq>\<^sub>m (av_tickets v)(d := None)
     \<Longrightarrow> av_slots v (tk_ws h) = None \<Longrightarrow> card (dom (av_slots v)) < av_writers v
     \<Longrightarrow> av_user_count (cx_user_id (sa_context h)) (v\<lparr>av_tickets := T\<rparr>) < av_admin v
     \<Longrightarrow> slot_step (Ev_reserved d h) v
           (v\<lparr>av_tickets := T, av_slots := (av_slots v)(tk_ws h \<mapsto> (sa_claims h, Some (sa_context h)))\<rparr>)"
| ab_free: "av_slots v w = Some (c, x)
     \<Longrightarrow> slot_step (Ev_freed w c) v (v\<lparr>av_slots := (av_slots v)(w := None)\<rparr>)"

definition view :: "AttachmentAuthority \<Rightarrow> authority_view" where
  "view au = \<lparr>av_tickets = (\<lambda>d. map_option (\<lambda>p. (pt_claims p, pt_context p)) (map_of (au_pending au) d)),
     av_slots = slots au, av_records = au_max_records au, av_writers = au_max_writers au,
     av_admin = au_max_per_admin au\<rparr>"

section \<open>Counting\<close>

lemma set_writer_keys: "set (writer_keys au) = dom (slots au)"
proof -
  have "slots au w \<noteq> None \<longleftrightarrow> map_of (au_active au) w \<noteq> None \<or> map_of (au_staged au) w \<noteq> None
      \<or> map_of (au_cleanup_pending au) w \<noteq> None" for w
    by (cases "map_of (au_active au) w"; cases "map_of (au_staged au) w"; cases "map_of (au_cleanup_pending au) w")
      (simp_all add: slots_def)
  then show ?thesis
    by (auto simp: writer_keys_def dom_def dom_map_of_conv_image_fst [symmetric] simp flip: map_of_eq_None_iff)
qed

lemma length_writer_keys: "length (writer_keys au) = card (dom (slots au))"
  using set_writer_keys [of au] by (metis distinct_card distinct_remdups writer_keys_def)

lemma finite_slots [simp]: "finite (dom (slots au))"
  by (metis List.finite_set set_writer_keys)

lemma count_table:
  assumes "table t"
  shows "length (filter (\<lambda>(k, v). P k v) t) = card {k. \<exists>v. map_of t k = Some v \<and> P k v}"
proof -
  have d: "distinct (map fst (filter (\<lambda>(k, v). P k v) t))"
    using assms by (simp add: table_def distinct_map_filter)
  have "{k. \<exists>v. map_of t k = Some v \<and> P k v} = set (map fst (filter (\<lambda>(k, v). P k v) t))"
    using lookup_mem [OF assms] by force
  then show ?thesis using distinct_card [OF d] by simp
qed

lemma admin_count_view:
  assumes ok: "authority_ok au"
  shows "admin_count u au = av_user_count u (view au)"
proof -
  let ?U = "\<lambda>c. case c of None \<Rightarrow> False | Some x \<Rightarrow> cx_user_id x = u"
  define A where "A = {w. \<exists>a. map_of (au_active au) w = Some a \<and> ?U (aa_context a)}"
  define C where "C = {w. \<exists>x. map_of (au_cleanup_contexts au) w = Some x \<and> ?U x}"
  define S where "S = {w. \<exists>r. map_of (au_staged au) w = Some r \<and> (map_of (au_active au) w = None
      \<and> map_of (au_cleanup_pending au) w = None \<and> ?U (Some (sa_context (sr_handle r))))}"
  have t: "table (au_pending au)" "table (au_active au)" "table (au_cleanup_contexts au)" "table (au_staged au)"
    using ok by (auto simp: slots_ok_def)
  have fin: "finite A" "finite C" "finite S"
    unfolding A_def C_def S_def
    by (rule finite_subset [OF _ finite_dom_map_of], auto)+
  have "users u (av_tickets (view au)) = {k. \<exists>v. map_of (au_pending au) k = Some v \<and> ?U (pt_context v)}"
    by (auto simp: users_def view_def held_by_def)
  then have P: "length (filter (?U \<circ> (pt_context \<circ> snd)) (au_pending au)) = card (users u (av_tickets (view au)))"
    using count_table [OF t(1), of "\<lambda>k v. ?U (pt_context v)"] by (simp add: comp_def case_prod_unfold)
  have A: "length (filter (?U \<circ> (aa_context \<circ> snd)) (au_active au)) = card A"
    using count_table [OF t(2), of "\<lambda>k v. ?U (aa_context v)"] by (simp add: A_def comp_def case_prod_unfold)
  have C: "length (filter (?U \<circ> snd) (au_cleanup_contexts au)) = card C"
    using count_table [OF t(3), of "\<lambda>k v. ?U v"] by (simp add: C_def comp_def case_prod_unfold)
  have S: "length (filter (?U \<circ> (\<lambda>(w, r). Some (sa_context (sr_handle r))))
      (filter (\<lambda>(w, r). map_of (au_active au) w = None \<and> map_of (au_cleanup_pending au) w = None) (au_staged au))) = card S"
    using count_table [OF t(4), of "\<lambda>w r. map_of (au_active au) w = None \<and> map_of (au_cleanup_pending au) w = None
      \<and> ?U (Some (sa_context (sr_handle r)))"] by (simp add: S_def comp_def case_prod_unfold conj_assoc)
  have slot: "slot_ok (\<lambda>_. False) w (map_of (au_active au) w) (map_of (au_cleanup_pending au) w)
              (map_of (au_cleanup_contexts au) w) (map_of (au_staged au) w)" for w
    by (rule slot_okD [OF ok])
  have "users u (slots au) = A \<union> C \<union> S"
  proof (rule set_eqI)
    fix w
    show "w \<in> users u (slots au) \<longleftrightarrow> w \<in> A \<union> C \<union> S"
      using slot [of w] unfolding users_def A_def C_def S_def held_by_def slots_def slot_ok_def staged_ok_def
      by (cases "map_of (au_active au) w"; cases "map_of (au_cleanup_pending au) w";
          cases "map_of (au_staged au) w"; cases "map_of (au_cleanup_contexts au) w")
        (auto simp: Let_def split: AdmissionStage.splits)
  qed
  moreover have "w \<notin> A \<or> w \<notin> C" "w \<notin> A \<union> C \<or> w \<notin> S" for w
    using slot [of w] unfolding A_def C_def S_def slot_ok_def
    by (cases "map_of (au_active au) w"; cases "map_of (au_cleanup_pending au) w"; simp)+
  then have "A \<inter> C = {}" "(A \<union> C) \<inter> S = {}" by blast+
  ultimately have "card (users u (slots au)) = card A + card C + card S"
    using fin by (simp add: card_Un_disjoint)
  then show ?thesis using P A C S by (simp add: admin_count_def av_user_count_def view_def)
qed

section \<open>Refinement\<close>

lemma view_tickets_mono:
  "map_of (au_pending b) \<subseteq>\<^sub>m map_of (au_pending a) \<Longrightarrow> av_tickets (view b) \<subseteq>\<^sub>m av_tickets (view a)"
  by (force simp: map_le_def view_def dom_def)

lemma quiet_view:
  assumes "quiet au au'"
  shows "view au' = (view au)\<lparr>av_tickets := av_tickets (view au')\<rparr> \<and> av_tickets (view au') \<subseteq>\<^sub>m av_tickets (view au)"
  using assms by (auto simp: quiet_def same_limits_def view_def intro!: view_tickets_mono [unfolded view_def, simplified])

lemma calm_step:
  assumes "calm (\<lambda>_. False) au au'" "authority_ok au"
  shows "authority_ok au' \<and> slot_step Ev_quiet (view au) (view au')"
proof -
  have q: "authority_ok au'" "quiet au au'" using assms by (auto simp: calm_def)
  have "slot_step Ev_quiet (view au) ((view au)\<lparr>av_tickets := av_tickets (view au')\<rparr>)"
    using quiet_view [OF q(2)] by (intro ab_quiet) auto
  then show ?thesis using q(1) quiet_view [OF q(2)] by metis
qed

lemma quiet_step: "authority_ok au' \<and> quiet au au' \<Longrightarrow> authority_ok au \<Longrightarrow>
    authority_ok au' \<and> slot_step Ev_quiet (view au) (view au')"
  by (rule calm_step) (simp_all add: calm_def)

lemma issue_step:
  assumes i: "tk_issue q agt orig ctx disp rnd now au = (Inr t, au')" and d': "ticket_digest (it_ticket t) = Inr d'"
    and ok: "authority_ok au"
  shows "authority_ok au' \<and> slot_step (Ev_issued d') (view au) (view au')"
proof -
  obtain d p b where f: "ticket_digest (it_ticket t) = Inr d" "calm (\<lambda>_. False) au b"
      "map_of (au_pending b) d = None" "pt_context p = ctx" "record_count b < au_max_records b"
      "\<forall>c. ctx = Some c \<longrightarrow> admin_count (cx_user_id c) b < au_max_per_admin b"
      "au' = b\<lparr>au_pending := AList.update d p (au_pending b)\<rparr>"
    using i by (rule issue_ok) blast
  have b: "authority_ok b" "quiet au b" using f(2) ok by (auto simp: calm_def)
  let ?T = "av_tickets (view b)" and ?h = "(pt_claims p, pt_context p)"
  have tb: "table (au_pending b)" using b(1) by (simp add: slots_ok_def)
  have "dom ?T = set (map fst (au_pending b))" by (auto simp: view_def dom_map_of_conv_image_fst [symmetric])
  then have "card (dom ?T) = length (au_pending b)"
    using distinct_card [of "map fst (au_pending b)"] tb by (simp add: table_def)
  then have room: "card (dom ?T) + card (dom (av_slots (view au))) < av_records (view au)"
    using f(5) b(2) by (simp add: record_count_def length_writer_keys quiet_def same_limits_def view_def)
  have vb: "(view au)\<lparr>av_tickets := ?T\<rparr> = view b" "?T \<subseteq>\<^sub>m av_tickets (view au)" using quiet_view [OF b(2)] by auto
  have user: "av_user_count u ((view au)\<lparr>av_tickets := ?T\<rparr>) < av_admin (view au)" if "held_by u ?h" for u
    using that f(4,6) admin_count_view [OF b(1), of u] b(2)
    by (auto simp: vb held_by_def quiet_def same_limits_def view_def split: option.splits)
  have "view au' = (view au)\<lparr>av_tickets := ?T(d \<mapsto> ?h)\<rparr>"
    using vb(1) by (auto simp: f(7) view_def table_simps fun_eq_iff)
  moreover have "slot_step (Ev_issued d) (view au) ((view au)\<lparr>av_tickets := ?T(d \<mapsto> ?h)\<rparr>)"
    by (rule ab_issue [OF vb(2) _ room user]) (use f(3) in \<open>simp_all add: view_def\<close>)
  moreover have "authority_ok au'" using b(1) by (simp add: f(7) slots_ok_def)
  ultimately show ?thesis using f(1) d' by simp
qed

lemma slot_free: "slot_taken w au \<longleftrightarrow> slots au w \<noteq> None"
  by (cases "map_of (au_active au) w"; cases "map_of (au_staged au) w"; cases "map_of (au_cleanup_pending au) w")
    (simp_all add: slots_def slot_taken_def)

lemma burn_facts [simp]:
  "map_of (au_pending (burn_ticket d au)) = (map_of (au_pending au))(d := None)"
  "au_active (burn_ticket d au) = au_active au" "au_staged (burn_ticket d au) = au_staged au"
  "au_cleanup_pending (burn_ticket d au) = au_cleanup_pending au"
  by (auto simp: burn_ticket_def push_replayed_def Let_def table_simps fun_eq_iff)

lemma consume_step:
  assumes c: "tk_consume ticket expd ctx now au = (Inr l, au')" and d': "ticket_digest ticket = Inr d'"
    and ok: "authority_ok au"
  shows "authority_ok au' \<and> slot_step (Ev_admitted d' (at_workspace_id expd)) (view au) (view au')"
proof -
  let ?w = "at_workspace_id expd"
  obtain d p where f: "ticket_digest ticket = Inr d" "map_of (au_pending au) d = Some p" "pt_claims p = expd"
      "aa_claims l = expd" "aa_context l = pt_context p" "\<not> slot_taken ?w (burn_ticket d au)"
      "length (writer_keys (burn_ticket d au)) < au_max_writers (burn_ticket d au)"
      "au' = (burn_ticket d au)\<lparr>au_active := AList.update ?w l (au_active (burn_ticket d au))\<rparr>"
    using c by (rule consume_ok) blast
  let ?b = "burn_ticket d au"
  have b: "authority_ok ?b" "quiet au ?b" using burn_calm [of _ au d] ok by (auto simp: calm_def)
  have none: "slots au ?w = None" using f(6) b(2) unfolding slot_free quiet_def by metis
  have free: "map_of (au_active ?b) ?w = None" "map_of (au_cleanup_pending ?b) ?w = None" "map_of (au_staged ?b) ?w = None"
    using f(6) by (auto simp: slot_taken_def)
  have "slot_step (Ev_admitted d ?w) (view au) ((view au)\<lparr>av_tickets := (av_tickets (view au))(d := None),
      av_slots := (av_slots (view au))(?w \<mapsto> (expd, pt_context p))\<rparr>)"
    by (rule ab_admit) (use f(2,3,7) none b(2) in \<open>auto simp: view_def length_writer_keys quiet_def same_limits_def\<close>)
  moreover have "slots au' = (slots au)(?w \<mapsto> (expd, pt_context p))"
    using b(2) f(4,5) by (auto simp: f(8) quiet_def slots_def table_simps fun_eq_iff)
  then have "view au' = (view au)\<lparr>av_tickets := (av_tickets (view au))(d := None),
      av_slots := (av_slots (view au))(?w \<mapsto> (expd, pt_context p))\<rparr>"
    using b(2) by (auto simp: view_def quiet_def same_limits_def fun_eq_iff f(8) simp del: fun_upd_apply)
      (auto simp: fun_eq_iff)
  moreover have "authority_ok au'"
    using b(1) free f(4) by (auto simp: f(8) slots_ok_def slot_ok_def table_simps)
  ultimately show ?thesis using f(1) d' by simp
qed

lemma reserve_step:
  assumes c: "tk_reserve ticket expd ctx conn st now pres pe au = (Inr h, au')" and d': "ticket_digest ticket = Inr d'"
    and ok: "authority_ok au"
  shows "authority_ok au' \<and> slot_step (Ev_reserved d' h) (view au) (view au')"
proof -
  let ?w = "at_workspace_id expd"
  obtain d p b where f: "ticket_digest ticket = Inr d" "map_of (au_pending au) d = Some p" "pt_claims p = expd"
      "b = snd (tk_sweep now (burn_ticket d au))" "sa_claims h = expd" "sa_id h = au_next_handle b"
      "\<not> slot_taken ?w b" "length (writer_keys b) < au_max_writers b"
      "admin_count (cx_user_id (sa_context h)) b < au_max_per_admin b"
      "au' = b\<lparr>au_staged := AList.update ?w \<lparr>sr_handle = h, sr_stage = AS_RESERVED\<rparr> (au_staged b),
            au_next_handle := Suc (au_next_handle b)\<rparr>"
    using c by (rule reserve_ok) blast
  have a: "authority_ok (burn_ticket d au)" "quiet au (burn_ticket d au)"
    using burn_calm [of _ au d] ok by (auto simp: calm_def)
  then have b: "authority_ok b" "quiet (burn_ticket d au) b"
    using sweep_calm [of _ "burn_ticket d au" now] unfolding f(4) by (auto simp: calm_def)
  have q: "quiet au b" by (rule quiet_trans [OF a(2) b(2)])
  let ?T = "av_tickets (view b)"
  have vb: "(view au)\<lparr>av_tickets := ?T\<rparr> = view b" using quiet_view [OF q] by metis
  have T: "?T \<subseteq>\<^sub>m (av_tickets (view au))(d := None)"
    using view_tickets_mono [of b "burn_ticket d au"] b(2)
    by (auto simp: quiet_def view_def map_le_def dom_def split: if_splits)
  have "slots b ?w = None" using f(7) unfolding slot_free by blast
  then have none: "av_slots (view au) (tk_ws h) = None" using f(5) q by (simp add: quiet_def view_def)
  have free: "map_of (au_active b) ?w = None" "map_of (au_cleanup_pending b) ?w = None" "map_of (au_staged b) ?w = None"
    using f(7) by (auto simp: slot_taken_def)
  have cx: "map_of (au_cleanup_contexts b) ?w = None"
    using slot_okD [OF b(1), of ?w] free by (simp add: slot_ok_def)
  have "slot_step (Ev_reserved d h) (view au) ((view au)\<lparr>av_tickets := ?T,
      av_slots := (av_slots (view au))(tk_ws h \<mapsto> (sa_claims h, Some (sa_context h)))\<rparr>)"
    by (rule ab_reserve [OF _ _ T none])
      (use f(2,3,5,8,9) q admin_count_view [OF b(1)] in
        \<open>auto simp: vb view_def length_writer_keys quiet_def same_limits_def\<close>)
  moreover have "slots au' = (slots au)(?w \<mapsto> (expd, Some (sa_context h)))"
    using q f(5) free unfolding quiet_def slots_def fun_eq_iff f(10) by (simp add: table_simps)
  then have "view au' = (view au)\<lparr>av_tickets := ?T,
      av_slots := (av_slots (view au))(tk_ws h \<mapsto> (sa_claims h, Some (sa_context h)))\<rparr>"
    using q f(5) by (auto simp: view_def quiet_def same_limits_def f(10))
  moreover have "authority_ok au'"
    using b(1) free cx f(5,6) by (auto simp: f(10) slots_ok_def slot_ok_def staged_ok_def table_simps less_Suc_eq)
  ultimately show ?thesis using f(1) d' by simp
qed

lemma neutral_step:
  assumes "slots au' = slots au" "au_pending au' = au_pending au" "same_limits au au'"
    "e \<in> {Ev_quiet} \<union> range (\<lambda>(h, s). Ev_advanced h s) \<union> range Ev_activated"
  shows "slot_step e (view au) (view au')"
proof -
  have "view au' = (view au)\<lparr>av_tickets := av_tickets (view au)\<rparr>"
    using assms by (simp add: view_def same_limits_def)
  then show ?thesis using ab_quiet [of "av_tickets (view au)" "view au" e] assms(4) by simp
qed

lemma advance_step:
  assumes "tk_advance h stage now au = (Inr u, au')" "authority_ok au"
  shows "authority_ok au' \<and> slot_step (Ev_advanced h stage) (view au) (view au')"
proof -
  obtain s where s: "exact_staged h au = Inr \<lparr>sr_handle = h, sr_stage = s\<rparr>" "s \<notin> {AS_FENCED, AS_ACTIVE}"
      "stage \<notin> {AS_FENCED, AS_ACTIVE}" "au' = set_stage h stage au"
    using assms(1) by (rule advance_ok) blast
  have "authority_ok au' \<and> slots au' = slots au"
    using set_stage_ok [OF assms(2) s(1,2,3)] s(4) by simp
  moreover have "slot_step (Ev_advanced h stage) (view au) (view au')"
    by (rule neutral_step) (use calculation s(4) in \<open>auto simp: set_stage_def same_limits_def\<close>)
  ultimately show ?thesis by blast
qed

lemma activate_step:
  assumes "activate_with_publication h pub now now2 q au = (Inr l, q', au')" "authority_ok au"
  shows "authority_ok au' \<and> slot_step (Ev_activated h) (view au) (view au')"
proof -
  note f = activate_ok [OF assms(1)]
  have "authority_ok au' \<and> slots au' = slots au"
    by (rule activated_ok [OF assms(2)]) (use f in auto)
  moreover have "slot_step (Ev_activated h) (view au) (view au')"
    by (rule neutral_step) (use calculation f in \<open>auto simp: set_stage_def same_limits_def\<close>)
  ultimately show ?thesis by blast
qed

lemma freed_step:
  assumes "authority_ok au' \<and> freed w c au au'"
  shows "authority_ok au' \<and> slot_step (Ev_freed w c) (view au) (view au')"
proof -
  have "view au' = (view au)\<lparr>av_slots := (av_slots (view au))(w := None)\<rparr>"
    using assms by (auto simp: freed_def same_limits_def view_def)
  moreover obtain x where "av_slots (view au) w = Some (c, x)" using assms by (auto simp: freed_def view_def)
  ultimately show ?thesis using ab_free assms by metis
qed

inductive_cases issued_cases: "tk_step (Ev_issued d) au au'"
inductive_cases admitted_cases: "tk_step (Ev_admitted d w) au au'"
inductive_cases reserved_cases: "tk_step (Ev_reserved d h) au au'"
inductive_cases advanced_cases: "tk_step (Ev_advanced h s) au au'"
inductive_cases activated_cases: "tk_step (Ev_activated h) au au'"
inductive_cases freed_cases: "tk_step (Ev_freed w c) au au'"

lemma freed_event: "tk_step (Ev_freed w c) au au' \<Longrightarrow> authority_ok au \<Longrightarrow> authority_ok au' \<and> freed w c au au'"
  by (elim freed_cases) (auto dest: detach_ok acknowledge_staged_ok acknowledge_cleanup_ok)

lemma step_quiet:
  assumes "tk_step e au au'" "e = Ev_quiet" "authority_ok au"
  shows "authority_ok au' \<and> quiet au au'"
proof -
  have "calm (\<lambda>_. False) au au'" using assms
  proof (induction rule: tk_step.induct)
    case (st_check h now au res au')
    then show ?case using check_reserved_calm [of "\<lambda>_. False" au h now] by simp
  next
    case (st_fence h au res au')
    then show ?case using fence_calm [of "\<lambda>_. False" au h] by simp
  next
    case (st_read h pub now p au res' p' au')
    then show ?case using read_published_calm [of "\<lambda>_. False" au h pub now p] by simp
  next
    case (st_heartbeat expd ctx now au res2 au')
    then show ?case using heartbeat_calm [of "\<lambda>_. False" au expd ctx now] by simp
  next
    case (st_is_active expd ctx now au res3 au')
    then show ?case using is_active_calm [of "\<lambda>_. False" au expd ctx now] by simp
  next
    case (st_revoke sid ep au res4 au')
    then show ?case using revoke_session_ok(1) [of au sid ep] by (simp add: calm_def)
  next
    case (st_sweep now au ids au')
    then show ?case using sweep_calm [of "\<lambda>_. False" au now] by simp
  next
    case (st_invalidate au au')
    then show ?case using invalidate_all_ok [of au] by (simp add: calm_def)
  next
    case (st_shutdown au au')
    then show ?case using begin_shutdown_ok [of au] by (simp add: calm_def)
  qed (erule issue_fail consume_fail reserve_fail advance_fail activate_fail detach_fail
      | erule (1) detach_staged | simp)+
  then show ?thesis using assms(3) by (simp add: calm_def)
qed

lemma step_refines:
  assumes st: "tk_step e au au'" and ok: "authority_ok au"
  shows "authority_ok au' \<and> slot_step e (view au) (view au')"
proof (cases e)
  case (Ev_issued d)
  then show ?thesis using st ok by (auto elim!: issued_cases dest: issue_step)
next
  case (Ev_admitted d w)
  then show ?thesis using st ok by (auto elim!: admitted_cases dest: consume_step)
next
  case (Ev_reserved d h)
  then show ?thesis using st ok by (auto elim!: reserved_cases dest: reserve_step)
next
  case (Ev_advanced h s)
  then show ?thesis using st ok by (auto elim!: advanced_cases dest: advance_step)
next
  case (Ev_activated h)
  then show ?thesis using st ok by (auto elim!: activated_cases dest: activate_step)
next
  case (Ev_freed w c)
  then show ?thesis using freed_step [OF freed_event] st ok by simp
next
  case Ev_quiet
  then show ?thesis using quiet_step [OF step_quiet [OF st _ ok] ok] by simp
qed

section \<open>Bounds and single use, of the contract\<close>

definition view_ok :: "authority_view \<Rightarrow> bool" where
  "view_ok v \<longleftrightarrow> finite (dom (av_tickets v)) \<and> finite (dom (av_slots v))
     \<and> card (dom (av_tickets v)) + card (dom (av_slots v)) \<le> av_records v
     \<and> card (dom (av_slots v)) \<le> av_writers v \<and> (\<forall>u. av_user_count u v \<le> av_admin v)"

lemma users_sub: "users u m \<subseteq> dom m"
  by (auto simp: users_def)

lemma users_upd: "m k = None \<Longrightarrow> users u (m(k \<mapsto> hg)) = (if held_by u hg then insert k (users u m) else users u m)"
  by (cases hg) (auto simp: users_def)

lemma users_del: "users u (m(k := None)) = users u m - {k}"
  by (auto simp: users_def)

lemma users_mono: "m \<subseteq>\<^sub>m m' \<Longrightarrow> users u m \<subseteq> users u m'"
  by (force simp: users_def map_le_def)

lemma users_card_mono: "m \<subseteq>\<^sub>m m' \<Longrightarrow> finite (dom m') \<Longrightarrow> card (users u m) \<le> card (users u m')"
  by (meson card_mono finite_subset users_mono users_sub)

lemma dom_card_mono: "m \<subseteq>\<^sub>m m' \<Longrightarrow> finite (dom m') \<Longrightarrow> finite (dom m) \<and> card (dom m) \<le> card (dom m')"
  by (meson card_mono finite_subset map_le_implies_dom_le)

lemma card_users_upd:
  "m k = None \<Longrightarrow> finite (dom m) \<Longrightarrow> card (users u (m(k \<mapsto> hg))) = card (users u m) + of_bool (held_by u hg)"
proof -
  assume "m k = None" "finite (dom m)"
  then have "k \<notin> users u m" by (simp add: users_def)
  moreover have "finite (users u m)" by (rule finite_subset [OF users_sub]) fact
  ultimately show ?thesis using \<open>m k = None\<close> by (simp add: users_upd)
qed

lemma card_users_del:
  "m k = Some hg \<Longrightarrow> finite (dom m) \<Longrightarrow> card (users u (m(k := None))) + of_bool (held_by u hg) = card (users u m)"
  using card_users_upd [of "m(k := None)" k u hg] by (simp add: fun_upd_idem)

lemma card_dom_upd: "m k = None \<Longrightarrow> finite (dom m) \<Longrightarrow> card (dom (m(k \<mapsto> hg))) = Suc (card (dom m))"
  by (simp add: domIff)

lemma card_dom_del: "m k = Some hg \<Longrightarrow> finite (dom m) \<Longrightarrow> Suc (card (dom (m(k := None)))) = card (dom m)"
  using card_dom_upd [of "m(k := None)" k hg] by (simp add: fun_upd_idem)

lemmas count_simps = card_users_upd card_users_del card_dom_upd card_dom_del

lemma view_okI:
  assumes "finite (dom (av_tickets v))" "finite (dom (av_slots v))"
    "card (dom (av_tickets v)) + card (dom (av_slots v)) \<le> av_records v" "card (dom (av_slots v)) \<le> av_writers v"
    "\<And>u. av_user_count u v \<le> av_admin v"
  shows "view_ok v"
  using assms by (simp add: view_ok_def)

lemma view_okD:
  assumes "view_ok v"
  shows "finite (dom (av_tickets v))" "finite (dom (av_slots v))"
    "card (dom (av_tickets v)) + card (dom (av_slots v)) \<le> av_records v" "card (dom (av_slots v)) \<le> av_writers v"
    "card (users u (av_tickets v)) + card (users u (av_slots v)) \<le> av_admin v"
  using assms by (auto simp: view_ok_def av_user_count_def)

text \<open>Burning tickets keeps the bounds, and lowers the count by one for a ticket that is taken.\<close>

lemma burn_view_ok:
  assumes "T \<subseteq>\<^sub>m av_tickets v" "view_ok v"
  shows "view_ok (v\<lparr>av_tickets := T\<rparr>)"
proof (rule view_okI)
  note T = dom_card_mono [OF assms(1) view_okD(1) [OF assms(2)]]
  note U = users_card_mono [OF assms(1) view_okD(1) [OF assms(2)]]
  show "av_user_count u (v\<lparr>av_tickets := T\<rparr>) \<le> av_admin (v\<lparr>av_tickets := T\<rparr>)" for u
    using U [of u] view_okD(5) [OF assms(2), of u] by (simp add: av_user_count_def)
qed (use dom_card_mono [OF assms(1)] view_okD [OF assms(2)] in auto)

lemma slot_step_ok: "slot_step e v v' \<Longrightarrow> view_ok v \<Longrightarrow> view_ok v'"
proof (induction rule: slot_step.induct)
  case (ab_quiet T v e)
  then show ?case by (simp add: burn_view_ok)
next
  case (ab_issue T v d hg)
  note b = burn_view_ok [OF ab_issue(1,5)]
  show ?case
  proof (rule view_okI)
    fix u
    show "av_user_count u (v\<lparr>av_tickets := T(d \<mapsto> hg)\<rparr>) \<le> av_admin (v\<lparr>av_tickets := T(d \<mapsto> hg)\<rparr>)"
      using ab_issue(2) ab_issue(4) [of u] view_okD(1) [OF b] view_okD(5) [OF b, of u]
      by (cases "held_by u hg") (simp_all add: av_user_count_def card_users_upd)
  qed (use ab_issue(2,3) view_okD [OF b] in \<open>auto simp: card_insert_if domIff\<close>)
next
  case (ab_admit v d hg w)
  note b = view_okD [OF ab_admit(5)]
  show ?case
  proof (rule view_okI)
    fix u
    show "av_user_count u (v\<lparr>av_tickets := (av_tickets v)(d := None), av_slots := (av_slots v)(w \<mapsto> hg)\<rparr>)
        \<le> av_admin (v\<lparr>av_tickets := (av_tickets v)(d := None), av_slots := (av_slots v)(w \<mapsto> hg)\<rparr>)"
      using b(5) [of u] card_users_del [OF ab_admit(1) b(1), of u] card_users_upd [OF ab_admit(3) b(2), of u hg]
      by (simp add: av_user_count_def)
  qed (use b card_dom_del [OF ab_admit(1) b(1)] card_dom_upd [OF ab_admit(3) b(2)] ab_admit(4) in auto)
next
  case (ab_reserve v d hg h T)
  note b = view_okD [OF ab_reserve(7)]
  let ?hg = "(sa_claims h, Some (sa_context h))"
  have fin: "finite (dom ((av_tickets v)(d := None)))" using b(1) by simp
  note T = dom_card_mono [OF ab_reserve(3) fin] users_card_mono [OF ab_reserve(3) fin]
  show ?case
  proof (rule view_okI)
    fix u
    show "av_user_count u (v\<lparr>av_tickets := T, av_slots := (av_slots v)(tk_ws h \<mapsto> ?hg)\<rparr>)
        \<le> av_admin (v\<lparr>av_tickets := T, av_slots := (av_slots v)(tk_ws h \<mapsto> ?hg)\<rparr>)"
      using b(5) [of u] T(2) [of u] card_users_del [OF ab_reserve(1) b(1), of u] ab_reserve(6)
        card_users_upd [OF ab_reserve(4) b(2), of u ?hg]
      by (cases "held_by u ?hg") (auto simp: av_user_count_def held_by_def)
  qed (use b T card_dom_del [OF ab_reserve(1) b(1)] card_dom_upd [OF ab_reserve(4) b(2), of ?hg] ab_reserve(5) in auto)
next
  case (ab_free v w c x)
  note b = view_okD [OF ab_free(2)]
  show ?case
  proof (rule view_okI)
    fix u
    show "av_user_count u (v\<lparr>av_slots := (av_slots v)(w := None)\<rparr>) \<le> av_admin (v\<lparr>av_slots := (av_slots v)(w := None)\<rparr>)"
      using b(5) [of u] card_users_del [OF ab_free(1) b(2), of u] by (simp add: av_user_count_def)
  qed (use b card_dom_del [OF ab_free(1) b(2)] in auto)
qed

interpretation tickets: stepwise_refinement tk_step slot_step authority_ok view
  by unfold_locales (rule step_refines)

lemma new_empty:
  "new_authority au \<Longrightarrow> au_pending au = [] \<and> au_active au = [] \<and> au_cleanup_pending au = []
     \<and> au_cleanup_contexts au = [] \<and> au_staged au = [] \<and> slots au = Map.empty"
  by (auto simp: new_authority_def Authority_init_def result_simps slots_def split: if_splits)

lemma new_ok: "new_authority au \<Longrightarrow> authority_ok au \<and> view_ok (view au) \<and> av_tickets (view au) = Map.empty"
  using new_empty [of au]
  by (auto simp: slots_ok_def slot_ok_def view_ok_def view_def users_def av_user_count_def)

lemma reachable_ok: "new_authority a0 \<Longrightarrow> run tk_step evs a0 au \<Longrightarrow> authority_ok au \<and> view_ok (view au)"
  using tickets.run_refines [of evs a0 au] tickets.run_invariant [of view_ok evs a0 au] slot_step_ok new_ok [of a0]
  by blast

section \<open>Single use\<close>

fun uses :: "bytes \<Rightarrow> tk_event \<Rightarrow> bool" where
  "uses d (Ev_admitted d' w) = (d' = d)"
| "uses d (Ev_reserved d' h) = (d' = d)"
| "uses d _ = False"

lemma map_le_None: "T \<subseteq>\<^sub>m m \<Longrightarrow> m d = None \<Longrightarrow> T d = None"
  by (metis domIff map_le_implies_dom_le subsetD)

lemma slot_step_use:
  assumes "slot_step e v v'"
  shows "of_bool (uses d e) + (of_bool (av_tickets v' d \<noteq> None) :: nat)
     \<le> of_bool (e = Ev_issued d) + of_bool (av_tickets v d \<noteq> None)"
  using assms
proof (induction rule: slot_step.induct)
  case (ab_quiet T v e)
  then show ?case using map_le_None [OF ab_quiet(1), of d] by (cases "av_tickets v d") auto
next
  case (ab_issue T v d' hg)
  then show ?case using map_le_None [OF ab_issue(1), of d] by (cases "av_tickets v d") auto
next
  case (ab_reserve v d' hg h T)
  then show ?case using map_le_None [OF ab_reserve(3), of d] by (cases "av_tickets v d") auto
qed auto

lemma run_use:
  "run slot_step evs v v' \<Longrightarrow> length (filter (uses d) evs) + (of_bool (av_tickets v' d \<noteq> None) :: nat)
     \<le> count_list evs (Ev_issued d) + of_bool (av_tickets v d \<noteq> None)"
proof (induction rule: run.induct)
  case (run_snoc evs s s' e s'')
  then show ?case using slot_step_use [OF run_snoc(2), of d] by (auto split: if_splits)
qed simp

section \<open>Slots\<close>

lemma slot_step_owner:
  "slot_step e v v' \<Longrightarrow> av_slots v w = Some hg \<Longrightarrow> (\<And>c. e \<noteq> Ev_freed w c) \<Longrightarrow> av_slots v' w = Some hg"
  by (induction rule: slot_step.induct) (auto split: if_splits)

lemma run_owner:
  "run slot_step evs v v' \<Longrightarrow> av_slots v w = Some hg \<Longrightarrow> (\<And>c. Ev_freed w c \<notin> set evs) \<Longrightarrow> av_slots v' w = Some hg"
proof (induction rule: run.induct)
  case (run_snoc evs s s' e s'')
  then have "av_slots s' w = Some hg" by simp
  moreover have "e \<noteq> Ev_freed w c" for c using run_snoc(5) [of c] by auto
  ultimately show ?case using slot_step_owner [OF run_snoc(2)] by blast
qed simp

section \<open>Stage history\<close>

definition ADMISSION_STEPS :: "AdmissionStage list" where
  "ADMISSION_STEPS = [AS_RUNTIME_PREPARED, AS_VERIFIED, AS_PREPARED_AUDITED, AS_READY, AS_QUARANTINED,
     AS_COMMITTED, AS_ADMITTED_AUDITED]"

fun advanced :: "StagedAttachment \<Rightarrow> tk_event list \<Rightarrow> AdmissionStage list" where
  "advanced h [] = []"
| "advanced h (Ev_advanced h' s # evs) = (if h' = h then s # advanced h evs else advanced h evs)"
| "advanced h (_ # evs) = advanced h evs"

lemma advanced_append [simp]: "advanced h (xs @ ys) = advanced h xs @ advanced h ys"
  by (induction h xs rule: advanced.induct) auto

lemma advanced_other: "(\<And>s. e \<noteq> Ev_advanced h s) \<Longrightarrow> advanced h [e] = []"
  by (cases e) auto

text \<open>What each kind of event did to the state.\<close>

lemma issued_event:
  assumes "tk_step (Ev_issued d) au au'" "authority_ok au"
  shows "\<exists>b d' p. quiet au b \<and> \<not> au_shutdown_started au \<and> au' = b\<lparr>au_pending := AList.update d' p (au_pending b)\<rparr>"
proof -
  obtain q agt orig ctx disp rnd now t where i: "tk_issue q agt orig ctx disp rnd now au = (Inr t, au')"
    using assms(1) by (auto elim: issued_cases)
  obtain b d' p where "calm (\<lambda>_. False) au b" "au' = b\<lparr>au_pending := AList.update d' p (au_pending b)\<rparr>"
    using i by (rule issue_ok) blast
  moreover have "\<not> au_shutdown_started au" using i by (auto simp: tk_issue_def)
  ultimately show ?thesis using assms(2) unfolding calm_def by blast
qed

lemma admitted_event:
  assumes "tk_step (Ev_admitted d w) au au'"
  shows "\<exists>d l. \<not> au_shutdown_started au
     \<and> au' = (burn_ticket d au)\<lparr>au_active := AList.update w l (au_active (burn_ticket d au))\<rparr>"
proof -
  obtain ticket expd ctx now l where c: "tk_consume ticket expd ctx now au = (Inr l, au')" "w = at_workspace_id expd"
    using assms by (auto elim: admitted_cases)
  moreover have "\<not> au_shutdown_started au" using c(1) by (auto simp: tk_consume_def)
  moreover obtain d where "au' = (burn_ticket d au)\<lparr>au_active := AList.update w l (au_active (burn_ticket d au))\<rparr>"
    using c(1) unfolding c(2) by (rule consume_ok) blast
  ultimately show ?thesis by blast
qed

lemma reserved_event:
  assumes "tk_step (Ev_reserved d h) au au'" "authority_ok au"
  shows "\<exists>b. quiet au b \<and> \<not> au_shutdown_started au \<and> sa_id h = au_next_handle b
     \<and> au' = b\<lparr>au_staged := AList.update (tk_ws h) \<lparr>sr_handle = h, sr_stage = AS_RESERVED\<rparr> (au_staged b),
               au_next_handle := Suc (au_next_handle b)\<rparr>"
proof -
  obtain ticket expd ctx conn sta now pres pe where c: "tk_reserve ticket expd ctx conn sta now pres pe au = (Inr h, au')"
    using assms(1) by (auto elim: reserved_cases)
  obtain d' b where f: "b = snd (tk_sweep now (burn_ticket d' au))" "sa_id h = au_next_handle b" "sa_claims h = expd"
      "au' = b\<lparr>au_staged := AList.update (at_workspace_id expd) \<lparr>sr_handle = h, sr_stage = AS_RESERVED\<rparr> (au_staged b),
            au_next_handle := Suc (au_next_handle b)\<rparr>"
    using c by (rule reserve_ok) blast
  have "calm (\<lambda>_. False) au b" unfolding f(1) by (rule calm_trans [OF burn_calm sweep_calm])
  then have "quiet au b" using assms(2) by (simp add: calm_def)
  moreover have "\<not> au_shutdown_started au" using c by (auto simp: tk_reserve_def)
  ultimately show ?thesis using f by auto
qed

lemma advanced_event:
  assumes "tk_step (Ev_advanced h s) au au'"
  shows "\<exists>s0. map_of (au_staged au) (tk_ws h) = Some \<lparr>sr_handle = h, sr_stage = s0\<rparr> \<and> s0 \<noteq> AS_FENCED
     \<and> \<not> au_shutdown_started au \<and> s \<notin> {AS_FENCED, AS_ACTIVE} \<and> stage_index s = Suc (stage_index s0)
     \<and> au' = set_stage h s au"
proof -
  obtain now u where c: "tk_advance h s now au = (Inr u, au')" using assms by (auto elim: advanced_cases)
  then obtain s0 where "exact_staged h au = Inr \<lparr>sr_handle = h, sr_stage = s0\<rparr>" "s0 \<notin> {AS_FENCED, AS_ACTIVE}"
      "s \<notin> {AS_FENCED, AS_ACTIVE}" "stage_index s = Suc (stage_index s0)" "au' = set_stage h s au"
    by (rule advance_ok) blast
  moreover have "\<not> au_shutdown_started au" using c by (auto simp: tk_advance_def)
  ultimately show ?thesis by (auto simp: exact_staged_Inr)
qed

lemma activated_event:
  assumes "tk_step (Ev_activated h) au au'"
  shows "\<exists>l. map_of (au_staged au) (tk_ws h) = Some \<lparr>sr_handle = h, sr_stage = AS_ADMITTED_AUDITED\<rparr>
     \<and> \<not> au_shutdown_started au \<and> au' = (set_stage h AS_ACTIVE au)\<lparr>au_active := AList.update (tk_ws h) l (au_active au)\<rparr>"
proof -
  obtain pub now now2 p l p' where c: "activate_with_publication h pub now now2 (p :: bytes list) au = (Inr l, p', au')"
    using assms by (auto elim: activated_cases)
  moreover have "\<not> au_shutdown_started au" using c by (auto simp: activate_with_publication_def)
  ultimately show ?thesis using activate_ok [OF c] by (auto simp: exact_staged_Inr)
qed

lemma next_handle_mono:
  assumes st: "tk_step e au au'" and ok: "authority_ok au"
  shows "au_next_handle au \<le> au_next_handle au'"
proof (cases e)
  case (Ev_issued d)
  then show ?thesis using issued_event [of d au au'] st ok by (auto simp: quiet_def)
next
  case (Ev_admitted d w)
  then show ?thesis using admitted_event [of d w au au'] st by (auto simp: burn_ticket_def push_replayed_def Let_def)
next
  case (Ev_reserved d h)
  then show ?thesis using reserved_event [of d h au au'] st ok by (auto simp: quiet_def)
next
  case (Ev_freed v c)
  then show ?thesis using freed_event [of v c au au'] st ok by (auto simp: freed_def)
next
  case Ev_quiet
  then show ?thesis using step_quiet [OF st _ ok] by (simp add: quiet_def)
next
  case (Ev_advanced h s)
  then show ?thesis using advanced_event [of h s au au'] st by (auto simp: set_stage_def)
next
  case (Ev_activated h)
  then show ?thesis using activated_event [of h au au'] st by (auto simp: set_stage_def)
qed

text \<open>Where an unfenced staged record comes from.\<close>

lemma stage_effect:
  assumes st: "tk_step e au au'" and ok: "authority_ok au"
    and r: "map_of (au_staged au') w = Some \<lparr>sr_handle = h, sr_stage = s\<rparr>" and s: "s \<noteq> AS_FENCED"
  shows "(map_of (au_staged au) w = Some \<lparr>sr_handle = h, sr_stage = s\<rparr> \<and> (\<forall>s'. e \<noteq> Ev_advanced h s'))
     \<or> (e = Ev_advanced h s \<and> s \<noteq> AS_ACTIVE \<and> (\<exists>s0. map_of (au_staged au) w = Some \<lparr>sr_handle = h, sr_stage = s0\<rparr>
          \<and> s0 \<noteq> AS_FENCED \<and> stage_index s = Suc (stage_index s0)))
     \<or> (e = Ev_activated h \<and> s = AS_ACTIVE \<and> map_of (au_staged au) w = Some \<lparr>sr_handle = h, sr_stage = AS_ADMITTED_AUDITED\<rparr>)
     \<or> (\<exists>d. e = Ev_reserved d h \<and> s = AS_RESERVED \<and> sa_id h = au_next_handle au)"
proof (cases e)
  case (Ev_issued d)
  then show ?thesis using issued_event [of d au au'] st ok r s by (auto simp: quiet_def)
next
  case (Ev_admitted d v)
  then show ?thesis using admitted_event [of d v au au'] st r by auto
next
  case (Ev_reserved d h')
  then obtain b where "quiet au b" "sa_id h' = au_next_handle b" "au_staged au' =
      AList.update (tk_ws h') \<lparr>sr_handle = h', sr_stage = AS_RESERVED\<rparr> (au_staged b)"
    using reserved_event [of d h' au au'] st ok by fastforce
  then show ?thesis using r s Ev_reserved by (auto simp: table_simps quiet_def split: if_splits)
next
  case (Ev_advanced h' s')
  then obtain s0 where f: "map_of (au_staged au) (tk_ws h') = Some \<lparr>sr_handle = h', sr_stage = s0\<rparr>" "s0 \<noteq> AS_FENCED"
      "s' \<notin> {AS_FENCED, AS_ACTIVE}" "stage_index s' = Suc (stage_index s0)" "au' = set_stage h' s' au"
    using advanced_event [of h' s' au au'] st by blast
  have "h \<noteq> h'" if "w \<noteq> tk_ws h'"
    using that r fence_stored [OF ok, of w] by (auto simp: f(5) set_stage_def table_simps)
  then show ?thesis using r s Ev_advanced f by (auto simp: set_stage_def table_simps split: if_splits)
next
  case (Ev_activated h')
  then show ?thesis using r activated_event [of h' au au'] st by (auto simp: set_stage_def table_simps split: if_splits)
next
  case (Ev_freed v c)
  then have "map_of (au_staged au') \<subseteq>\<^sub>m map_of (au_staged au)" using freed_event [of v c au au'] st ok by (auto simp: freed_def)
  then show ?thesis using r Ev_freed by (force simp: map_le_def dom_def)
next
  case Ev_quiet
  then show ?thesis using step_quiet [OF st _ ok] r s by (auto simp: quiet_def)
qed

text \<open>The stages recorded for a handle that is not fenced are exactly the ones up to its stage.\<close>

definition history_ok :: "tk_event list \<Rightarrow> AttachmentAuthority \<Rightarrow> bool" where
  "history_ok evs au \<longleftrightarrow>
     (\<forall>h s. Ev_advanced h s \<in> set evs \<longrightarrow> sa_id h < au_next_handle au)
     \<and> (\<forall>w h s. map_of (au_staged au) w = Some \<lparr>sr_handle = h, sr_stage = s\<rparr> \<longrightarrow> s \<noteq> AS_FENCED \<longrightarrow>
          advanced h evs = take (stage_index s) ADMISSION_STEPS \<and> (s = AS_ACTIVE \<longrightarrow> Ev_activated h \<in> set evs))"

lemma next_stage:
  "stage_index s = Suc (stage_index s0) \<Longrightarrow> s \<notin> {AS_ACTIVE, AS_FENCED} \<Longrightarrow>
     take (stage_index s0) ADMISSION_STEPS @ [s] = take (stage_index s) ADMISSION_STEPS"
  by (cases s; cases s0) (simp_all add: ADMISSION_STEPS_def)

lemma advanced_none: "(\<And>s. Ev_advanced h s \<notin> set evs) \<Longrightarrow> advanced h evs = []"
proof (induction evs)
  case (Cons e evs)
  have "advanced h (e # evs) = advanced h [e] @ advanced h evs" using advanced_append [of h "[e]" evs] by simp
  then show ?case using Cons advanced_other [of e h] by (metis append_Nil list.set_intros)
qed simp

lemma history_step:
  assumes st: "tk_step e au au'" and ok: "authority_ok au" and hist: "history_ok evs au"
  shows "history_ok (evs @ [e]) au'"
  unfolding history_ok_def
proof (intro conjI allI impI)
  fix h s assume "Ev_advanced h s \<in> set (evs @ [e])"
  then have "sa_id h < au_next_handle au"
    using hist advanced_event [of h s au au'] st ok unfolding history_ok_def slots_ok_def by fastforce
  then show "sa_id h < au_next_handle au'" using next_handle_mono [OF st ok] by simp
next
  fix w h s assume r: "map_of (au_staged au') w = Some \<lparr>sr_handle = h, sr_stage = s\<rparr>" and s: "s \<noteq> AS_FENCED"
  have none: "advanced h evs = []" if "sa_id h = au_next_handle au"
    by (rule advanced_none) (use hist that in \<open>auto simp: history_ok_def\<close>)
  have h: "advanced h evs = take (stage_index t) ADMISSION_STEPS \<and> (t = AS_ACTIVE \<longrightarrow> Ev_activated h \<in> set evs)"
    if "map_of (au_staged au) w = Some \<lparr>sr_handle = h, sr_stage = t\<rparr>" "t \<noteq> AS_FENCED" for t
    using hist that by (simp add: history_ok_def)
  from stage_effect [OF st ok r s]
  show "advanced h (evs @ [e]) = take (stage_index s) ADMISSION_STEPS"
    using h s none next_stage [of s] advanced_other [of e h]
    by (elim disjE exE conjE) (auto simp: ADMISSION_STEPS_def)
  from stage_effect [OF st ok r s] show "Ev_activated h \<in> set (evs @ [e])" if "s = AS_ACTIVE"
    using h s that by (elim disjE exE conjE) auto
qed

lemma reachable_history:
  assumes "new_authority a0" "run tk_step evs a0 au"
  shows "history_ok evs au"
  using assms(2,1)
proof (induction rule: run.induct)
  case (run_nil s)
  then show ?case using new_empty [of s] by (simp add: history_ok_def)
next
  case (run_snoc evs s s' e s'')
  then show ?case using history_step [OF run_snoc(2)] reachable_ok [OF run_snoc(4,1)] by simp
qed

section \<open>Shutdown\<close>

lemma map_of_Nil: "map_of t \<subseteq>\<^sub>m Map.empty \<Longrightarrow> t = []"
  by (metis map_le_empty map_le_antisym map_of_eq_empty_iff)

lemma shut_step:
  assumes st: "tk_step e au au'" and ok: "authority_ok au" and shut: "au_shutdown_started au" "all_fenced au"
  shows "(e = Ev_quiet \<or> (\<exists>w c. e = Ev_freed w c)) \<and> au_shutdown_started au' \<and> all_fenced au'"
proof -
  have "e = Ev_quiet \<or> (\<exists>w c. e = Ev_freed w c)"
  proof (cases e)
    case (Ev_issued d)
    then show ?thesis using issued_event [of d au au'] st ok shut(1) by blast
  next
    case (Ev_admitted d w)
    then show ?thesis using admitted_event [of d w au au'] st shut(1) by blast
  next
    case (Ev_reserved d h)
    then show ?thesis using reserved_event [of d h au au'] st ok shut(1) by blast
  next
    case (Ev_advanced h s)
    then show ?thesis using advanced_event [of h s au au'] st shut(1) by blast
  next
    case (Ev_activated h)
    then show ?thesis using activated_event [of h au au'] st shut(1) by blast
  qed auto
  then show ?thesis
  proof (elim disjE exE)
    assume e: "e = Ev_quiet"
    then have q: "quiet au au'" using step_quiet [OF st _ ok] by simp
    then have "au_pending au' = []" using shut(2) map_of_Nil [of "au_pending au'"] by (simp add: quiet_def all_fenced_def)
    moreover have "au_active au' = []" using q shut(2) by (simp add: quiet_def all_fenced_def)
    moreover have "sr_stage r = AS_FENCED" if "map_of (au_staged au') w = Some r" for w r
      using q shut(2) that unfolding quiet_def all_fenced_def by meson
    moreover have "au_shutdown_started au'" using q shut(1) by (simp add: quiet_def)
    ultimately show ?thesis using e unfolding all_fenced_def by blast
  next
    fix w c assume e: "e = Ev_freed w c"
    then have f: "freed w c au au'" using freed_event st ok by blast
    then have "au_active au' = []" using shut(2) map_of_Nil [of "au_active au'"] by (simp add: freed_def all_fenced_def)
    moreover have "sr_stage r = AS_FENCED" if "map_of (au_staged au') v = Some r" for v r
      using f shut(2) that unfolding freed_def all_fenced_def map_le_def by (metis domI)
    ultimately show ?thesis using f shut e by (simp add: freed_def all_fenced_def)
  qed
qed

lemma run_shut:
  "run tk_step evs au au' \<Longrightarrow> authority_ok au \<Longrightarrow> au_shutdown_started au \<Longrightarrow> all_fenced au \<Longrightarrow>
     (\<forall>e\<in>set evs. e = Ev_quiet \<or> (\<exists>w c. e = Ev_freed w c)) \<and> authority_ok au' \<and> au_shutdown_started au' \<and> all_fenced au'"
proof (induction rule: run.induct)
  case (run_snoc evs s s' e s'')
  then show ?case using shut_step [OF run_snoc(2)] step_refines [OF run_snoc(2)] by auto
qed simp

lemma begin_shutdown_shut:
  "authority_ok au \<Longrightarrow> \<not> au_shutdown_started au \<Longrightarrow> all_fenced (begin_shutdown au)"
  using burn_all_ok [of "au\<lparr>au_shutdown_started := True\<rparr>"] start_shutdown_calm [of "\<lambda>_. False" au]
  by (simp add: begin_shutdown_def calm_def)

lemma begin_shutdown_started: "authority_ok au \<Longrightarrow> au_shutdown_started (begin_shutdown au)"
  using burn_all_ok [of "au\<lparr>au_shutdown_started := True\<rparr>"] start_shutdown_calm [of "\<lambda>_. False" au]
  by (auto simp: begin_shutdown_def calm_def quiet_def)

lemma shutdown_clean_iff:
  assumes ok: "authority_ok au" and shut: "au_shutdown_started au" "all_fenced au"
  shows "shutdown_clean au \<longleftrightarrow> slots au = Map.empty"
proof
  assume "shutdown_clean au"
  then show "slots au = Map.empty" by (simp add: shutdown_clean_def slots_def fun_eq_iff)
next
  assume "slots au = Map.empty"
  then have n: "map_of (au_staged au) w = None \<and> map_of (au_cleanup_pending au) w = None" for w
    using slot_free [of w au] by (simp add: slot_taken_def)
  then have "map_of (au_cleanup_contexts au) w = None" for w
    using slot_okD [OF ok, of w] by (simp add: slot_ok_def)
  then have "map_of (au_staged au) = Map.empty" "map_of (au_cleanup_pending au) = Map.empty"
      "map_of (au_cleanup_contexts au) = Map.empty"
    using n by (simp_all only: fun_eq_iff simp_thms)
  then show "shutdown_clean au" using shut by (simp add: shutdown_clean_def all_fenced_def)
qed

text \<open>In a fenced authority every slot can be freed by its cleanup proof.\<close>

lemma fenced_slot_frees:
  assumes ok: "authority_ok au" and f: "all_fenced au" and w: "slots au w = Some (c, x)"
  shows "\<exists>au'. tk_step (Ev_freed w c) au au'"
proof (cases "map_of (au_staged au) w")
  case (Some r)
  then have s: "sr_stage r = AS_FENCED" "exact_staged (sr_handle r) au = Inr r" "tk_ws (sr_handle r) = w"
    using f fence_stored [OF ok Some] by (auto simp: all_fenced_def)
  have c: "c = sa_claims (sr_handle r)" using w Some f by (simp add: slots_def all_fenced_def)
  obtain au' where "acknowledge_staged_cleanup (sr_handle r) (sa_connection_id (sr_handle r)) CLEANUP_PROOF True au = (Inr (), au')"
    using s by (simp add: acknowledge_staged_cleanup_def)
  from st_ack_staged [OF this] show ?thesis using s(3) c by auto
next
  case None
  have m: "map_of (au_cleanup_pending au) w = Some c"
    using w None f by (cases "map_of (au_cleanup_pending au) w") (auto simp: slots_def all_fenced_def)
  have "at_workspace_id c = w" using slot_okD [OF ok, of w] m by (simp add: slot_ok_def)
  moreover from this obtain au' where "tk_acknowledge_cleanup c CLEANUP_PROOF au = (Inr (), au')"
    using m None by (simp add: tk_acknowledge_cleanup_def same_tuple_eq)
  ultimately show ?thesis using st_ack by metis
qed

lemma shutdown_drains:
  "authority_ok au \<Longrightarrow> au_shutdown_started au \<Longrightarrow> all_fenced au \<Longrightarrow>
     \<exists>evs au'. run tk_step evs au au' \<and> shutdown_clean au'"
proof (induction "card (dom (slots au))" arbitrary: au rule: less_induct)
  case less
  show ?case
  proof (cases "slots au = Map.empty")
    case True
    then have "run tk_step [] au au \<and> shutdown_clean au" using shutdown_clean_iff [OF less.prems] by simp
    then show ?thesis by (intro exI)
  next
    case False
    then obtain w where "slots au w \<noteq> None" by (meson ext)
    then obtain c x where w: "slots au w = Some (c, x)" by (cases "slots au w") auto
    then obtain au' where st: "tk_step (Ev_freed w c) au au'" using fenced_slot_frees less.prems by blast
    have f: "freed w c au au'" "authority_ok au'" using freed_event [OF st less.prems(1)] by auto
    have "card (dom (slots au')) < card (dom (slots au))"
      using card_dom_del [of "slots au" w "(c, x)"] w f(1) by (simp add: freed_def)
    note less.hyps [OF this f(2)]
    moreover have "au_shutdown_started au'" "all_fenced au'" using shut_step [OF st less.prems] by simp_all
    ultimately obtain evs au'' where r: "run tk_step evs au' au''" and "shutdown_clean au''" by auto
    then have "run tk_step (Ev_freed w c # evs) au au'' \<and> shutdown_clean au''" using run_cons [OF r st] by simp
    then show ?thesis by (intro exI)
  qed
qed

end
