(* ===== verification/Ticket_Properties.thy ===== *)
theory Ticket_Properties
  imports Ticket_Trace
begin

text \<open>
  The guarantees of the attachment authority over all runs from a new authority, with one admission
  followed through every stage as the example.
\<close>

section \<open>A complete admission\<close>

definition sample_claims :: AttachmentTuple where
  "sample_claims = \<lparr>
     at_workspace_id = projr (workspace_id (lit ''prj_00000000000000000000000000000000'') (AgentType_value CODEX)),
     at_project_id = lit ''prj_00000000000000000000000000000000'', at_agent_type = CODEX,
     at_attachment_id = lit ''att_00000000000000000000000000000000'', at_lease_number = 1, at_generation = 1,
     at_auth_epoch = 1, at_api_authority_epoch = 1,
     at_host_installation_id = lit ''wri_00000000000000000000000000000000'', at_host_installation_revision = 1,
     at_binding_revision = 1, at_binding_digest = replicate 64 48, at_mode = lit ''writer''\<rparr>"

definition sample_context :: AuthenticatedAttachmentContext where
  "sample_context = \<lparr>cx_session_id = lit ''s1'', cx_user_id = lit ''u1'', cx_authorization_scope = lit ''waw'',
     cx_origin = lit ''https://a.b'', cx_runtime_epoch = lit ''1'', cx_auth_epoch = 1\<rparr>"

definition sample_authority :: AttachmentAuthority where
  "sample_authority = \<lparr>au_authority_epoch = 1, au_next_lease_number = 1, au_ticket_ttl = 30, au_lease_ttl = 60,
     au_absolute_lease = 300, au_max_records = 64, au_max_writers = 32, au_max_per_admin = 4,
     au_replay_cache_size = 256, au_pending = [], au_active = [], au_cleanup_pending = [],
     au_cleanup_contexts = [], au_staged = [], au_replayed = [], au_shutdown_started = False, au_next_handle = 0\<rparr>"

definition sample_ticket :: pystr where
  "sample_ticket = TICKET_PREFIX @ hex_bytes (replicate 16 0)"

definition sample_digest :: bytes where
  "sample_digest = sha256 (map of_nat sample_ticket)"

definition sample_pending :: PendingTicket where
  "sample_pending = \<lparr>pt_digest = sample_digest, pt_claims = sample_claims, pt_issued_at = 0, pt_expires_at = 30,
     pt_context = Some sample_context\<rparr>"

definition sample_issued :: AttachmentAuthority where
  "sample_issued = sample_authority\<lparr>au_next_lease_number := 2, au_pending := [(sample_digest, sample_pending)]\<rparr>"

definition sample_handle :: StagedAttachment where
  "sample_handle = \<lparr>sa_id = 0, sa_claims = sample_claims, sa_context = sample_context, sa_connection_id = 7,
     sa_started_at = 0, sa_deadline = 5, sa_lease_expires_at = 61, sa_absolute_expires_at = 301\<rparr>"

definition sample_at :: "AdmissionStage \<Rightarrow> AttachmentAuthority" where
  "sample_at s = sample_authority\<lparr>au_next_lease_number := 2, au_replayed := [sample_digest],
     au_staged := [(at_workspace_id sample_claims, \<lparr>sr_handle = sample_handle, sr_stage = s\<rparr>)], au_next_handle := 1\<rparr>"

definition sample_lease :: ActiveAttachment where
  "sample_lease = \<lparr>aa_claims = sample_claims, aa_opened_at = 1, aa_last_heartbeat = 1, aa_lease_expires_at = 61,
     aa_absolute_expires_at = 301, aa_context = Some sample_context\<rparr>"

definition sample_live :: AttachmentAuthority where
  "sample_live = (sample_at AS_ACTIVE)\<lparr>au_active := [(at_workspace_id sample_claims, sample_lease)]\<rparr>"

definition sample_queue :: "bytes list Publication" where
  "sample_queue = \<lparr>pub_release = (\<lambda>q. (True, q)), pub_discard = (\<lambda>q. []),
     pub_take = (\<lambda>q. case q of [] \<Rightarrow> (None, []) | f # r \<Rightarrow> (Some f, r))\<rparr>"

lemma sample_new: "new_authority sample_authority"
proof -
  have "Authority_init (Some 1) (Some 1) None None 30 60 300 64 256 32 4 = Inr sample_authority"
    by (simp add: Authority_init_def sample_authority_def u64_or_random_def validators_ok MAX_U64_eval)
  then show ?thesis unfolding new_authority_def by (intro exI)
qed

lemma sample_claims_init: "AttachmentTuple_init sample_claims (lit ''codex'') = Inr sample_claims"
proof -
  let ?p = "lit ''prj_00000000000000000000000000000000''"
  have p: "id_matches project_kind ?p" "id_matches attachment_kind (lit ''att_00000000000000000000000000000000'')"
    "id_matches runtime_host_kind (lit ''wri_00000000000000000000000000000000'')"
    by (simp_all add: id_matches_def lit_def is_hex_def)
  obtain w where w: "workspace_id ?p (AgentType_value CODEX) = Inr w"
    using p by (simp add: workspace_id_def validators_ok Let_def)
  have a: "lit ''codex'' = AgentType_value CODEX" by (simp add: AgentType_value.simps)
  have "list_all is_hex (replicate 64 48)" by (simp add: list_all_iff is_hex_def)
  then show ?thesis using p w workspace_id_matches [OF w]
    by (simp add: a AttachmentTuple_init_def sample_claims_def validators_ok MAX_U64_eval)
qed

lemma sample_ticket_digest: "ticket_digest sample_ticket = Inr sample_digest"
  by (simp add: ticket_digest_def sample_ticket_def sample_digest_def TICKET_PREFIX_def TOKEN_LENGTH_def lit_def hex_bytes_hex)

lemma sample_sweep [simp]:
  "tk_sweep 0 sample_authority = ([], sample_authority)" 
  by (simp add: tk_sweep_def sample_authority_def)

lemma sample_issue:
  "tk_issue sample_claims (lit ''codex'') (lit ''https://a.b'') (Some sample_context) 0 (\<lambda>_. Some (replicate 16 0)) 0 sample_authority
     = (Inr \<lparr>it_ticket = sample_ticket, it_claims = sample_claims, it_issued_at = 0, it_expires_at_monotonic = 30,
             it_expires_at = 0\<rparr>, sample_issued)"
proof -
  have d: "draw_ticket (\<lambda>_. Some (replicate 16 0)) 0 3 (sample_authority\<lparr>au_next_lease_number := 2\<rparr>) = Inr (sample_ticket, sample_digest)"
    using sample_ticket_digest by (simp add: numeral_3_eq_3 new_ticket_def sample_ticket_def sample_authority_def)
  have c: "sample_claims\<lparr>at_lease_number := 1, at_api_authority_epoch := 1, at_mode := lit ''writer''\<rparr> = sample_claims"
    by (simp add: sample_claims_def)
  have o: "compare_all [(cx_origin sample_context, lit ''https://a.b'')] = Inr True" "lit ''https://a.b'' \<noteq> []"
    "length (lit ''https://a.b'') = 11"
    by (simp_all add: sample_context_def lit_def)
  have a: "au_shutdown_started sample_authority = False" "au_cleanup_pending sample_authority = []"
    "au_staged sample_authority = []" "record_count sample_authority = 0" "au_max_records sample_authority = 64"
    "admin_count u sample_authority = 0" "au_max_per_admin sample_authority = 4"
    "allocate_lease_number sample_authority = (Inr 1, sample_authority\<lparr>au_next_lease_number := 2\<rparr>)"
    "au_authority_epoch sample_authority = 1" "au_ticket_ttl sample_authority = 30" "au_pending sample_authority = []" for u
    by (simp_all add: sample_authority_def record_count_def writer_keys_def admin_count_def allocate_lease_number_def
        MAX_U64_eval)
  show ?thesis
    by (simp add: tk_issue_def Let_def a o c d sample_claims_init sample_issued_def sample_pending_def
        del: compare_all.simps draw_ticket.simps)
qed

lemma sample_same_context: "same_context (Some sample_context) (Some sample_context) = Inr True"
proof -
  have d: "list_all (\<lambda>c. c < 128) (dec_str n)" for n
    using dec_str_digits [of n] by (auto simp: list_all_iff is_digit_def)
  show ?thesis by (simp add: sample_context_def lit_def d del: dec_str.simps)
qed

lemma sample_reserve:
  "tk_reserve sample_ticket sample_claims (Some sample_context) (Some 7) 0 1 None None sample_issued
     = (Inr sample_handle, sample_at AS_RESERVED)"
proof -
  define b where "b = sample_authority\<lparr>au_next_lease_number := 2, au_replayed := [sample_digest]\<rparr>"
  have take: "take_pending sample_ticket sample_issued = (Inr sample_pending, b)"
    by (simp add: take_pending_def sample_ticket_digest sample_issued_def burn_ticket_def push_replayed_def
        sample_authority_def Let_def b_def)
  have chk: "reserve_checks sample_claims (Some sample_context) (Some 7) 0 1 None None sample_pending 1 = Inr ()"
    by (simp add: reserve_checks_def sample_same_context sample_pending_def same_tuple_eq RESERVE_SECONDS_def ensure_def
        del: same_context.simps) (simp add: sample_claims_def sample_context_def)
  have b: "tk_sweep 1 b = ([], b)" "au_authority_epoch b = 1" "\<not> slot_taken w b" "writer_keys b = []"
    "admin_count u b = 0" "au_max_writers b = 32" "au_max_per_admin b = 4" "au_next_handle b = 0" "au_lease_ttl b = 60"
    "au_absolute_lease b = 300" "au_staged b = []" for w u
    by (simp_all add: tk_sweep_def sample_authority_def slot_taken_def writer_keys_def admin_count_def b_def)
  have st: "au_shutdown_started sample_issued = False" by (simp add: sample_issued_def sample_authority_def)
  have "sample_at AS_RESERVED = b\<lparr>au_staged := [(at_workspace_id sample_claims,
      \<lparr>sr_handle = sample_handle, sr_stage = AS_RESERVED\<rparr>)], au_next_handle := 1\<rparr>"
    by (simp add: sample_at_def b_def)
  moreover have "pt_expires_at sample_pending = 30" by (simp add: sample_pending_def)
  ultimately show ?thesis
    by (simp add: tk_reserve_def st take chk b Let_def sample_handle_def RESERVE_SECONDS_def)
qed

lemma sample_lookup:
  "map_of (au_staged (sample_at s)) (at_workspace_id sample_claims) = Some \<lparr>sr_handle = sample_handle, sr_stage = s\<rparr>"
  "exact_staged sample_handle (sample_at s) = Inr \<lparr>sr_handle = sample_handle, sr_stage = s\<rparr>"
  "au_shutdown_started (sample_at s) = False" "set_stage sample_handle s' (sample_at s) = sample_at s'"
  "au_active (sample_at s) = []"
  by (simp_all add: sample_at_def exact_staged_def sample_handle_def sample_authority_def set_stage_def)

lemma sample_check: "s \<notin> {AS_FENCED, AS_ACTIVE} \<Longrightarrow>
    check_reserved sample_handle 1 (sample_at s) = (Inr \<lparr>sr_handle = sample_handle, sr_stage = s\<rparr>, sample_at s)"
  by (simp add: check_reserved_def sample_lookup) (simp add: sample_handle_def)

lemma sample_advance:
  "s \<notin> {AS_FENCED, AS_ACTIVE} \<Longrightarrow> s' \<notin> {AS_FENCED, AS_ACTIVE} \<Longrightarrow> stage_index s' = Suc (stage_index s) \<Longrightarrow>
     tk_step (Ev_advanced sample_handle s') (sample_at s) (sample_at s')"
  by (rule st_advance [of _ _ 1]) (simp add: tk_advance_def sample_lookup sample_check)

lemma sample_activate:
  "activate_with_publication sample_handle sample_queue 1 1 [[1]] (sample_at AS_ADMITTED_AUDITED) = (Inr sample_lease, [[1]], sample_live)"
  by (simp add: activate_with_publication_def sample_lookup sample_check Let_def sample_queue_def sample_live_def)
    (simp add: sample_lease_def sample_handle_def)

lemmas tk_cons = run_cons [where step = tk_step]
lemmas tk_nil = run_nil [where step = tk_step]

definition sample_events :: "tk_event list" where
  "sample_events = Ev_issued sample_digest # Ev_reserved sample_digest sample_handle
     # map (Ev_advanced sample_handle) ADMISSION_STEPS @ [Ev_activated sample_handle]"

lemma sample_run: "run tk_step sample_events sample_authority sample_live"
proof -
  have l: "run tk_step [Ev_activated sample_handle] (sample_at AS_ADMITTED_AUDITED) sample_live"
    by (rule tk_cons [OF tk_nil st_activate [OF sample_activate]])
  have "run tk_step (map (Ev_advanced sample_handle) ADMISSION_STEPS @ [Ev_activated sample_handle]) (sample_at AS_RESERVED) sample_live"
    unfolding ADMISSION_STEPS_def list.map append.simps
    by (rule tk_cons [OF _ sample_advance] | rule l | simp)+
  then show ?thesis unfolding sample_events_def
    using tk_cons [OF tk_cons [OF _ st_reserve [OF sample_reserve sample_ticket_digest]] st_issue [OF sample_issue]]
      sample_ticket_digest by simp
qed

section \<open>Writer slots\<close>

fun admits :: "pystr \<Rightarrow> tk_event \<Rightarrow> bool" where
  "admits w (Ev_admitted d v) = (v = w)"
| "admits w (Ev_reserved d h) = (tk_ws h = w)"
| "admits w _ = False"

lemma slot_step_admits: "slot_step e v v' \<Longrightarrow> admits w e \<Longrightarrow> av_slots v w = None"
  by (induction rule: slot_step.induct) auto

lemma run_admits:
  "run slot_step evs v v' \<Longrightarrow> av_slots v w = Some hg \<Longrightarrow> (\<And>c. Ev_freed w c \<notin> set evs) \<Longrightarrow> e \<in> set evs \<Longrightarrow> \<not> admits w e"
proof (induction rule: run.induct)
  case (run_snoc evs s s' e' s'')
  then have "av_slots s' w = Some hg" by (intro run_owner [OF run_snoc(1)]) auto
  then show ?case using run_snoc slot_step_admits [OF run_snoc(2)] by fastforce
qed simp

text \<open>
  C2. A writer slot has one owner until it is freed. In every run from a new authority, when the
  slot of a workspace is held with some claims, then as long as no call frees it (the exact
  detachment of a lease that was not staged, or a cleanup proof) the same claims and the same
  context hold it, whatever tickets are issued, consumed or reserved, and whatever expires, is
  fenced, revoked or shut down. Any active lease and any staged admission of the workspace carries
  these claims, and no ticket is admitted to it.
\<close>

theorem writer_slot_held:
  assumes "new_authority a0" "run tk_step evs0 a0 au" "slots au w = Some (c, x)"
    and "run tk_step evs au au'" "\<And>c'. Ev_freed w c' \<notin> set evs"
  shows "slots au' w = Some (c, x) \<and> (\<forall>a. map_of (au_active au') w = Some a \<longrightarrow> aa_claims a = c \<and> aa_context a = x)
    \<and> (\<forall>r. map_of (au_staged au') w = Some r \<longrightarrow> sa_claims (sr_handle r) = c) \<and> (\<forall>e\<in>set evs. \<not> admits w e)"
proof -
  have ok: "authority_ok au" using reachable_ok [OF assms(1,2)] by simp
  have r: "authority_ok au'" "run slot_step evs (view au) (view au')"
    using tickets.run_refines [OF assms(4) ok] by auto
  have v: "av_slots (view au) w = Some (c, x)" using assms(3) by (simp add: view_def)
  have s: "slots au' w = Some (c, x)" using run_owner [OF r(2) v assms(5)] by (simp add: view_def)
  have a: "aa_claims a = c \<and> aa_context a = x" if "map_of (au_active au') w = Some a" for a
    using s that by (simp add: slots_def)
  have "sa_claims (sr_handle t) = c" if t: "map_of (au_staged au') w = Some t" for t
  proof (cases "map_of (au_active au') w")
    case None
    then show ?thesis using s t by (simp add: slots_def)
  next
    case (Some l)
    then show ?thesis using a [OF Some] slot_okD [OF r(1), of w] t
      by (auto simp: slot_ok_def staged_ok_def Let_def split: AdmissionStage.splits)
  qed
  then show ?thesis using s a run_admits [OF r(2) v assms(5)] by blast
qed

lemma sample_slot: "slots sample_live (at_workspace_id sample_claims) = Some (sample_claims, Some sample_context)"
  by (simp add: slots_def sample_live_def sample_lease_def)

theorem writer_slot_held_witness:
  "\<exists>au. run tk_step [Ev_quiet] sample_live au \<and> map_of (au_active au) (at_workspace_id sample_claims) = None
     \<and> slots au (at_workspace_id sample_claims) = Some (sample_claims, Some sample_context)"
proof -
  let ?au = "snd (tk_fence sample_handle sample_live)"
  have r: "run tk_step [Ev_quiet] sample_live ?au"
    by (rule tk_cons [OF tk_nil st_fence [of sample_handle _ "fst (tk_fence sample_handle sample_live)"]]) simp
  have "exact_staged sample_handle sample_live = Inr \<lparr>sr_handle = sample_handle, sr_stage = AS_ACTIVE\<rparr>"
    using sample_lookup(2) [of AS_ACTIVE] by (simp add: sample_live_def exact_staged_def)
  moreover have "tk_ws sample_handle = at_workspace_id sample_claims" by (simp add: sample_handle_def)
  ultimately have "map_of (au_active ?au) (at_workspace_id sample_claims) = None" by (simp add: fence_active)
  then show ?thesis using writer_slot_held [OF sample_new sample_run sample_slot r] r
    by (intro exI [of _ ?au]) simp
qed

section \<open>Tickets\<close>

text \<open>
  C8. A ticket is used at most once. In every run the number of times a ticket was consumed or
  reserved, plus one if it is still pending, is at most the number of times it was issued. So after
  a ticket was presented, whatever the outcome, it admits nobody until the same digest is issued
  again.
\<close>

theorem ticket_single_use:
  assumes "new_authority a0" "run tk_step evs a0 au"
  shows "length (filter (uses d) evs) + of_bool (map_of (au_pending au) d \<noteq> None) \<le> count_list evs (Ev_issued d)"
proof -
  have "run slot_step evs (view a0) (view au)"
    using tickets.run_refines [OF assms(2)] new_ok [OF assms(1)] by simp
  from run_use [OF this, of d] show ?thesis
    using new_empty [OF assms(1)] by (cases "map_of (au_pending au) d") (simp_all add: view_def)
qed

theorem ticket_single_use_witness:
  "run tk_step sample_events sample_authority sample_live \<and> length (filter (uses sample_digest) sample_events) = 1
     \<and> length (filter (uses sample_digest) sample_events) + of_bool (map_of (au_pending sample_live) sample_digest \<noteq> None)
       \<le> count_list sample_events (Ev_issued sample_digest)"
  using ticket_single_use [OF sample_new sample_run, of sample_digest] sample_run
  by (simp add: sample_events_def ADMISSION_STEPS_def)

text \<open>
  C30. The capacities hold in every reachable state: at most \<open>max_records\<close> tickets and slots together,
  at most \<open>max_writers\<close> slots, and for every user at most \<open>max_per_admin\<close> tickets and slots,
  whichever of the five dicts they are in.
\<close>

theorem authority_bounded:
  assumes "new_authority a0" "run tk_step evs a0 au"
  shows "record_count au \<le> au_max_records au \<and> length (writer_keys au) \<le> au_max_writers au
     \<and> admin_count u au \<le> au_max_per_admin au"
proof -
  have ok: "authority_ok au" "view_ok (view au)" using reachable_ok [OF assms] by auto
  have "dom (av_tickets (view au)) = set (map fst (au_pending au))"
    by (auto simp: view_def dom_map_of_conv_image_fst [symmetric])
  moreover have "distinct (map fst (au_pending au))" using ok(1) by (simp add: slots_ok_def table_def)
  ultimately have "card (dom (av_tickets (view au))) = length (au_pending au)"
    using distinct_card [of "map fst (au_pending au)"] by simp
  then show ?thesis using view_okD(3,4) [OF ok(2)] view_okD(5) [OF ok(2), of u] admin_count_view [OF ok(1), of u]
    by (simp add: record_count_def length_writer_keys view_def av_user_count_def)
qed

theorem authority_bounded_witness:
  "run tk_step sample_events sample_authority sample_live \<and> record_count sample_live = 1
     \<and> record_count sample_live \<le> 64 \<and> admin_count (lit ''u1'') sample_live \<le> 4"
  using authority_bounded [OF sample_new sample_run, of "lit ''u1''"] sample_run
  by (simp add: record_count_def writer_keys_def sample_live_def sample_at_def sample_authority_def)

section \<open>Admission\<close>

lemma read_published_Some:
  assumes "read_published h pub now q au = (Inr (Some frame), q', au')"
  shows "map_of (au_staged au) (tk_ws h) = Some \<lparr>sr_handle = h, sr_stage = AS_ACTIVE\<rparr> \<and> au' = au
     \<and> (\<exists>a. map_of (au_active au) (tk_ws h) = Some a \<and> active_at a now)"
proof -
  obtain r where r: "exact_staged h au = Inr r" "sr_stage r = AS_ACTIVE"
      "tk_is_active (sa_claims h) (Some (sa_context h)) now au = (Inr True, au')"
    using assms by (auto simp: read_published_def split: sum.splits if_splits prod.splits)
  then have "r = \<lparr>sr_handle = h, sr_stage = AS_ACTIVE\<rparr>" by (cases r) (auto simp: exact_staged_Inr)
  then show ?thesis using r
    by (auto simp: exact_staged_Inr tk_is_active_def split: sum.splits option.splits if_splits dest!: exact_lease_Some)
qed

text \<open>
  C4. A frame is published only after a complete admission. When a read of the publication queue
  for a handle returns a frame, then before it every one of the seven admission stages was recorded
  for this handle, each once and in order, and it was activated after that; at the time of the read
  the workspace has an unexpired active lease with exactly the claims and the context of the
  handle, and the read changed nothing in the authority.
\<close>

theorem frame_after_admission:
  assumes "new_authority a0" "run tk_step evs a0 au" "read_published h pub now q au = (Inr (Some frame), q', au')"
  shows "advanced h evs = ADMISSION_STEPS \<and> Ev_activated h \<in> set evs \<and> au' = au
     \<and> (\<exists>a. map_of (au_active au) (tk_ws h) = Some a \<and> aa_claims a = sa_claims h \<and> aa_context a = Some (sa_context h)
          \<and> now < aa_lease_expires_at a \<and> now < aa_absolute_expires_at a)"
proof -
  note r = read_published_Some [OF assms(3)]
  have ok: "authority_ok au" using reachable_ok [OF assms(1,2)] by simp
  obtain a where a: "map_of (au_active au) (tk_ws h) = Some a" "active_at a now" using r by blast
  have "aa_claims a = sa_claims h \<and> aa_context a = Some (sa_context h)"
    using slot_okD [OF ok, of "tk_ws h"] r a(1) by (simp add: slot_ok_def staged_ok_def Let_def)
  moreover have "advanced h evs = ADMISSION_STEPS \<and> Ev_activated h \<in> set evs"
    using reachable_history [OF assms(1,2)] r unfolding history_ok_def
    by (auto simp: ADMISSION_STEPS_def)
  ultimately show ?thesis using r a by (auto simp: active_at_def)
qed

lemma sample_read: "read_published sample_handle sample_queue 2 [[1]] sample_live = (Inr (Some [1]), [], sample_live)"
proof -
  have "exact_staged sample_handle sample_live = Inr \<lparr>sr_handle = sample_handle, sr_stage = AS_ACTIVE\<rparr>"
    using sample_lookup(2) [of AS_ACTIVE] by (simp add: sample_live_def exact_staged_def)
  moreover have "exact_lease sample_claims (Some sample_context) sample_live = Inr (Some sample_lease)"
    using sample_same_context
    by (simp add: exact_lease_def sample_live_def sample_lease_def same_tuple_eq del: same_context.simps)
  ultimately show ?thesis
    by (simp add: read_published_def tk_is_active_def sample_queue_def sample_handle_def)
      (simp add: sample_lease_def active_at_def)
qed

theorem frame_after_admission_witness:
  "read_published sample_handle sample_queue 2 [[1]] sample_live = (Inr (Some [1]), [], sample_live)
     \<and> advanced sample_handle sample_events = ADMISSION_STEPS"
  using frame_after_admission [OF sample_new sample_run sample_read] sample_read by blast

section \<open>Revocation and shutdown\<close>

text \<open>
  C28. Revoking a session leaves it nothing to use. After an accepted \<open>revoke_session\<close> no pending
  ticket and no active lease belongs to the session at that epoch, and every staged admission of it
  is fenced; no writer slot changed its owner, so cleanup is still owed for each.
\<close>

theorem session_revoked:
  assumes "new_authority a0" "run tk_step evs a0 au" "revoke_session sid ep au = (Inr ids, au')"
  shows "(\<forall>d p. map_of (au_pending au') d = Some p \<longrightarrow> \<not> of_session sid ep (pt_context p))
     \<and> (\<forall>w a. map_of (au_active au') w = Some a \<longrightarrow> \<not> of_session sid ep (aa_context a))
     \<and> (\<forall>w r. map_of (au_staged au') w = Some r \<longrightarrow> of_session sid ep (Some (sa_context (sr_handle r))) \<longrightarrow> sr_stage r = AS_FENCED)
     \<and> slots au' = slots au"
proof -
  have ok: "authority_ok au" using reachable_ok [OF assms(1,2)] by simp
  show ?thesis using revoke_session_ok [OF ok, of sid ep] assms(3) by (simp add: session_gone_def quiet_def)
qed

lemma sample_revoke:
  "\<exists>au ids. revoke_session (lit ''s1'') 1 sample_live = (Inr ids, au)"
  by (simp add: revoke_session_def case_prod_unfold validators_ok MAX_U64_eval lit_def)

theorem session_revoked_witness:
  "\<exists>au ids. revoke_session (lit ''s1'') 1 sample_live = (Inr ids, au) \<and> slots au = slots sample_live"
  using session_revoked [OF sample_new sample_run] sample_revoke by blast

text \<open>
  C26. Shutdown is final and can complete. After \<open>begin_shutdown\<close> no call issues, admits, advances or
  activates anything, however many calls follow: no ticket and no active lease is left and every
  staged admission is fenced. \<open>shutdown_clean\<close> becomes true exactly when no slot is owed a cleanup,
  and from every such state some sequence of calls (one exact cleanup proof per slot) reaches it.
\<close>

theorem shutdown_completes:
  assumes "new_authority a0" "run tk_step evs0 a0 au" "\<not> au_shutdown_started au" "run tk_step evs (begin_shutdown au) au'"
  shows "(\<forall>e\<in>set evs. e = Ev_quiet \<or> (\<exists>w c. e = Ev_freed w c)) \<and> au_pending au' = [] \<and> au_active au' = []
     \<and> (\<forall>w r. map_of (au_staged au') w = Some r \<longrightarrow> sr_stage r = AS_FENCED)
     \<and> (shutdown_clean au' \<longleftrightarrow> slots au' = Map.empty)
     \<and> (\<exists>evs' au''. run tk_step evs' au' au'' \<and> shutdown_clean au'')"
proof -
  have ok: "authority_ok au" using reachable_ok [OF assms(1,2)] by simp
  have b: "authority_ok (begin_shutdown au)" using begin_shutdown_ok [OF ok] by simp
  note r = run_shut [OF assms(4) b begin_shutdown_started [OF ok] begin_shutdown_shut [OF ok assms(3)]]
  then have "shutdown_clean au' \<longleftrightarrow> slots au' = Map.empty" by (intro shutdown_clean_iff) simp_all
  moreover have "\<exists>evs' au''. run tk_step evs' au' au'' \<and> shutdown_clean au''" using r by (intro shutdown_drains) simp_all
  ultimately show ?thesis using r unfolding all_fenced_def by blast
qed

theorem shutdown_completes_witness:
  "\<exists>evs au. run tk_step evs (begin_shutdown sample_live) au \<and> shutdown_clean au"
proof -
  have "\<not> au_shutdown_started sample_live" by (simp add: sample_live_def sample_lookup)
  from shutdown_completes [OF sample_new sample_run this tk_nil] show ?thesis by blast
qed

section \<open>The contract\<close>

text \<open>
  C12. The authority implements its contract. Event by event, every run of the authority is a run of
  the contract \<open>slot_step\<close> over two maps, from digests to pending holdings and from workspaces to
  slot holdings: issue needs room, admission takes the pending ticket and an empty slot, only a
  freeing event empties a slot, and all other calls at most remove tickets. Staging, expiry,
  fencing, sweeping and revocation do not show.
\<close>

theorem authority_refines_contract:
  assumes "new_authority a0" "run tk_step evs a0 au"
  shows "run slot_step evs (view a0) (view au)"
  using tickets.run_refines [OF assms(2)] new_ok [OF assms(1)] by blast

theorem authority_refines_contract_witness:
  "run slot_step sample_events (view sample_authority) (view sample_live)
     \<and> av_slots (view sample_live) (at_workspace_id sample_claims) = Some (sample_claims, Some sample_context)"
  using authority_refines_contract [OF sample_new sample_run] sample_slot by (simp add: view_def)

section \<open>Contexts outside ASCII\<close>

lemma compare_all_same:
  "compare_all (map (\<lambda>x. (x, x)) xs) = (if list_all (list_all (\<lambda>c. c < 128)) xs then Inr True else Inl TicketTypeError)"
  by (induction xs) auto

lemma same_context_nonascii:
  assumes "\<not> list_all (\<lambda>x. x < 128) (cx_session_id c @ cx_user_id c @ cx_authorization_scope c @ cx_origin c)"
  shows "same_context (Some c) (Some c) = Inl TicketTypeError"
  using assms compare_all_same [of "[cx_session_id c, cx_user_id c, cx_authorization_scope c, cx_origin c,
      cx_runtime_epoch c, dec_str (nat (cx_auth_epoch c))]"]
  by (auto simp del: compare_all.simps dec_str.simps)

text \<open>
  C37. A context with a character outside ASCII is accepted by its constructor, but its ticket can
  never be used: presenting the ticket with the right claims and the very same context burns it and
  raises \<open>TypeError\<close> from \<open>hmac.compare_digest\<close>, which is not one of the authority's rejections.
\<close>

theorem nonascii_context_raises:
  assumes "Context_init c = Inr c"
    and "\<not> list_all (\<lambda>x. x < 128) (cx_session_id c @ cx_user_id c @ cx_authorization_scope c @ cx_origin c)"
    and "\<not> au_shutdown_started au" "ticket_digest ticket = Inr d" "map_of (au_pending au) d = Some p"
    and "pt_context p = Some c" "now < pt_expires_at p"
  shows "tk_consume ticket (pt_claims p) (Some c) now au = (Inl TicketTypeError, burn_ticket d au)"
proof -
  have "take_pending ticket au = (Inr p, burn_ticket d au)" using assms(4,5) by (simp add: take_pending_ok)
  then show ?thesis using same_context_nonascii [OF assms(2)] assms(3,6,7)
    by (simp add: tk_consume_def same_tuple_eq del: same_context.simps)
qed

theorem nonascii_context_raises_witness:
  "\<exists>c au. Context_init c = Inr c \<and> cx_user_id c = [233]
     \<and> tk_consume sample_ticket sample_claims (Some c) 1 au = (Inl TicketTypeError, burn_ticket sample_digest au)"
proof -
  let ?c = "sample_context\<lparr>cx_user_id := [233]\<rparr>" and ?p = "sample_pending\<lparr>pt_context := Some (sample_context\<lparr>cx_user_id := [233]\<rparr>)\<rparr>"
  let ?au = "sample_authority\<lparr>au_pending := [(sample_digest, ?p)]\<rparr>"
  have c: "Context_init ?c = Inr ?c"
    by (simp add: Context_init_def context_text_ok_def decimal_u64_def sample_context_def lit_def is_digit_def dec_val_def
        validators_ok MAX_U64_eval)
  have "tk_consume sample_ticket (pt_claims ?p) (Some ?c) 1 ?au = (Inl TicketTypeError, burn_ticket sample_digest ?au)"
    by (rule nonascii_context_raises [OF c _ _ sample_ticket_digest])
      (simp_all add: sample_authority_def sample_pending_def)
  then show ?thesis using c by (intro exI [of _ ?c] exI [of _ ?au]) (simp add: sample_pending_def)
qed

end
