(* ===== verification/Sanitizer.thy ===== *)
theory Sanitizer
  imports Py_Utf8
begin

text \<open>
  The terminal output sanitizer (\<open>agentbox_protocol/waw_terminal_sanitizer.py\<close>). The loop index is
  the suffix of the input that is left; a skipped sequence is the number of bytes it takes. The
  closures share one record of their variables. \<open>unicodedata.category\<close> is used only to find the
  control and format characters: the latter are the table of Unicode 15, where Python 3.11 has a
  shorter range at U+13430.
\<close>

section \<open>Data\<close>

definition SANITIZER_MAX_INPUT_BYTES :: nat where
  "SANITIZER_MAX_INPUT_BYTES = 64 * 1024"

definition MAX_OUTPUT_TEXT_BYTES :: nat where
  "MAX_OUTPUT_TEXT_BYTES = 24 * 1024"

definition MAX_EVENT_COUNT :: nat where
  "MAX_EVENT_COUNT = 4096"

definition MAX_ESCAPE_BYTES :: nat where
  "MAX_ESCAPE_BYTES = 4096"

datatype SanitizerEventKind = SE_TEXT | SE_NEWLINE | SE_CARRIAGE_RETURN | SE_DROPPED_CONTROL
  | SE_TRUNCATED | SE_REJECTED

record SanitizerEvent =
  se_kind :: SanitizerEventKind
  se_text :: pystr

record SanitizedText =
  sz_text :: pystr
  sz_events :: "SanitizerEvent list"

definition terminal_result :: "SanitizerEventKind \<Rightarrow> SanitizedText" where
  "terminal_result k = \<lparr>sz_text = [], sz_events = [\<lparr>se_kind = k, se_text = []\<rparr>]\<rparr>"

record San =
  sn_output :: "pystr list"
  sn_events :: "SanitizerEvent list"
  sn_output_bytes :: nat
  sn_pending_text :: pystr
  sn_pending_bytes :: nat

definition append_event :: "SanitizerEventKind \<Rightarrow> pystr \<Rightarrow> San \<Rightarrow> bool \<times> San" where
  "append_event k t s =
     (if length (sn_events s) \<ge> MAX_EVENT_COUNT then (False, s)
      else (True, s\<lparr>sn_events := sn_events s @ [\<lparr>se_kind = k, se_text = t\<rparr>]\<rparr>))"

section \<open>Control sequences\<close>

text \<open>Bytes up to and including the final byte of a control sequence.\<close>

fun find_final :: "bytes \<Rightarrow> nat option" where
  "find_final [] = None"
| "find_final (b # r) = (if 0x40 \<le> unat b \<and> unat b \<le> 0x7E then Some 1 else map_option Suc (find_final r))"

text \<open>Bytes up to and including the string terminator: \<open>ESC \\<close>, \<open>BEL\<close> when \<open>bel\<close>, and the
  single byte \<open>ST\<close> when \<open>c1\<close>.\<close>

fun find_terminator :: "bool \<Rightarrow> bool \<Rightarrow> bytes \<Rightarrow> nat option" where
  "find_terminator bel c1 [] = None"
| "find_terminator bel c1 (b # r) =
     (if unat b = 0x07 \<and> bel then Some 1
      else if unat b = 0x9C \<and> c1 then Some 1
      else if unat b = 0x1B \<and> (case r of [] \<Rightarrow> False | c # _ \<Rightarrow> unat c = 0x5C) then Some 2
      else map_option Suc (find_terminator bel c1 r))"

definition skip_escape :: "bytes \<Rightarrow> nat option" where
  "skip_escape raw =
     (case raw of
        b # i # _ \<Rightarrow>
          let window = take MAX_ESCAPE_BYTES raw; introducer = unat i in
          if introducer = 0x5B then map_option ((+) 2) (find_final (drop 2 window))
          else if introducer \<in> {0x5D, 0x50, 0x5E, 0x5F, 0x58}
          then map_option ((+) 2) (find_terminator (introducer = 0x5D) False (drop 2 window))
          else Some 2
      | _ \<Rightarrow> None)"

definition skip_c1_sequence :: "bytes \<Rightarrow> nat option" where
  "skip_c1_sequence raw =
     (let window = take MAX_ESCAPE_BYTES raw; introducer = unat (hd raw) in
      if introducer = 0x9B then map_option Suc (find_final (drop 1 window))
      else if introducer = 0x9C then Some 1
      else if introducer \<in> {0x9D, 0x90, 0x98, 0x9E, 0x9F}
      then map_option Suc (find_terminator (introducer = 0x9D) True (drop 1 window))
      else Some 1)"

text \<open>One strict UTF-8 scalar; a byte from 0x80 to 0x9F is the empty string.\<close>

definition decode_scalar :: "bytes \<Rightarrow> (nat option \<times> bytes) option" where
  "decode_scalar raw =
     (case raw of [] \<Rightarrow> None
      | b # r \<Rightarrow> if 0x80 \<le> unat b \<and> unat b \<le> 0x9F then Some (None, r)
          else map_option (\<lambda>(c, rest). (Some c, rest)) (utf8_next raw))"

definition is_Cc :: "nat \<Rightarrow> bool" where
  "is_Cc c \<longleftrightarrow> c \<le> 0x1F \<or> 0x7F \<le> c \<and> c \<le> 0x9F"

definition CF_RANGES :: "(nat \<times> nat) list" where
  "CF_RANGES = [(0xAD, 0xAD), (0x600, 0x605), (0x61C, 0x61C), (0x6DD, 0x6DD), (0x70F, 0x70F), (0x890, 0x891),
     (0x8E2, 0x8E2), (0x180E, 0x180E), (0x200B, 0x200F), (0x202A, 0x202E), (0x2060, 0x2064), (0x2066, 0x206F),
     (0xFEFF, 0xFEFF), (0xFFF9, 0xFFFB), (0x110BD, 0x110BD), (0x110CD, 0x110CD), (0x13430, 0x1343F),
     (0x1BCA0, 0x1BCA3), (0x1D173, 0x1D17A), (0xE0001, 0xE0001), (0xE0020, 0xE007F)]"

definition is_Cf :: "nat \<Rightarrow> bool" where
  "is_Cf c \<longleftrightarrow> list_ex (\<lambda>(a, b). a \<le> c \<and> c \<le> b) CF_RANGES"

section \<open>The closures\<close>

definition flush_text :: "San \<Rightarrow> bool \<times> San" where
  "flush_text s =
     (if sn_pending_text s = [] then (True, s)
      else case append_event SE_TEXT (sn_pending_text s) s of
        (False, s') \<Rightarrow> (False, s')
      | (True, s') \<Rightarrow> (True, s'\<lparr>sn_output := sn_output s' @ [sn_pending_text s'], sn_pending_text := [],
                              sn_pending_bytes := 0\<rparr>))"

definition add_text :: "nat \<Rightarrow> San \<Rightarrow> bool \<times> San" where
  "add_text c s =
     (let n = length (utf8_char c) in
      if sn_output_bytes s + n > MAX_OUTPUT_TEXT_BYTES
      then (False, snd (append_event SE_TRUNCATED [] (snd (flush_text s))))
      else (True, s\<lparr>sn_pending_text := sn_pending_text s @ [c], sn_pending_bytes := sn_pending_bytes s + n,
                    sn_output_bytes := sn_output_bytes s + n\<rparr>))"

definition drop_control :: "San \<Rightarrow> bool \<times> San" where
  "drop_control s =
     (case flush_text s of
        (False, s1) \<Rightarrow> (False, s1)
      | (True, s1) \<Rightarrow>
          (case append_event SE_DROPPED_CONTROL [] s1 of
             (False, s2) \<Rightarrow> (False, snd (append_event SE_TRUNCATED [] s2))
           | (True, s2) \<Rightarrow> (True, s2)))"

definition add_separator :: "nat \<Rightarrow> SanitizerEventKind \<Rightarrow> San \<Rightarrow> bool \<times> San" where
  "add_separator c k s =
     (case flush_text s of (ok, s1) \<Rightarrow>
        if \<not> ok \<or> sn_output_bytes s1 + 1 > MAX_OUTPUT_TEXT_BYTES
        then (False, snd (append_event SE_TRUNCATED [] s1))
        else (case append_event k [] s1 of
                (False, s2) \<Rightarrow> (False, snd (append_event SE_TRUNCATED [] s2))
              | (True, s2) \<Rightarrow> (True, s2\<lparr>sn_output := sn_output s2 @ [[c]], sn_output_bytes := sn_output_bytes s2 + 1\<rparr>)))"

section \<open>The loop\<close>

text \<open>One round: go on with the rest of the input, leave the loop, or return at once.\<close>

datatype san_round = Continue bytes San | Break San | Return SanitizerEventKind

definition continue_if :: "bytes \<Rightarrow> bool \<times> San \<Rightarrow> san_round" where
  "continue_if rest r = (if fst r then Continue rest (snd r) else Break (snd r))"

text \<open>A control sequence: flush, skip, and report one dropped control.\<close>

definition skip_round :: "nat option \<Rightarrow> bytes \<Rightarrow> San \<Rightarrow> san_round" where
  "skip_round len raw s =
     (case flush_text s of
        (False, s1) \<Rightarrow> Break s1
      | (True, s1) \<Rightarrow>
          (case len of
             None \<Rightarrow> Return SE_REJECTED
           | Some n \<Rightarrow>
               (case append_event SE_DROPPED_CONTROL [] s1 of
                  (False, _) \<Rightarrow> Return SE_TRUNCATED
                | (True, s2) \<Rightarrow> Continue (drop n raw) s2)))"

definition sanitize_round :: "bytes \<Rightarrow> San \<Rightarrow> san_round" where
  "sanitize_round raw s =
     (let byte = unat (hd raw) in
      if byte = 0x1B then skip_round (skip_escape raw) raw s
      else if byte = 0x0A then continue_if (tl raw) (add_separator 10 SE_NEWLINE s)
      else if byte = 0x0D then continue_if (tl raw) (add_separator 13 SE_CARRIAGE_RETURN s)
      else if byte = 0x09 then continue_if (tl raw) (add_text 9 s)
      else if byte \<in> {0x90, 0x98, 0x9B, 0x9D, 0x9E, 0x9F} then skip_round (skip_c1_sequence raw) raw s
      else if byte = 0x9C then continue_if (tl raw) (drop_control s)
      else if byte < 0x20 \<or> 0x7F \<le> byte \<and> byte \<le> 0x9F then continue_if (tl raw) (drop_control s)
      else case decode_scalar raw of
        None \<Rightarrow> Return SE_REJECTED
      | Some (None, rest) \<Rightarrow> continue_if rest (drop_control s)
      | Some (Some c, rest) \<Rightarrow>
          if is_Cc c \<or> is_Cf c then continue_if rest (drop_control s) else continue_if rest (add_text c s))"

lemma find_final_bounds: "find_final bs = Some n \<Longrightarrow> 0 < n \<and> n \<le> length bs"
  by (induction bs arbitrary: n) (auto split: if_splits)

lemma find_terminator_bounds: "find_terminator bel c1 bs = Some n \<Longrightarrow> 0 < n \<and> n \<le> length bs"
  by (induction bs arbitrary: n) (auto split: if_splits list.splits)

lemma skip_escape_pos: "skip_escape raw = Some n \<Longrightarrow> 0 < n"
  by (auto simp: skip_escape_def Let_def split: list.splits if_splits)

lemma skip_c1_pos: "skip_c1_sequence raw = Some n \<Longrightarrow> 0 < n"
  by (auto simp: skip_c1_sequence_def Let_def split: if_splits)

lemma decode_scalar_shorter: "decode_scalar raw = Some (c, rest) \<Longrightarrow> length rest < length raw"
  by (auto simp: decode_scalar_def dest: utf8_next_shorter split: list.splits if_splits)

lemma skip_round_shorter:
  "skip_round len raw s = Continue rest s' \<Longrightarrow> (\<And>n. len = Some n \<Longrightarrow> 0 < n) \<Longrightarrow> raw \<noteq> [] \<Longrightarrow> length rest < length raw"
  by (auto simp: skip_round_def split: prod.splits bool.splits option.splits)

lemma sanitize_round_shorter:
  assumes "sanitize_round raw s = Continue rest s'" "raw \<noteq> []"
  shows "length rest < length raw"
proof -
  have c: "continue_if r x = Continue rest s' \<Longrightarrow> rest = r" for r x by (auto simp: continue_if_def split: if_splits)
  show ?thesis using assms skip_round_shorter [OF _ skip_escape_pos] skip_round_shorter [OF _ skip_c1_pos]
    by (auto simp: sanitize_round_def Let_def split: if_splits option.splits prod.splits
        dest!: c decode_scalar_shorter)
qed

function sanitize_loop :: "bytes \<Rightarrow> San \<Rightarrow> SanitizerEventKind + San" where
  "sanitize_loop raw s =
     (if raw = [] then Inr s
      else case sanitize_round raw s of
        Continue rest s' \<Rightarrow> sanitize_loop rest s'
      | Break s' \<Rightarrow> Inr s'
      | Return k \<Rightarrow> Inl k)"
  by pat_completeness auto
termination
  by (relation "measure (\<lambda>(raw, s). length raw)") (auto dest: sanitize_round_shorter)

declare sanitize_loop.simps [simp del]

definition San_init :: San where
  "San_init = \<lparr>sn_output = [], sn_events = [], sn_output_bytes = 0, sn_pending_text = [], sn_pending_bytes = 0\<rparr>"

text \<open>\<open>None\<close> stands for an argument that is not of type \<open>bytes\<close>.\<close>

definition sanitize_terminal_output :: "bytes option \<Rightarrow> SanitizedText" where
  "sanitize_terminal_output arg =
     (case arg of
        None \<Rightarrow> terminal_result SE_REJECTED
      | Some raw \<Rightarrow>
          if length raw > SANITIZER_MAX_INPUT_BYTES then terminal_result SE_TRUNCATED
          else case sanitize_loop raw San_init of
            Inl k \<Rightarrow> terminal_result k
          | Inr s \<Rightarrow> let s' = snd (flush_text s) in \<lparr>sz_text = concat (sn_output s'), sz_events = sn_events s'\<rparr>)"

section \<open>What the result can hold\<close>

definition displayable :: "nat \<Rightarrow> bool" where
  "displayable c \<longleftrightarrow> is_scalar c \<and> (c \<in> {9, 10, 13} \<or> \<not> is_Cc c \<and> \<not> is_Cf c)"

text \<open>The part of the text an event stands for.\<close>

definition event_display :: "SanitizerEvent \<Rightarrow> pystr" where
  "event_display e = (case se_kind e of SE_TEXT \<Rightarrow> se_text e | SE_NEWLINE \<Rightarrow> [10] | SE_CARRIAGE_RETURN \<Rightarrow> [13] | _ \<Rightarrow> [])"

abbreviation utf8_size :: "pystr \<Rightarrow> nat" where
  "utf8_size t \<equiv> length (concat (map utf8_char t))"

definition san_ok :: "San \<Rightarrow> bool" where
  "san_ok s \<longleftrightarrow> concat (sn_output s) = concat (map event_display (sn_events s))
     \<and> list_all displayable (concat (sn_output s) @ sn_pending_text s)
     \<and> sn_output_bytes s = utf8_size (concat (sn_output s) @ sn_pending_text s)
     \<and> sn_output_bytes s \<le> MAX_OUTPUT_TEXT_BYTES \<and> length (sn_events s) \<le> MAX_EVENT_COUNT"

named_theorems san_intros

lemma append_event_ok [san_intros]:
  "san_ok s \<Longrightarrow> k \<in> {SE_DROPPED_CONTROL, SE_TRUNCATED} \<Longrightarrow> san_ok (snd (append_event k t s))"
  by (auto simp: san_ok_def append_event_def event_display_def)

lemma flush_text_ok [san_intros]: "san_ok s \<Longrightarrow> san_ok (snd (flush_text s))"
  by (auto simp: san_ok_def flush_text_def append_event_def event_display_def)

lemma flush_text_empty: "flush_text s = (True, s') \<Longrightarrow> sn_pending_text s' = []"
  by (auto simp: flush_text_def append_event_def split: if_splits)

lemma add_text_ok [san_intros]: "san_ok s \<Longrightarrow> displayable c \<Longrightarrow> san_ok (snd (add_text c s))"
proof (cases "sn_output_bytes s + length (utf8_char c) > MAX_OUTPUT_TEXT_BYTES")
  case True
  assume "san_ok s"
  then show ?thesis using append_event_ok [OF flush_text_ok] True by (simp add: add_text_def Let_def)
next
  case False
  assume "san_ok s" "displayable c"
  then show ?thesis using False by (auto simp: add_text_def Let_def san_ok_def)
qed

lemma drop_control_ok [san_intros]: "san_ok s \<Longrightarrow> san_ok (snd (drop_control s))"
  using flush_text_ok [of s] append_event_ok [of _ SE_DROPPED_CONTROL "[]"] append_event_ok [of _ SE_TRUNCATED "[]"]
  by (auto simp: drop_control_def case_prod_unfold split: bool.splits)

lemma add_separator_ok [san_intros]:
  assumes ok: "san_ok s" and c: "(c, k) \<in> {(10, SE_NEWLINE), (13, SE_CARRIAGE_RETURN)}"
  shows "san_ok (snd (add_separator c k s))"
proof -
  obtain b s1 where f: "flush_text s = (b, s1)" by (cases "flush_text s")
  have s1: "san_ok s1" using flush_text_ok [OF ok] f by simp
  have t: "san_ok (snd (append_event SE_TRUNCATED [] s1))" by (rule append_event_ok [OF s1]) simp
  have d: "displayable c" "utf8_size [c] = 1" using c by (auto simp: displayable_def is_scalar_def is_surrogate_def utf8_char_def)
  have "san_ok (s2\<lparr>sn_output := sn_output s2 @ [[c]], sn_output_bytes := sn_output_bytes s2 + 1\<rparr>)"
    if a: "append_event k [] s1 = (True, s2)" and "b" "sn_output_bytes s1 + 1 \<le> MAX_OUTPUT_TEXT_BYTES" for s2
    using a s1 d c flush_text_empty [of s s1] f that
    by (auto simp: append_event_def san_ok_def event_display_def split: if_splits)
  moreover have "s2 = s1" if "append_event k [] s1 = (False, s2)" for s2
    using that by (auto simp: append_event_def split: if_splits)
  ultimately show ?thesis using t by (auto simp: add_separator_def f split: prod.splits bool.splits)
qed

lemma continue_if_ok:
  "san_ok (snd r) \<Longrightarrow> (case continue_if rest r of Continue _ s' \<Rightarrow> san_ok s' | Break s' \<Rightarrow> san_ok s' | Return _ \<Rightarrow> True)"
  by (simp add: continue_if_def)

lemma skip_round_ok:
  "san_ok s \<Longrightarrow> (case skip_round len raw s of Continue _ s' \<Rightarrow> san_ok s' | Break s' \<Rightarrow> san_ok s' | Return _ \<Rightarrow> True)"
  using flush_text_ok [of s] append_event_ok [of _ SE_DROPPED_CONTROL "[]"]
  by (force simp: skip_round_def split: prod.splits bool.splits option.splits san_round.splits)

lemma decode_scalar_scalar: "decode_scalar raw = Some (Some c, rest) \<Longrightarrow> is_scalar c"
  by (auto simp: decode_scalar_def dest: utf8_next_inv split: list.splits if_splits)

lemma sanitize_round_ok:
  assumes "san_ok s"
  shows "case sanitize_round raw s of Continue _ s' \<Rightarrow> san_ok s' | Break s' \<Rightarrow> san_ok s' | Return k \<Rightarrow> True"
proof -
  have tab: "displayable 9" by (simp add: displayable_def is_scalar_def is_surrogate_def)
  have "displayable c" if "decode_scalar raw = Some (Some c, rest)" "\<not> is_Cc c" "\<not> is_Cf c" for c rest
    using that decode_scalar_scalar by (simp add: displayable_def)
  then show ?thesis using assms tab
    by (auto simp: sanitize_round_def Let_def intro!: continue_if_ok skip_round_ok san_intros
        split: option.split prod.split)
qed

lemma sanitize_loop_ok: "san_ok s \<Longrightarrow> sanitize_loop raw s = Inr s' \<Longrightarrow> san_ok s'"
proof (induction raw s rule: sanitize_loop.induct)
  case (1 raw s)
  then show ?case using sanitize_round_ok [OF 1(2), of raw]
    by (subst (asm) (2) sanitize_loop.simps) (auto split: if_splits san_round.splits)
qed

lemma sanitize_loop_Return: "sanitize_loop raw s = Inl k \<Longrightarrow> k \<in> {SE_REJECTED, SE_TRUNCATED}"
proof (induction raw s rule: sanitize_loop.induct)
  case (1 raw s)
  have "k \<in> {SE_REJECTED, SE_TRUNCATED}" if "sanitize_round raw s = Return k"
    using that by (auto simp: sanitize_round_def Let_def continue_if_def skip_round_def
        split: if_splits option.splits prod.splits bool.splits)
  then show ?case using 1 by (subst (asm) (2) sanitize_loop.simps) (auto split: if_splits san_round.splits)
qed

lemma San_init_ok: "san_ok San_init"
  by (simp add: san_ok_def San_init_def)

text \<open>
  C13. The sanitizer lets no control through. For every argument, each character of the result's
  text is a Unicode scalar that is a tab, a newline, a carriage return or neither a control nor a
  format character; the text is exactly what the events display, in order; it takes at most 24 KiB
  in UTF-8, with at most 4096 events.
\<close>

theorem sanitized_text_clean:
  "list_all displayable (sz_text (sanitize_terminal_output arg))
     \<and> sz_text (sanitize_terminal_output arg) = concat (map event_display (sz_events (sanitize_terminal_output arg)))
     \<and> length (concat (map utf8_char (sz_text (sanitize_terminal_output arg)))) \<le> MAX_OUTPUT_TEXT_BYTES
     \<and> length (sz_events (sanitize_terminal_output arg)) \<le> MAX_EVENT_COUNT"
proof (cases arg)
  case None
  then show ?thesis by (simp add: sanitize_terminal_output_def terminal_result_def event_display_def MAX_EVENT_COUNT_def)
next
  case (Some raw)
  show ?thesis
  proof (cases "length raw > SANITIZER_MAX_INPUT_BYTES")
    case True
    then show ?thesis using Some
      by (simp add: sanitize_terminal_output_def terminal_result_def event_display_def MAX_EVENT_COUNT_def)
  next
    case False
    show ?thesis
    proof (cases "sanitize_loop raw San_init")
      case (Inl k)
      then show ?thesis using Some False sanitize_loop_Return [OF Inl]
        by (auto simp: sanitize_terminal_output_def terminal_result_def event_display_def MAX_EVENT_COUNT_def)
    next
      case (Inr s)
      have "san_ok (snd (flush_text s))" by (rule flush_text_ok [OF sanitize_loop_ok [OF San_init_ok Inr]])
      then show ?thesis using Some False Inr
        by (auto simp: sanitize_terminal_output_def Let_def san_ok_def)
    qed
  qed
qed

section \<open>Plain text\<close>

definition separator :: "nat \<Rightarrow> bool" where
  "separator c \<longleftrightarrow> c \<in> {10, 13}"

definition plain_event :: "SanitizerEvent \<Rightarrow> bool" where
  "plain_event e \<longleftrightarrow> se_kind e \<in> {SE_TEXT, SE_NEWLINE, SE_CARRIAGE_RETURN}"

lemma utf8_lead:
  assumes "is_scalar c" "c \<ge> 0x80"
  shows "\<exists>b r. utf8_char c = b # r \<and> 0xC2 \<le> unat b"
proof -
  have "unat (of_nat (0xC0 + c div 64) :: byte) = 0xC0 + c div 64" if "c < 0x800"
    using that by (intro unat_of_nat_byte) linarith
  moreover have "unat (of_nat (0xE0 + c div 4096) :: byte) = 0xE0 + c div 4096" if "c < 0x10000"
    using that by (intro unat_of_nat_byte) linarith
  moreover have "unat (of_nat (0xF0 + c div 262144) :: byte) = 0xF0 + c div 262144"
    using assms(1) unfolding is_scalar_def by (intro unat_of_nat_byte) linarith
  moreover have "2 \<le> c div 64" using assms(2) by linarith
  ultimately show ?thesis using assms(2) by (simp add: utf8_char_def)
qed

lemma round_text:
  assumes c: "displayable c" "\<not> separator c"
  shows "sanitize_round (utf8_char c @ rest) s = continue_if rest (add_text c s)"
proof (cases "c < 0x80")
  case True
  then have u: "utf8_char c = [of_nat c]" "unat (of_nat c :: byte) = c" by (simp_all add: utf8_char_def)
  have n: "utf8_next (of_nat c # rest) = Some (c, rest)" using utf8_next_char [of c rest] c(1) u(1) by (simp add: displayable_def)
  show ?thesis
  proof (cases "c = 9")
    case True
    then show ?thesis by (simp add: utf8_char_def sanitize_round_def Let_def)
  next
    case False
    then have r: "\<not> c < 0x20" "\<not> 0x7F \<le> c" "\<not> is_Cc c" "\<not> is_Cf c"
      using c True by (auto simp: displayable_def separator_def is_Cc_def)
    then have "c \<noteq> 0x1B" "c \<noteq> 0x0A" "c \<noteq> 0x0D" "c \<notin> {0x90, 0x98, 0x9B, 0x9D, 0x9E, 0x9F}" "c \<noteq> 0x9C" "\<not> 0x80 \<le> c"
      by auto
    then show ?thesis using u n r False
      by (simp only: sanitize_round_def Let_def decode_scalar_def u append.simps list.sel list.case if_False
          option.map option.case prod.case simp_thms)
  qed
next
  case False
  then obtain b r where b: "utf8_char c = b # r" "0xC2 \<le> unat b"
    using utf8_lead [of c] c(1) unfolding displayable_def by (meson not_less)
  have n: "utf8_next (b # r @ rest) = Some (c, rest)" using utf8_next_char [of c rest] c(1) b(1) by (simp add: displayable_def)
  then show ?thesis using c b False
    by (simp add: sanitize_round_def Let_def decode_scalar_def displayable_def)
qed

lemma round_separator:
  assumes "separator c"
  shows "sanitize_round (utf8_char c @ rest) s =
     continue_if rest (add_separator c (if c = 10 then SE_NEWLINE else SE_CARRIAGE_RETURN) s)"
proof (cases "c = 10")
  case True
  then show ?thesis by (simp add: utf8_char_def sanitize_round_def Let_def)
next
  case False
  then have "c = 13" using assms by (simp add: separator_def)
  then show ?thesis by (simp add: utf8_char_def sanitize_round_def Let_def)
qed

lemma flush_text_room:
  "length (sn_events s) < MAX_EVENT_COUNT \<Longrightarrow> list_all plain_event (sn_events s) \<Longrightarrow>
     \<exists>s'. flush_text s = (True, s') \<and> concat (sn_output s') = concat (sn_output s) @ sn_pending_text s
        \<and> sn_pending_text s' = [] \<and> sn_output_bytes s' = sn_output_bytes s
        \<and> length (sn_events s') \<le> Suc (length (sn_events s)) \<and> list_all plain_event (sn_events s')"
  by (auto simp: flush_text_def append_event_def plain_event_def)

lemma add_separator_room:
  assumes "length (sn_events s) + 1 < MAX_EVENT_COUNT" "list_all plain_event (sn_events s)"
    "sn_output_bytes s + 1 \<le> MAX_OUTPUT_TEXT_BYTES" "k \<in> {SE_NEWLINE, SE_CARRIAGE_RETURN}"
  shows "\<exists>s'. add_separator c k s = (True, s')
     \<and> concat (sn_output s') @ sn_pending_text s' = concat (sn_output s) @ sn_pending_text s @ [c]
     \<and> sn_output_bytes s' = sn_output_bytes s + 1
     \<and> length (sn_events s') \<le> length (sn_events s) + 2 \<and> list_all plain_event (sn_events s')"
proof -
  obtain s1 where f: "flush_text s = (True, s1)" "concat (sn_output s1) = concat (sn_output s) @ sn_pending_text s"
      "sn_pending_text s1 = []" "sn_output_bytes s1 = sn_output_bytes s"
      "length (sn_events s1) \<le> Suc (length (sn_events s))" "list_all plain_event (sn_events s1)"
    using flush_text_room assms(1,2) by (metis add_lessD1)
  then show ?thesis using assms(1,3,4)
    by (auto simp: add_separator_def append_event_def plain_event_def)
qed

lemma loop_plain:
  assumes "list_all displayable t" "sn_output_bytes s + utf8_size t \<le> MAX_OUTPUT_TEXT_BYTES"
    "length (sn_events s) + 2 * length (filter separator t) < MAX_EVENT_COUNT" "list_all plain_event (sn_events s)"
  shows "\<exists>s'. sanitize_loop (concat (map utf8_char t)) s = Inr s'
     \<and> concat (sn_output s') @ sn_pending_text s' = concat (sn_output s) @ sn_pending_text s @ t
     \<and> length (sn_events s') < MAX_EVENT_COUNT \<and> list_all plain_event (sn_events s')"
  using assms
proof (induction t arbitrary: s)
  case Nil
  then show ?case by (simp add: sanitize_loop.simps)
next
  case (Cons c t)
  let ?k = "if c = 10 then SE_NEWLINE else SE_CARRIAGE_RETURN"
  have ne: "utf8_char c @ concat (map utf8_char t) \<noteq> []" by simp
  show ?case
  proof (cases "separator c")
    case True
    then have sz: "length (utf8_char c) = 1" by (auto simp: separator_def utf8_char_def)
    obtain s1 where s1: "add_separator c ?k s = (True, s1)"
        "concat (sn_output s1) @ sn_pending_text s1 = concat (sn_output s) @ sn_pending_text s @ [c]"
        "sn_output_bytes s1 = sn_output_bytes s + 1" "length (sn_events s1) \<le> length (sn_events s) + 2"
        "list_all plain_event (sn_events s1)"
      using add_separator_room [of s ?k c] Cons.prems True sz by (cases "c = 10") auto
    have "sanitize_loop (concat (map utf8_char (c # t))) s = sanitize_loop (concat (map utf8_char t)) s1"
      using round_separator [OF True] s1(1) ne by (simp add: sanitize_loop.simps continue_if_def)
    then show ?thesis using Cons.IH [of s1] Cons.prems s1 True sz by auto
  next
    case False
    let ?s1 = "snd (add_text c s)"
    have a: "fst (add_text c s)" "concat (sn_output ?s1) @ sn_pending_text ?s1 = concat (sn_output s) @ sn_pending_text s @ [c]"
        "sn_output_bytes ?s1 = sn_output_bytes s + length (utf8_char c)" "sn_events ?s1 = sn_events s"
      using Cons.prems by (simp_all add: add_text_def Let_def)
    have "sanitize_loop (concat (map utf8_char (c # t))) s = sanitize_loop (concat (map utf8_char t)) ?s1"
      using round_text [of c _ s] Cons.prems False a(1) ne by (subst sanitize_loop.simps) (simp add: continue_if_def)
    then show ?thesis using Cons.IH [of ?s1] Cons.prems a False by auto
  qed
qed

text \<open>
  C25. Plain text passes unchanged. A text of displayable characters that takes at most 24 KiB in
  UTF-8 and has at most 2047 newlines and carriage returns is returned exactly, with only text,
  newline and carriage return events: nothing is dropped, truncated or rejected.
\<close>

theorem plain_text_kept:
  assumes "list_all displayable t" "length (concat (map utf8_char t)) \<le> MAX_OUTPUT_TEXT_BYTES"
    "2 * length (filter separator t) < MAX_EVENT_COUNT"
  shows "sz_text (sanitize_terminal_output (Some (concat (map utf8_char t)))) = t
     \<and> list_all plain_event (sz_events (sanitize_terminal_output (Some (concat (map utf8_char t)))))"
proof -
  obtain s where s: "sanitize_loop (concat (map utf8_char t)) San_init = Inr s"
      "concat (sn_output s) @ sn_pending_text s = t" "length (sn_events s) < MAX_EVENT_COUNT" "list_all plain_event (sn_events s)"
    using loop_plain [OF assms(1), of San_init] assms(2,3) by (auto simp: San_init_def)
  obtain s' where "flush_text s = (True, s')" "concat (sn_output s') = t" "list_all plain_event (sn_events s')"
    using flush_text_room [OF s(3,4)] s(2) by auto
  moreover have "\<not> length (concat (map utf8_char t)) > SANITIZER_MAX_INPUT_BYTES"
    using assms(2) by (simp add: SANITIZER_MAX_INPUT_BYTES_def MAX_OUTPUT_TEXT_BYTES_def)
  ultimately show ?thesis using s(1) by (simp add: sanitize_terminal_output_def Let_def del: length_concat)
qed

theorem plain_text_kept_witness:
  "sz_text (sanitize_terminal_output (Some (concat (map utf8_char (lit ''ok'' @ [10, 0x20AC]))))) = lit ''ok'' @ [10, 0x20AC]"
  using plain_text_kept [of "lit ''ok'' @ [10, 0x20AC]"]
  by (simp add: displayable_def is_scalar_def is_surrogate_def is_Cc_def is_Cf_def CF_RANGES_def lit_def separator_def
      MAX_OUTPUT_TEXT_BYTES_def MAX_EVENT_COUNT_def utf8_char_def)

section \<open>The event limit\<close>

lemma loop_newlines:
  "sn_pending_text s = [] \<Longrightarrow> length (sn_events s) \<le> MAX_EVENT_COUNT \<Longrightarrow> sn_output_bytes s = length (sn_events s) \<Longrightarrow>
     length (sn_events s) + n > MAX_EVENT_COUNT \<Longrightarrow>
     \<exists>s'. sanitize_loop (replicate n 10) s = Inr s' \<and> sn_pending_text s' = []
       \<and> concat (sn_output s') = concat (sn_output s) @ replicate (MAX_EVENT_COUNT - length (sn_events s)) 10
       \<and> sn_events s' = sn_events s @ replicate (MAX_EVENT_COUNT - length (sn_events s)) \<lparr>se_kind = SE_NEWLINE, se_text = []\<rparr>"
proof (induction n arbitrary: s)
  case (Suc n)
  have r: "sanitize_round (replicate (Suc n) 10) s = continue_if (replicate n 10) (add_separator 10 SE_NEWLINE s)"
    by (simp add: sanitize_round_def)
  show ?case
  proof (cases "length (sn_events s) = MAX_EVENT_COUNT")
    case True
    then have "add_separator 10 SE_NEWLINE s = (False, s)"
      using Suc.prems by (simp add: add_separator_def flush_text_def append_event_def)
    then show ?thesis using r True Suc.prems by (simp add: sanitize_loop.simps continue_if_def)
  next
    case False
    let ?s = "s\<lparr>sn_events := sn_events s @ [\<lparr>se_kind = SE_NEWLINE, se_text = []\<rparr>], sn_output := sn_output s @ [[10]],
        sn_output_bytes := sn_output_bytes s + 1\<rparr>"
    have "add_separator 10 SE_NEWLINE s = (True, ?s)"
      using Suc.prems False
      by (simp add: add_separator_def flush_text_def append_event_def MAX_EVENT_COUNT_def MAX_OUTPUT_TEXT_BYTES_def)
    then have e: "sanitize_loop (replicate (Suc n) 10) s = sanitize_loop (replicate n 10) ?s"
      using r by (subst sanitize_loop.simps) (simp add: continue_if_def)
    have "MAX_EVENT_COUNT - length (sn_events s) = Suc (MAX_EVENT_COUNT - Suc (length (sn_events s)))"
      using False Suc.prems(2) by linarith
    then show ?thesis using Suc.IH [of ?s] Suc.prems False e by simp
  qed
qed simp

text \<open>
  C40. At the event limit the rest of a record is lost without a sign. A record of more than 4096
  newlines that fits the input limit gives exactly 4096 newlines and 4096 newline events; no
  truncation event tells that the rest was dropped, because that event no longer fits.
\<close>

theorem event_limit_drops_silently:
  assumes "MAX_EVENT_COUNT < n" "n \<le> SANITIZER_MAX_INPUT_BYTES"
  shows "sanitize_terminal_output (Some (replicate n 10)) =
     \<lparr>sz_text = replicate MAX_EVENT_COUNT 10,
      sz_events = replicate MAX_EVENT_COUNT \<lparr>se_kind = SE_NEWLINE, se_text = []\<rparr>\<rparr>"
proof -
  obtain s where "sanitize_loop (replicate n 10) San_init = Inr s" "sn_pending_text s = []"
      "concat (sn_output s) = replicate MAX_EVENT_COUNT 10"
      "sn_events s = replicate MAX_EVENT_COUNT \<lparr>se_kind = SE_NEWLINE, se_text = []\<rparr>"
    using loop_newlines [of San_init n] assms(1) by (auto simp: San_init_def)
  then show ?thesis using assms(2) by (simp add: sanitize_terminal_output_def flush_text_def)
qed

theorem event_limit_drops_silently_witness:
  "sz_text (sanitize_terminal_output (Some (replicate 5000 10))) = replicate 4096 10"
  using event_limit_drops_silently [of 5000] by (simp add: MAX_EVENT_COUNT_def SANITIZER_MAX_INPUT_BYTES_def)

end
