(* ===== verification/WebSocket.thy ===== *)
theory WebSocket
  imports Py_Utf8
begin

text \<open>
  The WebSocket framing policy (\<open>agentbox_protocol/waw_websocket_contract.py\<close>) and the metadata
  parser of one frame (\<open>agentbox_protocol/waw_websocket_parser.py\<close>). Tests of the Python type of an
  argument are the types of the model. An error is its stable code.
\<close>

section \<open>Contract data\<close>

datatype ws_error = WAWWebSocketContractError string | WAWWebSocketParseError string | Ws_ValueError string

datatype WAWWebSocketOpcode = WS_CONTINUATION | WS_TEXT | WS_BINARY | WS_CLOSE | WS_PING | WS_PONG

datatype WAWWebSocketDirection = CLIENT_TO_RUNTIME | RUNTIME_TO_CLIENT

datatype WAWWebSocketState = WS_OPEN | WS_FRAGMENTED_BINARY | WS_CLOSE_SENT | WS_PEER_CLOSE_SEEN
  | WS_CLOSED | WS_REJECTED

definition allowed_close_code :: "int \<Rightarrow> bool" where
  "allowed_close_code c \<longleftrightarrow> 1000 \<le> c \<and> c < 1004 \<or> 1007 \<le> c \<and> c < 1015"

record WAWWebSocketPolicy =
  wp_max_frame_payload :: int
  wp_max_message_payload :: int
  wp_max_fragments :: int
  wp_max_close_reason_bytes :: int
  wp_max_close_frames :: int

definition default_policy :: WAWWebSocketPolicy where
  "default_policy = \<lparr>wp_max_frame_payload = 65536, wp_max_message_payload = 65536, wp_max_fragments = 64,
     wp_max_close_reason_bytes = 123, wp_max_close_frames = 2\<rparr>"

definition policy_in_range :: "WAWWebSocketPolicy \<Rightarrow> bool" where
  "policy_in_range p \<longleftrightarrow>
     1 \<le> wp_max_frame_payload p \<and> wp_max_frame_payload p \<le> 65536
     \<and> 1 \<le> wp_max_message_payload p \<and> wp_max_message_payload p \<le> 65536
     \<and> 1 \<le> wp_max_fragments p \<and> wp_max_fragments p \<le> 256
     \<and> 0 \<le> wp_max_close_reason_bytes p \<and> wp_max_close_reason_bytes p \<le> 123
     \<and> 1 \<le> wp_max_close_frames p \<and> wp_max_close_frames p \<le> 2"

definition WAWWebSocketPolicy_init :: "WAWWebSocketPolicy \<Rightarrow> ws_error + WAWWebSocketPolicy" where
  "WAWWebSocketPolicy_init p =
     (if \<not> (1 \<le> wp_max_frame_payload p \<and> wp_max_frame_payload p \<le> 65536)
      then Inl (Ws_ValueError ''max_frame_payload must be in 1..65536'')
      else if \<not> (1 \<le> wp_max_message_payload p \<and> wp_max_message_payload p \<le> 65536)
      then Inl (Ws_ValueError ''max_message_payload must be in 1..65536'')
      else if \<not> (1 \<le> wp_max_fragments p \<and> wp_max_fragments p \<le> 256)
      then Inl (Ws_ValueError ''max_fragments must be in 1..256'')
      else if \<not> (0 \<le> wp_max_close_reason_bytes p \<and> wp_max_close_reason_bytes p \<le> 123)
      then Inl (Ws_ValueError ''max_close_reason_bytes must be in 0..123'')
      else if \<not> (1 \<le> wp_max_close_frames p \<and> wp_max_close_frames p \<le> 2)
      then Inl (Ws_ValueError ''max_close_frames must be in 1..2'')
      else Inr p)"

record WAWWebSocketFrame =
  wf_direction :: WAWWebSocketDirection
  wf_opcode :: WAWWebSocketOpcode
  wf_fin :: bool
  wf_masked :: bool
  wf_rsv1 :: bool
  wf_rsv2 :: bool
  wf_rsv3 :: bool
  wf_payload_length :: int
  wf_close_code :: "int option"
  wf_close_reason_bytes :: int
  wf_close_reason_utf8_valid :: bool

record WAWWebSocketSession =
  ws_state :: WAWWebSocketState
  ws_message_payload_bytes :: int
  ws_fragment_count :: int
  ws_close_frames :: int

definition new_session :: WAWWebSocketSession where
  "new_session = \<lparr>ws_state = WS_OPEN, ws_message_payload_bytes = 0, ws_fragment_count = 0, ws_close_frames = 0\<rparr>"

definition policy_or_default :: "WAWWebSocketPolicy option \<Rightarrow> WAWWebSocketPolicy" where
  "policy_or_default policy = (case policy of None \<Rightarrow> default_policy | Some p \<Rightarrow> p)"

abbreviation ws_reject :: "string \<Rightarrow> ws_error + 'a" where
  "ws_reject c \<equiv> Inl (WAWWebSocketContractError c)"

section \<open>Validation\<close>

definition validate_policy :: "WAWWebSocketPolicy \<Rightarrow> ws_error + unit" where
  "validate_policy p = (if \<not> policy_in_range p then ws_reject ''PROTOCOL_INVALID'' else Inr ())"

definition validate_close :: "WAWWebSocketFrame \<Rightarrow> WAWWebSocketPolicy \<Rightarrow> ws_error + unit" where
  "validate_close f p =
     (if wf_payload_length f = 1 then ws_reject ''CLOSE_PAYLOAD_INVALID''
      else if wf_payload_length f = 0
      then (if wf_close_code f \<noteq> None \<or> wf_close_reason_bytes f \<noteq> 0 then ws_reject ''CLOSE_PAYLOAD_INVALID'' else Inr ())
      else if (case wf_close_code f of None \<Rightarrow> True | Some c \<Rightarrow> \<not> allowed_close_code c \<and> \<not> (3000 \<le> c \<and> c \<le> 4999))
      then ws_reject ''CLOSE_CODE_INVALID''
      else if \<not> (0 \<le> wf_close_reason_bytes f \<and> wf_close_reason_bytes f \<le> wp_max_close_reason_bytes p)
      then ws_reject ''CLOSE_REASON_INVALID''
      else if wf_close_reason_bytes f \<noteq> wf_payload_length f - 2 then ws_reject ''CLOSE_REASON_INVALID''
      else if \<not> wf_close_reason_utf8_valid f then ws_reject ''CLOSE_REASON_INVALID''
      else Inr ())"

definition validate_frame :: "WAWWebSocketFrame \<Rightarrow> WAWWebSocketPolicy \<Rightarrow> ws_error + unit" where
  "validate_frame f p =
     (if wf_rsv1 f \<or> wf_rsv2 f \<or> wf_rsv3 f then ws_reject ''EXTENSION_FORBIDDEN''
      else if \<not> (0 \<le> wf_payload_length f \<and> wf_payload_length f \<le> wp_max_frame_payload p)
      then ws_reject ''FRAME_TOO_LARGE''
      else if wf_masked f \<noteq> (wf_direction f = CLIENT_TO_RUNTIME) then ws_reject ''MASKING_INVALID''
      else if wf_opcode f \<in> {WS_CLOSE, WS_PING, WS_PONG} \<and> (\<not> wf_fin f \<or> wf_payload_length f > 125)
      then ws_reject ''CONTROL_FRAME_INVALID''
      else if wf_opcode f = WS_CLOSE then validate_close f p
      else if wf_close_code f \<noteq> None \<or> wf_close_reason_bytes f \<noteq> 0 then ws_reject ''PROTOCOL_INVALID''
      else Inr ())"

definition counters_inconsistent :: "WAWWebSocketSession \<Rightarrow> bool" where
  "counters_inconsistent s =
     (let counters = (ws_message_payload_bytes s \<noteq> 0 \<or> ws_fragment_count s \<noteq> 0) in
      case ws_state s of
        WS_FRAGMENTED_BINARY \<Rightarrow> ws_fragment_count s < 1 \<or> ws_close_frames s \<noteq> 0
      | WS_CLOSE_SENT \<Rightarrow> counters \<or> ws_close_frames s \<noteq> 1
      | WS_PEER_CLOSE_SEEN \<Rightarrow> counters \<or> ws_close_frames s \<noteq> 1
      | WS_CLOSED \<Rightarrow> counters \<or> ws_close_frames s \<noteq> 2
      | _ \<Rightarrow> counters \<or> ws_close_frames s \<noteq> 0)"

definition validate_session_invariants :: "WAWWebSocketSession \<Rightarrow> WAWWebSocketPolicy \<Rightarrow> ws_error + unit" where
  "validate_session_invariants s p =
     (if counters_inconsistent s then ws_reject ''PROTOCOL_INVALID''
      else if ws_close_frames s > wp_max_close_frames p then ws_reject ''PROTOCOL_INVALID''
      else Inr ())"

section \<open>Accepting a frame\<close>

definition accept_data :: "WAWWebSocketSession \<Rightarrow> WAWWebSocketFrame \<Rightarrow> WAWWebSocketPolicy \<Rightarrow> ws_error + WAWWebSocketSession" where
  "accept_data s f p =
     (if ws_state s \<in> {WS_CLOSE_SENT, WS_PEER_CLOSE_SEEN} then ws_reject ''WEBSOCKET_TERMINAL''
      else if wf_opcode f = WS_BINARY \<and> ws_state s \<noteq> WS_OPEN then ws_reject ''FRAGMENTATION_INVALID''
      else if wf_opcode f \<noteq> WS_BINARY \<and> ws_state s \<noteq> WS_FRAGMENTED_BINARY then ws_reject ''FRAGMENTATION_INVALID''
      else let total = ws_message_payload_bytes s + wf_payload_length f
      in if total > wp_max_message_payload p then ws_reject ''MESSAGE_TOO_LARGE''
      else let fragments = (if ws_state s = WS_FRAGMENTED_BINARY \<or> \<not> wf_fin f then ws_fragment_count s + 1 else 0)
      in if fragments > wp_max_fragments p then ws_reject ''FRAGMENTATION_INVALID''
      else if wf_fin f then Inr new_session
      else Inr \<lparr>ws_state = WS_FRAGMENTED_BINARY, ws_message_payload_bytes = total,
                ws_fragment_count = fragments, ws_close_frames = 0\<rparr>)"

definition accept_close :: "WAWWebSocketSession \<Rightarrow> WAWWebSocketFrame \<Rightarrow> WAWWebSocketPolicy \<Rightarrow> ws_error + WAWWebSocketSession" where
  "accept_close s f p =
     (if ws_close_frames s \<ge> wp_max_close_frames p then ws_reject ''CLOSE_REPLAY''
      else if ws_state s \<in> {WS_CLOSE_SENT, WS_PEER_CLOSE_SEEN}
      then (if wf_direction f = CLIENT_TO_RUNTIME \<and> ws_state s = WS_CLOSE_SENT
               \<or> wf_direction f = RUNTIME_TO_CLIENT \<and> ws_state s = WS_PEER_CLOSE_SEEN
            then Inr (new_session\<lparr>ws_state := WS_CLOSED, ws_close_frames := ws_close_frames s + 1\<rparr>)
            else ws_reject ''CLOSE_REPLAY'')
      else if wf_direction f = RUNTIME_TO_CLIENT
      then Inr (new_session\<lparr>ws_state := WS_CLOSE_SENT, ws_close_frames := 1\<rparr>)
      else Inr (new_session\<lparr>ws_state := WS_PEER_CLOSE_SEEN, ws_close_frames := 1\<rparr>))"

definition accept_frame ::
  "WAWWebSocketSession \<Rightarrow> WAWWebSocketFrame \<Rightarrow> WAWWebSocketPolicy option \<Rightarrow> ws_error + WAWWebSocketSession" where
  "accept_frame s f policy =
     (let p = policy_or_default policy in
      ebind (validate_policy p) (\<lambda>_.
      if \<not> (0 \<le> ws_message_payload_bytes s \<and> ws_message_payload_bytes s \<le> wp_max_message_payload p)
      then ws_reject ''PROTOCOL_INVALID''
      else if \<not> (0 \<le> ws_fragment_count s \<and> ws_fragment_count s \<le> wp_max_fragments p)
      then ws_reject ''PROTOCOL_INVALID''
      else if \<not> (0 \<le> ws_close_frames s \<and> ws_close_frames s \<le> wp_max_close_frames p)
      then ws_reject ''PROTOCOL_INVALID''
      else ebind (validate_session_invariants s p) (\<lambda>_.
      ebind (validate_frame f p) (\<lambda>_.
      if ws_state s \<in> {WS_CLOSED, WS_REJECTED} then ws_reject ''WEBSOCKET_TERMINAL''
      else case wf_opcode f of
        WS_TEXT \<Rightarrow> ws_reject ''TEXT_FORBIDDEN''
      | WS_BINARY \<Rightarrow> accept_data s f p
      | WS_CONTINUATION \<Rightarrow> accept_data s f p
      | WS_PING \<Rightarrow> (if ws_state s \<in> {WS_CLOSE_SENT, WS_PEER_CLOSE_SEEN} then ws_reject ''WEBSOCKET_TERMINAL'' else Inr s)
      | WS_PONG \<Rightarrow> (if ws_state s \<in> {WS_CLOSE_SENT, WS_PEER_CLOSE_SEEN} then ws_reject ''WEBSOCKET_TERMINAL'' else Inr s)
      | WS_CLOSE \<Rightarrow> accept_close s f p))))"

section \<open>Parsing a frame\<close>

definition MAX_FRAME_INPUT :: nat where
  "MAX_FRAME_INPUT = 65536 + 14"

abbreviation ws_invalid :: "string \<Rightarrow> ws_error + 'a" where
  "ws_invalid c \<equiv> Inl (WAWWebSocketParseError c)"

definition need :: "bytes \<Rightarrow> nat \<Rightarrow> ws_error + unit" where
  "need raw n = (if length raw < n then ws_invalid ''FRAME_TRUNCATED'' else Inr ())"

definition parser_policy :: "WAWWebSocketPolicy \<Rightarrow> ws_error + unit" where
  "parser_policy p = (case WAWWebSocketPolicy_init p of Inl _ \<Rightarrow> ws_invalid ''PROTOCOL_INVALID'' | Inr _ \<Rightarrow> Inr ())"

definition opcode_table :: "(nat \<times> WAWWebSocketOpcode) list" where
  "opcode_table = [(0, WS_CONTINUATION), (1, WS_TEXT), (2, WS_BINARY), (8, WS_CLOSE), (9, WS_PING), (10, WS_PONG)]"

definition unmask :: "bytes \<Rightarrow> bytes \<Rightarrow> bytes" where
  "unmask payload key = map (\<lambda>(i, v). xor v (key ! (i mod 4))) (enumerate 0 payload)"

text \<open>The payload length and the offset after the length field.\<close>

definition parse_length :: "bytes \<Rightarrow> nat \<Rightarrow> ws_error + (int \<times> nat)" where
  "parse_length raw length_code =
     (if length_code \<le> 125 then Inr (int length_code, 2)
      else if length_code = 126
      then ebind (need raw 4) (\<lambda>_.
        let n = be_field 2 2 raw in
        if n < 126 then ws_invalid ''LENGTH_NON_CANONICAL'' else Inr (n, 4))
      else ebind (need raw 10) (\<lambda>_.
        if bit (raw ! 2) 7 then ws_invalid ''LENGTH_OVERFLOW''
        else let n = be_field 2 8 raw in
        if n < 65536 then ws_invalid ''LENGTH_NON_CANONICAL'' else Inr (n, 10)))"

definition parse_close :: "bytes \<Rightarrow> WAWWebSocketPolicy \<Rightarrow> ws_error + (int \<times> int)" where
  "parse_close payload p =
     (if length payload = 1 then ws_invalid ''CLOSE_PAYLOAD_INVALID''
      else let code = int (be_val (take 2 payload)) in
      if \<not> allowed_close_code code \<and> \<not> (3000 \<le> code \<and> code \<le> 4999) then ws_invalid ''CLOSE_CODE_INVALID''
      else let reason = int (length payload) - 2 in
      if reason > wp_max_close_reason_bytes p then ws_invalid ''CLOSE_REASON_INVALID''
      else if utf8_decode (drop 2 payload) = None then ws_invalid ''CLOSE_REASON_INVALID''
      else Inr (code, reason))"

definition parse_payload ::
  "bytes \<Rightarrow> WAWWebSocketDirection \<Rightarrow> WAWWebSocketPolicy \<Rightarrow> WAWWebSocketOpcode \<Rightarrow> bool \<Rightarrow> bool \<Rightarrow> bool \<Rightarrow> bool \<Rightarrow> bool
     \<Rightarrow> int \<Rightarrow> nat \<Rightarrow> ws_error + WAWWebSocketFrame" where
  "parse_payload raw direction p opcode fin masked rsv1 rsv2 rsv3 payload_length offset =
     (let mask_key = (if masked then take 4 (drop offset raw) else []);
          payload_offset = offset + (if masked then 4 else 0) in
      ebind (need raw (payload_offset + nat payload_length)) (\<lambda>_.
      if length raw \<noteq> payload_offset + nat payload_length then ws_invalid ''TRAILING_BYTES''
      else let payload = take (nat payload_length) (drop payload_offset raw) in
      ebind (if opcode = WS_CLOSE \<and> payload_length \<noteq> 0
             then ebind (parse_close (if masked then unmask payload mask_key else payload) p)
                    (\<lambda>(code, reason). Inr (Some code, reason))
             else Inr (None, 0)) (\<lambda>(close_code, close_reason_bytes).
      Inr \<lparr>wf_direction = direction, wf_opcode = opcode, wf_fin = fin, wf_masked = masked,
           wf_rsv1 = rsv1, wf_rsv2 = rsv2, wf_rsv3 = rsv3,
           wf_payload_length = payload_length, wf_close_code = close_code,
           wf_close_reason_bytes = close_reason_bytes, wf_close_reason_utf8_valid = True\<rparr>)))"

definition parse_websocket_frame ::
  "bytes \<Rightarrow> WAWWebSocketDirection \<Rightarrow> WAWWebSocketPolicy option \<Rightarrow> ws_error + WAWWebSocketFrame" where
  "parse_websocket_frame raw direction policy =
     (let p = policy_or_default policy in
      ebind (parser_policy p) (\<lambda>_.
      if raw = [] \<or> length raw > MAX_FRAME_INPUT then ws_invalid ''FRAME_TOO_LARGE''
      else ebind (need raw 2) (\<lambda>_.
      let first = raw ! 0; second = raw ! 1;
          fin = bit first 7; rsv1 = bit first 6; rsv2 = bit first 5; rsv3 = bit first 4 in
      case map_of opcode_table (unat first mod 16) of
        None \<Rightarrow> ws_invalid ''OPCODE_FORBIDDEN''
      | Some opcode \<Rightarrow>
      if opcode = WS_TEXT then ws_invalid ''TEXT_FORBIDDEN''
      else if rsv1 \<or> rsv2 \<or> rsv3 then ws_invalid ''EXTENSION_FORBIDDEN''
      else let masked = bit second 7 in
      ebind (parse_length raw (unat second mod 128)) (\<lambda>(payload_length, offset).
      if payload_length > wp_max_frame_payload p then ws_invalid ''FRAME_TOO_LARGE''
      else if masked \<noteq> (direction = CLIENT_TO_RUNTIME) then ws_invalid ''MASKING_INVALID''
      else if opcode \<in> {WS_CLOSE, WS_PING, WS_PONG} \<and> (\<not> fin \<or> payload_length > 125)
      then ws_invalid ''CONTROL_FRAME_INVALID''
      else parse_payload raw direction p opcode fin masked rsv1 rsv2 rsv3 payload_length offset))))"

section \<open>What the parser accepts\<close>

text \<open>
  The reference encoder of RFC 6455: the one header of an opcode and a payload, the key, and the
  masked payload.
\<close>

fun opcode_byte :: "WAWWebSocketOpcode \<Rightarrow> nat" where
  "opcode_byte WS_CONTINUATION = 0"
| "opcode_byte WS_TEXT = 1"
| "opcode_byte WS_BINARY = 2"
| "opcode_byte WS_CLOSE = 8"
| "opcode_byte WS_PING = 9"
| "opcode_byte WS_PONG = 10"

definition length_field :: "bool \<Rightarrow> nat \<Rightarrow> bytes" where
  "length_field masked n =
     (let m = (if masked then 128 else 0) in
      if n \<le> 125 then [of_nat (m + n)]
      else if n < 65536 then of_nat (m + 126) # be_bytes 2 n
      else of_nat (m + 127) # be_bytes 8 n)"

definition ws_encode :: "WAWWebSocketDirection \<Rightarrow> WAWWebSocketOpcode \<Rightarrow> bool \<Rightarrow> bytes \<Rightarrow> bytes \<Rightarrow> bytes" where
  "ws_encode d opc fin key payload =
     of_nat ((if fin then 128 else 0) + opcode_byte opc)
     # length_field (d = CLIENT_TO_RUNTIME) (length payload)
     @ (if d = CLIENT_TO_RUNTIME then key @ unmask payload key else payload)"

definition close_payload_ok :: "WAWWebSocketPolicy \<Rightarrow> bytes \<Rightarrow> bool" where
  "close_payload_ok p payload \<longleftrightarrow> payload = []
     \<or> 2 \<le> length payload \<and> int (length payload) - 2 \<le> wp_max_close_reason_bytes p
       \<and> (allowed_close_code (int (be_val (take 2 payload)))
          \<or> 3000 \<le> be_val (take 2 payload) \<and> be_val (take 2 payload) \<le> 4999)
       \<and> utf8_decode (drop 2 payload) \<noteq> None"

definition payload_ok :: "WAWWebSocketPolicy \<Rightarrow> WAWWebSocketOpcode \<Rightarrow> bool \<Rightarrow> bytes \<Rightarrow> bool" where
  "payload_ok p opc fin payload \<longleftrightarrow> opc \<noteq> WS_TEXT \<and> int (length payload) \<le> wp_max_frame_payload p
     \<and> (opc \<in> {WS_CLOSE, WS_PING, WS_PONG} \<longrightarrow> fin \<and> length payload \<le> 125)
     \<and> (opc = WS_CLOSE \<longrightarrow> close_payload_ok p payload)"

definition frame_meta :: "WAWWebSocketDirection \<Rightarrow> WAWWebSocketOpcode \<Rightarrow> bool \<Rightarrow> bytes \<Rightarrow> WAWWebSocketFrame" where
  "frame_meta d opc fin payload =
     (let closing = (opc = WS_CLOSE \<and> payload \<noteq> []) in
      \<lparr>wf_direction = d, wf_opcode = opc, wf_fin = fin, wf_masked = (d = CLIENT_TO_RUNTIME),
       wf_rsv1 = False, wf_rsv2 = False, wf_rsv3 = False, wf_payload_length = int (length payload),
       wf_close_code = (if closing then Some (int (be_val (take 2 payload))) else None),
       wf_close_reason_bytes = (if closing then int (length payload) - 2 else 0),
       wf_close_reason_utf8_valid = True\<rparr>)"

lemma parser_policy_ok [simp]: "parser_policy p = Inr u \<longleftrightarrow> policy_in_range p"
  by (auto simp: parser_policy_def WAWWebSocketPolicy_init_def policy_in_range_def)

lemma need_ok [simp]: "need raw n = Inr u \<longleftrightarrow> n \<le> length raw"
  by (auto simp: need_def)

lemma need_length [simp]: "need raw (length raw) = Inr ()"
  by (simp add: need_def)

lemma length_unmask [simp]: "length (unmask b k) = length b"
  by (simp add: unmask_def)

lemma unmask_unmask [simp]: "unmask (unmask b k) k = b"
  by (rule nth_equalityI) (simp_all add: unmask_def nth_enumerate_eq xor.assoc)

lemma unmask_Nil [simp]: "unmask b k = [] \<longleftrightarrow> b = []"
  by (metis length_0_conv length_unmask)

lemma opcode_table_some:
  "map_of opcode_table c = Some opc \<longleftrightarrow> c = opcode_byte opc"
  by (cases opc) (auto simp: opcode_table_def)

lemma parse_close_ok:
  "payload \<noteq> [] \<Longrightarrow> parse_close payload p = Inr r \<longleftrightarrow>
     close_payload_ok p payload \<and> r = (int (be_val (take 2 payload)), int (length payload) - 2)"
  by (cases payload; cases "tl payload") (auto simp: parse_close_def close_payload_ok_def Let_def)

lemma bit_byte: "bit (b :: byte) n \<longleftrightarrow> odd (unat b div 2 ^ n)"
  by (simp add: bit_iff_odd [symmetric] bit_unsigned_iff)

lemma nibble_table:
  "\<forall>q\<in>set [0..<16]. (odd (q div 8) \<longleftrightarrow> 8 \<le> q) \<and> (even (q div 4) \<and> even (q div 2) \<and> even q \<longrightarrow> q = 0 \<or> q = (8 :: nat))"
  by code_simp

lemma byte_arith:
  assumes "n < 256"
  shows "odd (n div 2 ^ 7) \<longleftrightarrow> 128 \<le> (n :: nat)"
    "even (n div 2 ^ 6) \<Longrightarrow> even (n div 2 ^ 5) \<Longrightarrow> even (n div 2 ^ 4) \<Longrightarrow>
       n = (if 128 \<le> n then 128 else 0) + n mod 16"
    "n = (if 128 \<le> n then 128 else 0) + n mod 128"
proof -
  define q where "q = n div 16"
  have q: "n = 16 * q + n mod 16" "n mod 16 < 16" unfolding q_def by simp_all
  have "q < 16" using assms unfolding q_def by (simp add: less_mult_imp_div_less)
  then have t: "odd (q div 8) \<longleftrightarrow> 8 \<le> q" "even (q div 4) \<Longrightarrow> even (q div 2) \<Longrightarrow> even q \<Longrightarrow> q = 0 \<or> q = 8"
    using bspec [OF nibble_table, of q] unfolding set_upt atLeastLessThan_iff by blast+
  have d: "n div 2 ^ 7 = q div 8" "n div 2 ^ 6 = q div 4" "n div 2 ^ 5 = q div 2" "n div 2 ^ 4 = q"
    unfolding q_def by (simp_all flip: div_mult2_eq)
  have h: "128 \<le> n \<longleftrightarrow> 8 \<le> q" using q by linarith
  show "odd (n div 2 ^ 7) \<longleftrightarrow> 128 \<le> n" unfolding d h by (rule t)
  show "n = (if 128 \<le> n then 128 else 0) + n mod 16"
    if "even (n div 2 ^ 6)" "even (n div 2 ^ 5)" "even (n div 2 ^ 4)"
    using t(2) that q(1) unfolding d h by auto
  show "n = (if 128 \<le> n then 128 else 0) + n mod 128"
  proof (cases "128 \<le> n")
    case True
    then have "(n - 128) mod 128 = n - 128" using assms by simp
    then show ?thesis using True le_mod_geq [OF True] by simp
  qed simp
qed

lemma high_bit_byte: "bit (b :: byte) 7 \<longleftrightarrow> 128 \<le> unat b"
  unfolding bit_byte by (rule byte_arith(1) [OF unat_byte_less])

lemma first_byte_bits:
  "\<not> bit (b :: byte) 6 \<Longrightarrow> \<not> bit b 5 \<Longrightarrow> \<not> bit b 4 \<Longrightarrow>
     b = of_nat ((if bit b 7 then 128 else 0) + unat b mod 16)"
  unfolding high_bit_byte unfolding bit_byte using byte_arith(2) [OF unat_byte_less, of b]
  by (metis of_nat_unat_byte)

lemma first_byte_of_nat:
  assumes "b = (of_nat ((if fin then 128 else 0) + opcode_byte opc) :: byte)"
  shows "bit b 7 = fin" "\<not> bit b 6" "\<not> bit b 5" "\<not> bit b 4" "unat b mod 16 = opcode_byte opc"
  unfolding bit_byte assms by (cases opc; cases fin; simp add: unat_of_nat)+

lemma length_byte_of_nat:
  assumes "n < 128" "b = (of_nat ((if m then 128 else 0) + n) :: byte)"
  shows "bit b 7 = m" "unat b mod 128 = n"
proof -
  have "unat b = (if m then 128 else 0) + n"
    unfolding assms(2) by (rule unat_of_nat_byte) (use assms(1) in simp)
  then show "bit b 7 = m" "unat b mod 128 = n"
    unfolding high_bit_byte using assms(1) by simp_all
qed

lemma length_byte_split: "b = (of_nat ((if bit b 7 then 128 else 0) + unat b mod 128) :: byte)"
  unfolding high_bit_byte using byte_arith(3) [OF unat_byte_less, of b] by (metis of_nat_unat_byte)

lemma be_val_take2: "be_val (take 2 bs) < 65536"
proof -
  have "be_val (take 2 bs) < 256 ^ length (take 2 bs)" by (rule be_val_less)
  also have "\<dots> \<le> (256 :: nat) ^ 2" by (rule power_increasing) simp_all
  finally show ?thesis by simp
qed

lemma be_bytes_first: "be_bytes (Suc w) n ! 0 = of_nat (n div 256 ^ w mod 256)"
proof (induction w arbitrary: n)
  case (Suc w)
  have "be_bytes (Suc (Suc w)) n ! 0 = be_bytes (Suc w) (n div 256) ! 0"
    by (subst be_bytes.simps(2)) (simp add: nth_append del: be_bytes.simps)
  then show ?case by (simp only: Suc.IH power_Suc div_mult2_eq)
qed simp

lemma be_bytes8_high:
  assumes "n < 2 ^ 63"
  shows "\<not> bit (be_bytes 8 n ! 0) 7"
proof -
  have "n div 256 ^ 7 < 128" using assms by (simp add: less_mult_imp_div_less)
  then show ?thesis using be_bytes_first [of 7 n] unfolding high_bit_byte by simp
qed

lemma parse_length_sound:
  assumes "2 \<le> length raw" "parse_length raw (unat (raw ! 1) mod 128) = Inr (n, off)"
  shows "off \<le> length raw" "0 \<le> n" "take off raw = raw ! 0 # length_field (bit (raw ! 1) 7) (nat n)"
proof -
  obtain b0 b1 rest where raw: "raw = b0 # b1 # rest"
    using assms(1) by (metis Suc_le_length_iff numeral_2_eq_2)
  have "unat b1 mod 128 < 128" by simp
  then consider "unat b1 mod 128 \<le> 125" | "unat b1 mod 128 = 126" | "unat b1 mod 128 = 127" by linarith
  then show "off \<le> length raw" "0 \<le> n" "take off raw = raw ! 0 # length_field (bit (raw ! 1) 7) (nat n)"
    using assms(2) length_byte_split [of b1] be_val_take2 [of rest] unfolding parse_length_def raw
    by (cases; auto simp: Let_def result_simps length_field_def be_field_def be_bytes_be_val_eq split: if_splits)+
qed

lemma parse_length_complete:
  assumes "raw = b0 # length_field m n @ rest" "n < 2 ^ 63"
  shows "bit (raw ! 1) 7 = m"
    "parse_length raw (unat (raw ! 1) mod 128) = Inr (int n, 1 + length (length_field m n))"
proof -
  consider (a) "n \<le> 125" | (b) "126 \<le> n" "n < 65536" | (c) "65536 \<le> n" by linarith
  then have "bit (raw ! 1) 7 = m \<and>
    parse_length raw (unat (raw ! 1) mod 128) = Inr (int n, 1 + length (length_field m n))"
  proof cases
    case a
    then have "n < 128" by simp
    note byte = length_byte_of_nat [OF this refl, of m]
    have "length_field m n = [of_nat ((if m then 128 else 0) + n)]"
      using a by (simp add: length_field_def)
    with byte a show ?thesis by (simp add: assms(1) parse_length_def del: of_nat_add)
  next
    case b
    note byte = length_byte_of_nat [of 126, OF _ refl, of m]
    have "length_field m n = of_nat ((if m then 128 else 0) + 126) # be_bytes 2 n"
      using b by (simp add: length_field_def)
    moreover have "be_val (be_bytes 2 n) = n" using b by (simp add: be_val_be_bytes)
    ultimately show ?thesis using byte b
      by (simp add: assms(1) parse_length_def need_def be_field_def del: of_nat_add be_bytes.simps)
  next
    case c
    note byte = length_byte_of_nat [of 127, OF _ refl, of m]
    have "length_field m n = of_nat ((if m then 128 else 0) + 127) # be_bytes 8 n"
      using c by (simp add: length_field_def)
    moreover have "be_val (be_bytes 8 n) = n" using assms(2) by (simp add: be_val_be_bytes)
    moreover have "\<not> bit (be_bytes 8 n ! 0) 7"
      using be_bytes8_high [OF assms(2)] .
    ultimately show ?thesis using byte c
      by (simp add: assms(1) parse_length_def need_def be_field_def nth_append del: of_nat_add be_bytes.simps)
  qed
  then show "bit (raw ! 1) 7 = m"
    "parse_length raw (unat (raw ! 1) mod 128) = Inr (int n, 1 + length (length_field m n))" by blast+
qed

definition plain_payload :: "bytes \<Rightarrow> WAWWebSocketDirection \<Rightarrow> nat \<Rightarrow> bytes" where
  "plain_payload raw d off =
     (if d = CLIENT_TO_RUNTIME then unmask (drop (off + 4) raw) (take 4 (drop off raw)) else drop off raw)"

lemma close_stage_ok:
  assumes "nat n = length payload" "0 \<le> n"
  shows "ebind (if opc = WS_CLOSE \<and> n \<noteq> 0
                then ebind (parse_close payload p) (\<lambda>(code, reason). Inr (Some code, reason)) else Inr (None, 0)) g = Inr f
     \<longleftrightarrow> (opc = WS_CLOSE \<longrightarrow> close_payload_ok p payload)
       \<and> g (wf_close_code (frame_meta d opc fin payload), wf_close_reason_bytes (frame_meta d opc fin payload)) = Inr f"
proof (cases "opc = WS_CLOSE \<and> payload \<noteq> []")
  case True
  then have "n \<noteq> 0" using assms by auto
  with True show ?thesis
    by (auto simp: result_simps parse_close_ok frame_meta_def split: prod.splits)
next
  case False
  then show ?thesis using assms by (auto simp: frame_meta_def close_payload_ok_def)
qed

lemma parse_payload_ok:
  assumes "0 \<le> n"
  shows "parse_payload raw d p opc fin (d = CLIENT_TO_RUNTIME) False False False n off = Inr f \<longleftrightarrow>
     length raw = off + (if d = CLIENT_TO_RUNTIME then 4 else 0) + nat n
     \<and> (opc = WS_CLOSE \<longrightarrow> close_payload_ok p (plain_payload raw d off))
     \<and> f = frame_meta d opc fin (plain_payload raw d off)"
proof (cases "length raw = off + (if d = CLIENT_TO_RUNTIME then 4 else 0) + nat n")
  case True
  define payload where "payload = plain_payload raw d off"
  have len: "nat n = length payload" using True by (auto simp: payload_def plain_payload_def)
  then have n: "n = int (length payload)" using assms by simp
  have pl: "(if d = CLIENT_TO_RUNTIME then unmask (take (nat n) (drop (off + (if d = CLIENT_TO_RUNTIME then 4 else 0)) raw))
      (if d = CLIENT_TO_RUNTIME then take 4 (drop off raw) else [])
     else take (nat n) (drop (off + (if d = CLIENT_TO_RUNTIME then 4 else 0)) raw)) = payload"
    using True by (auto simp: payload_def plain_payload_def)
  show ?thesis
    unfolding parse_payload_def Let_def pl True [symmetric] need_length ebind.simps payload_def [symmetric]
    by (simp add: close_stage_ok [OF len assms, where d = d and fin = fin])
       (auto simp: frame_meta_def Let_def n)
qed (auto simp: parse_payload_def need_def Let_def)

lemma parse_inv:
  assumes "parse_websocket_frame raw d policy = Inr f"
  obtains opc n off where "policy_in_range (policy_or_default policy)" "2 \<le> length raw"
    "unat (raw ! 0) mod 16 = opcode_byte opc" "opc \<noteq> WS_TEXT"
    "\<not> bit (raw ! 0) 6" "\<not> bit (raw ! 0) 5" "\<not> bit (raw ! 0) 4"
    "parse_length raw (unat (raw ! 1) mod 128) = Inr (n, off)"
    "n \<le> wp_max_frame_payload (policy_or_default policy)" "bit (raw ! 1) 7 = (d = CLIENT_TO_RUNTIME)"
    "opc \<in> {WS_CLOSE, WS_PING, WS_PONG} \<Longrightarrow> bit (raw ! 0) 7 \<and> n \<le> 125"
    "parse_payload raw d (policy_or_default policy) opc (bit (raw ! 0) 7) (d = CLIENT_TO_RUNTIME)
       False False False n off = Inr f"
  using assms unfolding parse_websocket_frame_def Let_def
  by (auto simp: result_simps opcode_table_some split: option.splits if_splits prod.splits; blast)

lemma parse_sound:
  assumes "parse_websocket_frame raw d policy = Inr f"
  shows "\<exists>opc fin key payload. policy_in_range (policy_or_default policy) \<and> length key = 4
     \<and> payload_ok (policy_or_default policy) opc fin payload
     \<and> raw = ws_encode d opc fin key payload \<and> f = frame_meta d opc fin payload"
  using assms
proof (rule parse_inv)
  fix opc n off
  let ?p = "policy_or_default policy" and ?m = "d = CLIENT_TO_RUNTIME"
  assume a: "policy_in_range ?p" "2 \<le> length raw" "unat (raw ! 0) mod 16 = opcode_byte opc" "opc \<noteq> WS_TEXT"
    "\<not> bit (raw ! 0) 6" "\<not> bit (raw ! 0) 5" "\<not> bit (raw ! 0) 4"
    "parse_length raw (unat (raw ! 1) mod 128) = Inr (n, off)"
    "n \<le> wp_max_frame_payload ?p" "bit (raw ! 1) 7 = ?m"
    "opc \<in> {WS_CLOSE, WS_PING, WS_PONG} \<Longrightarrow> bit (raw ! 0) 7 \<and> n \<le> 125"
    "parse_payload raw d ?p opc (bit (raw ! 0) 7) ?m False False False n off = Inr f"
  define payload where "payload = plain_payload raw d off"
  define key where "key = (if ?m then take 4 (drop off raw) else [0, 0, 0, 0])"
  note len = parse_length_sound [OF a(2,8), unfolded a(10)]
  note pay = a(12) [unfolded parse_payload_ok [OF len(2)], folded payload_def]
  have n: "nat n = length payload" "int (length payload) = n"
    using pay len(2) by (auto simp: payload_def plain_payload_def)
  have "raw ! 0 = of_nat ((if bit (raw ! 0) 7 then 128 else 0) + opcode_byte opc)"
    using first_byte_bits [OF a(5-7)] unfolding a(3) .
  then have "take off raw @ (if ?m then key @ unmask payload key else payload) = ws_encode d opc (bit (raw ! 0) 7) key payload"
    unfolding len(3) n(1) ws_encode_def by simp
  moreover have "take off raw @ (if ?m then key @ unmask payload key else payload) = raw"
    by (simp add: payload_def key_def plain_payload_def)
       (metis add.commute append_assoc append_take_drop_id drop_drop)
  moreover have "length key = 4" using pay by (simp add: key_def)
  moreover have "payload_ok ?p opc (bit (raw ! 0) 7) payload"
    using a(4,9,11) pay n by (auto simp: payload_ok_def)
  ultimately show ?thesis using a(1) pay by metis
qed

lemma length_length_field: "length (length_field m n) = (if n \<le> 125 then 1 else if n < 65536 then 3 else 9)"
  by (simp add: length_field_def Let_def)

lemma ws_encode_plain:
  assumes "d = CLIENT_TO_RUNTIME \<Longrightarrow> length key = 4"
    and "off = 1 + length (length_field (d = CLIENT_TO_RUNTIME) (length payload))"
  shows "plain_payload (ws_encode d opc fin key payload) d off = payload"
    and "length (ws_encode d opc fin key payload) = off + (if d = CLIENT_TO_RUNTIME then 4 else 0) + length payload"
proof -
  have "drop off (ws_encode d opc fin key payload) = (if d = CLIENT_TO_RUNTIME then key @ unmask payload key else payload)"
    using assms(2) by (simp add: ws_encode_def)
  then show "plain_payload (ws_encode d opc fin key payload) d off = payload"
    using assms(1) by (auto simp: plain_payload_def add.commute [of off] simp flip: drop_drop)
  show "length (ws_encode d opc fin key payload) = off + (if d = CLIENT_TO_RUNTIME then 4 else 0) + length payload"
    using assms by (auto simp: ws_encode_def)
qed

lemma parse_complete:
  assumes "policy_in_range (policy_or_default policy)" "length key = 4"
    "payload_ok (policy_or_default policy) opc fin payload"
  shows "parse_websocket_frame (ws_encode d opc fin key payload) d policy = Inr (frame_meta d opc fin payload)"
proof -
  let ?p = "policy_or_default policy" and ?m = "d = CLIENT_TO_RUNTIME"
  define raw where "raw = ws_encode d opc fin key payload"
  define off where "off = 1 + length (length_field ?m (length payload))"
  have small: "length payload \<le> 65536" "int (length payload) \<le> wp_max_frame_payload ?p"
    using assms(1,3) by (auto simp: payload_ok_def policy_in_range_def)
  have shape: "raw = raw ! 0 # length_field ?m (length payload) @ (if ?m then key @ unmask payload key else payload)"
    and zero: "raw ! 0 = of_nat ((if fin then 128 else 0) + opcode_byte opc)"
    by (simp_all add: raw_def ws_encode_def)
  note first = first_byte_of_nat [OF zero]
  have "length payload < 2 ^ 63" using small(1) by simp
  note len = parse_length_complete [OF shape this, folded off_def]
  note enc = ws_encode_plain [of d key off payload opc fin, folded raw_def, OF assms(2) off_def]
  have long: "2 \<le> length raw" "length raw \<le> MAX_FRAME_INPUT"
    using enc(2) small(1) by (auto simp: off_def length_length_field MAX_FRAME_INPUT_def)
  have pay: "parse_payload raw d ?p opc fin ?m False False False (int (length payload)) off
      = Inr (frame_meta d opc fin payload)"
    using assms(3) enc by (subst parse_payload_ok) (auto simp: payload_ok_def)
  have opc: "map_of opcode_table (unat (raw ! 0) mod 16) = Some opc" using first(5) by (simp add: opcode_table_some)
  have pp: "parser_policy ?p = Inr ()" "need raw 2 = Inr ()" using assms(1) long by simp_all
  have ctl: "\<not> (opc \<in> {WS_CLOSE, WS_PING, WS_PONG} \<and> (\<not> fin \<or> int (length payload) > 125))" "opc \<noteq> WS_TEXT"
    using assms(3) by (auto simp: payload_ok_def)
  show ?thesis
    unfolding raw_def [symmetric] parse_websocket_frame_def Let_def pp ebind.simps opc len first(1) option.case prod.case
    using ctl first(2-4) pay long small(2) by auto
qed

section \<open>Runs of frames\<close>

fun accept_frames ::
  "WAWWebSocketSession \<Rightarrow> WAWWebSocketFrame list \<Rightarrow> WAWWebSocketPolicy option \<Rightarrow> ws_error + WAWWebSocketSession" where
  "accept_frames s [] policy = Inr s"
| "accept_frames s (f # fs) policy = ebind (accept_frame s f policy) (\<lambda>s'. accept_frames s' fs policy)"

text \<open>The messages a sequence of frames carries: the payload lengths of the fragments of every finished
  message, and those of the one under way. A close abandons the message under way.\<close>

fun assemble_step :: "int list list \<times> int list \<Rightarrow> WAWWebSocketFrame \<Rightarrow> int list list \<times> int list" where
  "assemble_step (finished, current) f =
     (if wf_opcode f \<in> {WS_BINARY, WS_CONTINUATION}
      then if wf_fin f then (finished @ [current @ [wf_payload_length f]], [])
           else (finished, current @ [wf_payload_length f])
      else if wf_opcode f = WS_CLOSE then (finished, []) else (finished, current))"

definition assemble :: "WAWWebSocketFrame list \<Rightarrow> int list list \<times> int list" where
  "assemble fs = foldl assemble_step ([], []) fs"

definition closes :: "WAWWebSocketFrame list \<Rightarrow> WAWWebSocketDirection list" where
  "closes fs = map wf_direction (filter (\<lambda>f. wf_opcode f = WS_CLOSE) fs)"

definition message_ok :: "WAWWebSocketPolicy \<Rightarrow> int list \<Rightarrow> bool" where
  "message_ok p m \<longleftrightarrow> m \<noteq> [] \<and> sum_list m \<le> wp_max_message_payload p \<and> int (length m) \<le> wp_max_fragments p"

fun state_of :: "WAWWebSocketDirection list \<Rightarrow> int list \<Rightarrow> WAWWebSocketState" where
  "state_of [] current = (if current = [] then WS_OPEN else WS_FRAGMENTED_BINARY)"
| "state_of [d] current = (if d = RUNTIME_TO_CLIENT then WS_CLOSE_SENT else WS_PEER_CLOSE_SEEN)"
| "state_of _ current = WS_CLOSED"

definition tracks :: "WAWWebSocketPolicy \<Rightarrow> WAWWebSocketFrame list \<Rightarrow> WAWWebSocketSession \<Rightarrow> bool" where
  "tracks p fs s \<longleftrightarrow>
     (case assemble fs of (finished, current) \<Rightarrow>
        ws_message_payload_bytes s = sum_list current \<and> ws_fragment_count s = int (length current)
        \<and> 0 \<le> sum_list current \<and> sum_list current \<le> wp_max_message_payload p \<and> int (length current) \<le> wp_max_fragments p
        \<and> (closes fs \<noteq> [] \<longrightarrow> current = [])
        \<and> list_all (message_ok p) finished \<and> ws_state s = state_of (closes fs) current)
     \<and> ws_close_frames s = int (length (closes fs)) \<and> distinct (closes fs)
     \<and> int (length (closes fs)) \<le> wp_max_close_frames p
     \<and> fs = filter (\<lambda>f. wf_opcode f \<noteq> WS_CLOSE) fs @ filter (\<lambda>f. wf_opcode f = WS_CLOSE) fs"

lemma closes_snoc:
  "closes (fs @ [f]) = closes fs @ (if wf_opcode f = WS_CLOSE then [wf_direction f] else [])"
  by (simp add: closes_def)

lemma assemble_snoc: "assemble (fs @ [f]) = assemble_step (assemble fs) f"
  by (simp add: assemble_def)

lemma no_closes: "closes fs = [] \<longleftrightarrow> filter (\<lambda>f. wf_opcode f = WS_CLOSE) fs = []"
  by (simp add: closes_def)

lemma accept_frame_ok:
  assumes "accept_frame s f policy = Inr s'"
  defines "p \<equiv> policy_or_default policy"
  shows "policy_in_range p" "validate_frame f p = Inr ()" "\<not> counters_inconsistent s"
    "ws_state s \<notin> {WS_CLOSED, WS_REJECTED}"
    "wf_opcode f \<in> {WS_BINARY, WS_CONTINUATION} \<Longrightarrow> accept_data s f p = Inr s'"
    "wf_opcode f \<in> {WS_PING, WS_PONG} \<Longrightarrow> ws_state s \<notin> {WS_CLOSE_SENT, WS_PEER_CLOSE_SEEN} \<and> s' = s"
    "wf_opcode f = WS_CLOSE \<Longrightarrow> accept_close s f p = Inr s'" "wf_opcode f \<noteq> WS_TEXT"
  using assms(1) unfolding accept_frame_def Let_def p_def [symmetric]
  by (auto simp: result_simps validate_policy_def validate_session_invariants_def
      split: if_splits WAWWebSocketOpcode.splits)

lemma validate_frame_length: "validate_frame f p = Inr u \<Longrightarrow> 0 \<le> wf_payload_length f"
  by (auto simp: validate_frame_def split: if_splits)

lemma state_of_simps:
  "state_of cs current = WS_OPEN \<longleftrightarrow> cs = [] \<and> current = []"
  "state_of cs current = WS_FRAGMENTED_BINARY \<longleftrightarrow> cs = [] \<and> current \<noteq> []"
  "state_of cs current = WS_CLOSE_SENT \<longleftrightarrow> cs = [RUNTIME_TO_CLIENT]"
  "state_of cs current = WS_PEER_CLOSE_SEEN \<longleftrightarrow> cs = [CLIENT_TO_RUNTIME]"
  "state_of cs current = WS_CLOSED \<longleftrightarrow> 2 \<le> length cs"
  by (cases "(cs, current)" rule: state_of.cases; auto; use WAWWebSocketDirection.exhaust in blast)+

lemma accept_data_tracks:
  assumes "tracks p fs s" "accept_data s f p = Inr s'" "policy_in_range p"
    "wf_opcode f \<in> {WS_BINARY, WS_CONTINUATION}" "ws_state s \<notin> {WS_CLOSED, WS_REJECTED}"
    "0 \<le> wf_payload_length f"
  shows "tracks p (fs @ [f]) s'"
proof -
  obtain finished current where a: "assemble fs = (finished, current)" by fastforce
  have c: "closes fs = []"
    using assms(1,2,5) a by (auto simp: tracks_def accept_data_def state_of_simps split: if_splits)
  then have "filter (\<lambda>f. wf_opcode f = WS_CLOSE) fs = []" by (simp only: no_closes)
  then show ?thesis
    using assms a c unfolding tracks_def
    by (auto simp: accept_data_def assemble_snoc closes_snoc message_ok_def new_session_def
        policy_in_range_def Let_def state_of_simps split: if_splits)
qed

lemma accept_close_tracks:
  assumes "tracks p fs s" "accept_close s f p = Inr s'" "wf_opcode f = WS_CLOSE"
    "ws_state s \<notin> {WS_CLOSED, WS_REJECTED}" "policy_in_range p"
  shows "tracks p (fs @ [f]) s'"
proof -
  obtain finished current where a: "assemble fs = (finished, current)" by fastforce
  then have st: "ws_state s = state_of (closes fs) current"
    and len: "ws_close_frames s = int (length (closes fs))" using assms(1) by (simp_all add: tracks_def)
  consider "closes fs = []" | d where "closes fs = [d]"
    using assms(4) unfolding st by (cases "(closes fs, current)" rule: state_of.cases) auto
  then show ?thesis
  proof cases
    case 1
    then show ?thesis using assms a unfolding tracks_def
      by (cases "wf_direction f")
         (auto simp: accept_close_def assemble_snoc closes_snoc new_session_def policy_in_range_def split: if_splits)
  next
    case 2
    then show ?thesis using assms a unfolding tracks_def
      by (cases d; cases "wf_direction f")
         (auto simp: accept_close_def assemble_snoc closes_snoc new_session_def split: if_splits)
  qed
qed

lemma accept_ping_tracks:
  assumes "tracks p fs s" "wf_opcode f \<in> {WS_PING, WS_PONG}"
    "ws_state s \<notin> {WS_CLOSED, WS_REJECTED, WS_CLOSE_SENT, WS_PEER_CLOSE_SEEN}"
  shows "tracks p (fs @ [f]) s"
proof -
  obtain finished current where a: "assemble fs = (finished, current)" by fastforce
  have c: "closes fs = []"
    using assms(1,3) a by (cases "(closes fs, current)" rule: state_of.cases) (auto simp: tracks_def split: if_splits)
  then have "filter (\<lambda>f. wf_opcode f = WS_CLOSE) fs = []" by (simp only: no_closes)
  then show ?thesis
    using assms a c unfolding tracks_def by (auto simp: assemble_snoc closes_snoc)
qed

lemma accept_frame_tracks:
  assumes "tracks (policy_or_default policy) fs s" "accept_frame s f policy = Inr s'"
  shows "tracks (policy_or_default policy) (fs @ [f]) s'"
proof (cases "wf_opcode f \<in> {WS_BINARY, WS_CONTINUATION}")
  case True
  then show ?thesis using accept_data_tracks [OF assms(1)] accept_frame_ok [OF assms(2)]
      validate_frame_length by blast
next
  case False
  note ok = accept_frame_ok [OF assms(2)]
  consider "wf_opcode f \<in> {WS_PING, WS_PONG}" | "wf_opcode f = WS_CLOSE"
    using False ok(8) by (cases "wf_opcode f") auto
  then show ?thesis
    using accept_ping_tracks [OF assms(1)] accept_close_tracks [OF assms(1)] ok by cases auto
qed

lemma accept_frames_track:
  "tracks (policy_or_default policy) fs0 s \<Longrightarrow> accept_frames s fs policy = Inr s' \<Longrightarrow>
     tracks (policy_or_default policy) (fs0 @ fs) s'"
proof (induction fs arbitrary: fs0 s)
  case (Cons f fs)
  then obtain s1 where "accept_frame s f policy = Inr s1" "accept_frames s1 fs policy = Inr s'"
    by (auto simp: result_simps)
  then show ?case using Cons.IH [OF accept_frame_tracks [OF Cons.prems(1)]] by auto
qed simp

lemma tracks_new: "policy_in_range p \<Longrightarrow> tracks p [] new_session"
  by (simp add: tracks_def assemble_def closes_def new_session_def policy_in_range_def)

lemma tracks_consistent:
  assumes "tracks p fs s" "policy_in_range p"
  shows "validate_session_invariants s p = Inr ()"
proof -
  obtain finished current where a: "assemble fs = (finished, current)" by fastforce
  have "length (closes fs) \<le> 2"
    using assms unfolding tracks_def policy_in_range_def by linarith
  then show ?thesis using assms a
    by (cases "(closes fs, current)" rule: state_of.cases)
       (auto simp: tracks_def validate_session_invariants_def counters_inconsistent_def split: if_splits)
qed

lemma frame_meta_valid:
  "policy_in_range p \<Longrightarrow> payload_ok p opc fin payload \<Longrightarrow> validate_frame (frame_meta d opc fin payload) p = Inr ()"
  by (auto simp: validate_frame_def validate_close_def frame_meta_def payload_ok_def close_payload_ok_def Let_def)

lemma accept_frame_errors:
  assumes "tracks (policy_or_default policy) fs s" "policy_in_range (policy_or_default policy)"
    "validate_frame f (policy_or_default policy) = Inr ()" "wf_opcode f \<noteq> WS_TEXT"
    "accept_frame s f policy = Inl e"
  shows "e \<in> WAWWebSocketContractError `
     {''WEBSOCKET_TERMINAL'', ''FRAGMENTATION_INVALID'', ''MESSAGE_TOO_LARGE'', ''CLOSE_REPLAY''}"
proof -
  let ?p = "policy_or_default policy"
  have "validate_policy ?p = Inr ()" using assms(2) by (simp add: validate_policy_def)
  moreover have "0 \<le> ws_message_payload_bytes s \<and> ws_message_payload_bytes s \<le> wp_max_message_payload ?p"
    "0 \<le> ws_fragment_count s \<and> ws_fragment_count s \<le> wp_max_fragments ?p"
    "0 \<le> ws_close_frames s \<and> ws_close_frames s \<le> wp_max_close_frames ?p"
    using assms(1) by (auto simp: tracks_def)
  ultimately show ?thesis
    using assms(3-5) tracks_consistent [OF assms(1,2)]
    by (cases "wf_opcode f")
       (auto simp: accept_frame_def accept_data_def accept_close_def Let_def split: if_splits)
qed

section \<open>Properties\<close>

definition sample_close :: WAWWebSocketFrame where
  "sample_close = frame_meta RUNTIME_TO_CLIENT WS_CLOSE True [0x03, 0xE8]"

definition sample_data :: "WAWWebSocketOpcode \<Rightarrow> bool \<Rightarrow> nat \<Rightarrow> WAWWebSocketFrame" where
  "sample_data opc fin n = frame_meta CLIENT_TO_RUNTIME opc fin (replicate n 0)"

definition sample_frames :: "WAWWebSocketFrame list" where
  "sample_frames = [sample_data WS_BINARY False 5, sample_data WS_PING True 1,
     sample_data WS_CONTINUATION True 3, sample_data WS_BINARY False 7]"

text \<open>C20. Type safety of the two halves: a frame the parser returns has the direction it was read in, is
  never a text frame and passes the validation of the frame contract; fed to any session that accepted
  frames have led to, it is accepted or refused for a reason of the protocol state (a closed or closing
  connection, fragmentation out of order, a message too large, a second close), never as an invalid frame.\<close>

theorem parsed_frame_well_typed:
  assumes "parse_websocket_frame raw d policy = Inr f"
  shows "wf_direction f = d \<and> wf_opcode f \<noteq> WS_TEXT \<and> validate_frame f (policy_or_default policy) = Inr ()
     \<and> (accept_frames new_session fs policy = Inr s \<longrightarrow> accept_frame s f policy = Inl e \<longrightarrow>
         e \<in> WAWWebSocketContractError `
           {''WEBSOCKET_TERMINAL'', ''FRAGMENTATION_INVALID'', ''MESSAGE_TOO_LARGE'', ''CLOSE_REPLAY''})"
proof -
  obtain opc fin payload where p: "policy_in_range (policy_or_default policy)"
    "payload_ok (policy_or_default policy) opc fin payload" "f = frame_meta d opc fin payload"
    using parse_sound [OF assms] by blast
  then have f: "wf_direction f = d" "wf_opcode f \<noteq> WS_TEXT" "validate_frame f (policy_or_default policy) = Inr ()"
    by (simp_all add: frame_meta_valid) (simp_all add: frame_meta_def payload_ok_def Let_def)
  then show ?thesis
    using accept_frame_errors [OF accept_frames_track [OF tracks_new [OF p(1)]] p(1) f(3,2)] by blast
qed

theorem parsed_frame_well_typed_witness:
  "parse_websocket_frame [0x88, 0x02, 0x03, 0xE8] RUNTIME_TO_CLIENT None = Inr sample_close
     \<and> validate_frame sample_close default_policy = Inr ()
     \<and> accept_frames new_session [sample_close] None
         = Inr (new_session\<lparr>ws_state := WS_CLOSE_SENT, ws_close_frames := 1\<rparr>)
     \<and> accept_frame (new_session\<lparr>ws_state := WS_CLOSE_SENT, ws_close_frames := 1\<rparr>) sample_close None
         = Inl (WAWWebSocketContractError ''CLOSE_REPLAY'')
     \<and> WAWWebSocketContractError ''CLOSE_REPLAY'' \<in> WAWWebSocketContractError `
         {''WEBSOCKET_TERMINAL'', ''FRAGMENTATION_INVALID'', ''MESSAGE_TOO_LARGE'', ''CLOSE_REPLAY''}"
proof -
  let ?s = "new_session\<lparr>ws_state := WS_CLOSE_SENT, ws_close_frames := 1\<rparr>"
  have "payload_ok default_policy WS_CLOSE True [0x03, 0xE8]"
    by (simp add: payload_ok_def close_payload_ok_def default_policy_def allowed_close_code_def be_val_def)
  moreover have "ws_encode RUNTIME_TO_CLIENT WS_CLOSE True [0, 0, 0, 0] [0x03, 0xE8] = [0x88, 0x02, 0x03, 0xE8]"
    by (simp add: ws_encode_def length_field_def)
  moreover have "policy_in_range default_policy" by code_simp
  ultimately have a: "parse_websocket_frame [0x88, 0x02, 0x03, 0xE8] RUNTIME_TO_CLIENT None = Inr sample_close"
    using parse_complete [of None "[0, 0, 0, 0]" WS_CLOSE True "[0x03, 0xE8]" RUNTIME_TO_CLIENT]
    by (simp add: policy_or_default_def sample_close_def)
  have b: "accept_frames new_session [sample_close] None = Inr ?s" by code_simp
  have c: "accept_frame ?s sample_close None = Inl (WAWWebSocketContractError ''CLOSE_REPLAY'')" by code_simp
  show ?thesis
    using parsed_frame_well_typed [OF a, of "[sample_close]" ?s] a b c by (simp add: policy_or_default_def)
qed

text \<open>C15. The parser accepts exactly the canonical encodings: with a policy in range, a byte string parses
  to a frame's metadata if and only if it is the minimal-length encoding, masked exactly when it comes
  from the client, of a payload the policy admits, and the metadata is that payload's.\<close>

theorem parse_accepts_canonical:
  "parse_websocket_frame raw d policy = Inr f \<longleftrightarrow>
     policy_in_range (policy_or_default policy)
     \<and> (\<exists>opc fin key payload. length key = 4 \<and> payload_ok (policy_or_default policy) opc fin payload
          \<and> raw = ws_encode d opc fin key payload \<and> f = frame_meta d opc fin payload)"
  using parse_sound [of raw d policy f] parse_complete [of policy] by metis

text \<open>C21. What accepted frames amount to: after any accepted sequence the session's counters are the bytes
  and the fragments of the message under way, that message and every finished one are within the policy's
  limits, no frame but a close follows a close, and each direction closes at most once.\<close>

theorem accepted_frames_tracked:
  assumes "accept_frames new_session fs policy = Inr s" "policy_in_range (policy_or_default policy)"
  shows "ws_message_payload_bytes s = sum_list (snd (assemble fs))
     \<and> ws_fragment_count s = int (length (snd (assemble fs)))
     \<and> ws_message_payload_bytes s \<le> wp_max_message_payload (policy_or_default policy)
     \<and> ws_fragment_count s \<le> wp_max_fragments (policy_or_default policy)
     \<and> list_all (message_ok (policy_or_default policy)) (fst (assemble fs))
     \<and> fs = filter (\<lambda>f. wf_opcode f \<noteq> WS_CLOSE) fs @ filter (\<lambda>f. wf_opcode f = WS_CLOSE) fs
     \<and> distinct (closes fs) \<and> ws_close_frames s = int (length (closes fs))
     \<and> ws_state s = state_of (closes fs) (snd (assemble fs))"
proof -
  have t: "tracks (policy_or_default policy) fs s"
    using accept_frames_track [OF tracks_new [OF assms(2)] assms(1)] by simp
  obtain finished current where "assemble fs = (finished, current)" by fastforce
  then show ?thesis using t unfolding tracks_def by simp
qed

theorem accepted_frames_tracked_witness:
  "accept_frames new_session sample_frames None
     = Inr \<lparr>ws_state = WS_FRAGMENTED_BINARY, ws_message_payload_bytes = 7, ws_fragment_count = 1, ws_close_frames = 0\<rparr>
   \<and> policy_in_range default_policy \<and> assemble sample_frames = ([[5, 3]], [7])
   \<and> list_all (message_ok default_policy) (fst (assemble sample_frames)) \<and> distinct (closes sample_frames)"
proof -
  have a: "accept_frames new_session sample_frames None
     = Inr \<lparr>ws_state = WS_FRAGMENTED_BINARY, ws_message_payload_bytes = 7, ws_fragment_count = 1, ws_close_frames = 0\<rparr>"
    by code_simp
  have b: "policy_in_range (policy_or_default None)" by code_simp
  have c: "assemble sample_frames = ([[5, 3]], [7])" by code_simp
  show ?thesis using accepted_frames_tracked [OF a b] a b c by (simp add: policy_or_default_def)
qed

end
