(* ===== verification/Epoch_Store.thy ===== *)
theory Epoch_Store
  imports Py_Utf8 Py_Json
begin

text \<open>
  The durable Runtime epoch (\<open>agentbox_runtime/waw_epoch.py\<close>), down to its system calls. Every call
  takes the next answer of a script: it works, works in part, fails with \<open>OSError\<close>, or is never
  reached because the process or the machine stops, after which no handler runs. The disk remembers
  which directory contents a power loss may bring back (those since the last \<open>fsync\<close> of the directory)
  and which files have their data on the medium (those synced since their last write). An exception is
  its class; a \<open>NaN\<close> in the file is refused by the JSON stage here and by the record stage in the code,
  with the same class. The lock on the directory is held over a whole call, so a call is one step.
\<close>

section \<open>The disk and the calls\<close>

datatype epoch_exn = WAWRuntimeEpochError | OSError | FileNotFoundError | CallbackError nat

definition is_OSError :: "epoch_exn \<Rightarrow> bool" where
  "is_OSError e \<longleftrightarrow> e = OSError \<or> e = FileNotFoundError"

datatype file_kind = S_REG | S_DIR | S_LNK | S_OTHER

record Stat =
  st_kind :: file_kind
  st_dev :: nat
  st_ino :: nat
  st_uid :: int
  st_gid :: int
  st_imode :: nat

record Inode =
  in_kind :: file_kind
  in_uid :: int
  in_gid :: int
  in_imode :: nat
  in_data :: bytes
  in_synced :: bool

type_synonym names = "pystr \<Rightarrow> nat option"

record Disk =
  dk_names :: names
  dk_versions :: "names list"
  dk_inodes :: "nat \<Rightarrow> Inode option"
  dk_next :: nat

datatype answer = Done | Counts nat | Sees Stat | Fails | Stops

text \<open>The process: the answers to come, the store's directory as \<open>lstat\<close> sees it, and the attributes of
  a file it creates with mode \<open>0o600\<close>.\<close>

record Machine =
  mc_answers :: "answer list"
  mc_dir_stat :: Stat
  mc_new_uid :: int
  mc_new_gid :: int
  mc_new_imode :: nat
  mc_disk :: Disk

datatype 'a outcome = Ret 'a | Exn epoch_exn | Halted

type_synonym 'a io = "Machine \<Rightarrow> 'a outcome \<times> Machine"

definition io_return :: "'a \<Rightarrow> 'a io" where
  "io_return x m = (Ret x, m)"

definition io_raise :: "epoch_exn \<Rightarrow> 'a io" where
  "io_raise e m = (Exn e, m)"

text \<open>\<open>try: a except: h else: k\<close>; sequencing and a handler alone are its special cases.\<close>

definition io_try :: "'a io \<Rightarrow> (epoch_exn \<Rightarrow> 'b io) \<Rightarrow> ('a \<Rightarrow> 'b io) \<Rightarrow> 'b io" where
  "io_try a h k m = (case a m of (Ret x, m') \<Rightarrow> k x m' | (Exn e, m') \<Rightarrow> h e m' | (Halted, m') \<Rightarrow> (Halted, m'))"

definition io_bind :: "'a io \<Rightarrow> ('a \<Rightarrow> 'b io) \<Rightarrow> 'b io" where
  "io_bind a k = io_try a io_raise k"

definition io_catch :: "'a io \<Rightarrow> (epoch_exn \<Rightarrow> 'a io) \<Rightarrow> 'a io" where
  "io_catch a h = io_try a h io_return"

definition io_finally :: "'a io \<Rightarrow> unit io \<Rightarrow> 'a io" where
  "io_finally a g = io_try a (\<lambda>e. io_bind g (\<lambda>_. io_raise e)) (\<lambda>x. io_bind g (\<lambda>_. io_return x))"

text \<open>\<open>except OSError as exc: raise WAWRuntimeEpochError from exc\<close> and \<open>suppress(OSError)\<close>.\<close>

definition convert_OSError :: "'a io \<Rightarrow> 'a io" where
  "convert_OSError a = io_catch a (\<lambda>e. io_raise (if is_OSError e then WAWRuntimeEpochError else e))"

definition suppress_OSError :: "unit io \<Rightarrow> unit io" where
  "suppress_OSError a = io_catch a (\<lambda>e. if is_OSError e then io_return () else io_raise e)"

definition sys :: "(answer \<Rightarrow> 'a io) \<Rightarrow> 'a io" where
  "sys f m =
     (case mc_answers m of
        [] \<Rightarrow> f Done m
      | a # rest \<Rightarrow> let m' = m\<lparr>mc_answers := rest\<rparr> in
          case a of Stops \<Rightarrow> (Halted, m') | Fails \<Rightarrow> (Exn OSError, m') | _ \<Rightarrow> f a m')"

definition epoch_json :: pystr where
  "epoch_json = lit ''epoch.json''"

definition stat_directory :: "Stat io" where
  "stat_directory = sys (\<lambda>a m. (Ret (case a of Sees st \<Rightarrow> st | _ \<Rightarrow> mc_dir_stat m), m))"

definition plain_call :: "unit io" where
  "plain_call = sys (\<lambda>_. io_return ())"

definition set_names :: "names \<Rightarrow> Disk \<Rightarrow> Disk" where
  "set_names v d = d\<lparr>dk_names := v, dk_versions := dk_versions d @ [v]\<rparr>"

definition open_file :: "pystr \<Rightarrow> nat io" where
  "open_file name = sys (\<lambda>_ m.
     case dk_names (mc_disk m) name of
       None \<Rightarrow> (Exn FileNotFoundError, m)
     | Some i \<Rightarrow> (case dk_inodes (mc_disk m) i of
          None \<Rightarrow> (Exn OSError, m)
        | Some nd \<Rightarrow> if in_kind nd = S_LNK then (Exn OSError, m) else (Ret i, m)))"

definition create_file :: "pystr \<Rightarrow> nat io" where
  "create_file name = sys (\<lambda>_ m.
     let d = mc_disk m; i = dk_next d;
         nd = \<lparr>in_kind = S_REG, in_uid = mc_new_uid m, in_gid = mc_new_gid m, in_imode = mc_new_imode m,
               in_data = [], in_synced = False\<rparr> in
     if dk_names d name \<noteq> None then (Exn OSError, m)
     else (Ret i, m\<lparr>mc_disk := set_names ((dk_names d)(name \<mapsto> i)) d
                      \<lparr>dk_inodes := (dk_inodes d)(i \<mapsto> nd), dk_next := Suc i\<rparr>\<rparr>))"

definition fstat_file :: "nat \<Rightarrow> Inode io" where
  "fstat_file i = sys (\<lambda>_ m. case dk_inodes (mc_disk m) i of None \<Rightarrow> (Exn OSError, m) | Some nd \<Rightarrow> (Ret nd, m))"

text \<open>\<open>os.read\<close> at an offset: at most \<open>n\<close> bytes, at least one while there are any; \<open>os.write\<close> at the end.\<close>

definition read_file :: "nat \<Rightarrow> nat \<Rightarrow> nat \<Rightarrow> bytes io" where
  "read_file i off n = sys (\<lambda>a m.
     case dk_inodes (mc_disk m) i of
       None \<Rightarrow> (Exn OSError, m)
     | Some nd \<Rightarrow> (Ret (take (case a of Counts k \<Rightarrow> min n (max 1 k) | _ \<Rightarrow> n) (drop off (in_data nd))), m))"

definition update_file :: "nat \<Rightarrow> (Inode \<Rightarrow> Inode) \<Rightarrow> Disk \<Rightarrow> Disk" where
  "update_file i f d = d\<lparr>dk_inodes := (dk_inodes d)(i := map_option f (dk_inodes d i))\<rparr>"

definition write_file :: "nat \<Rightarrow> bytes \<Rightarrow> nat io" where
  "write_file i bs = sys (\<lambda>a m.
     let n = (case a of Counts k \<Rightarrow> min k (length bs) | _ \<Rightarrow> length bs) in
     (Ret n, m\<lparr>mc_disk := update_file i (\<lambda>nd. nd\<lparr>in_data := in_data nd @ take n bs, in_synced := False\<rparr>) (mc_disk m)\<rparr>))"

definition fsync_file :: "nat \<Rightarrow> unit io" where
  "fsync_file i = sys (\<lambda>_ m. (Ret (), m\<lparr>mc_disk := update_file i (\<lambda>nd. nd\<lparr>in_synced := True\<rparr>) (mc_disk m)\<rparr>))"

definition replace_file :: "pystr \<Rightarrow> pystr \<Rightarrow> unit io" where
  "replace_file a b = sys (\<lambda>_ m.
     case dk_names (mc_disk m) a of
       None \<Rightarrow> (Exn FileNotFoundError, m)
     | Some i \<Rightarrow> (Ret (), m\<lparr>mc_disk := set_names ((dk_names (mc_disk m))(a := None, b := Some i)) (mc_disk m)\<rparr>))"

definition fsync_directory :: "unit io" where
  "fsync_directory = sys (\<lambda>_ m. (Ret (), m\<lparr>mc_disk := (mc_disk m)\<lparr>dk_versions := [dk_names (mc_disk m)]\<rparr>\<rparr>))"

definition unlink_file :: "pystr \<Rightarrow> unit io" where
  "unlink_file name = sys (\<lambda>_ m.
     if dk_names (mc_disk m) name = None then (Exn FileNotFoundError, m)
     else (Ret (), m\<lparr>mc_disk := set_names ((dk_names (mc_disk m))(name := None)) (mc_disk m)\<rparr>))"

section \<open>The store\<close>

record WAWRuntimeEpochStore =
  es_expected_uid :: int
  es_expected_gid :: int

definition WAWRuntimeEpochStore_init :: "int \<Rightarrow> int \<Rightarrow> string + WAWRuntimeEpochStore" where
  "WAWRuntimeEpochStore_init uid gid =
     (if uid < 0 then Inl ''expected_uid must be a non-negative integer''
      else if gid < 0 then Inl ''expected_gid must be a non-negative integer''
      else Inr \<lparr>es_expected_uid = uid, es_expected_gid = gid\<rparr>)"

definition EPOCH_SCHEMA :: pystr where
  "EPOCH_SCHEMA = lit ''waw-runtime-epoch-v1''"

definition EPOCH_MAX_BYTES :: nat where
  "EPOCH_MAX_BYTES = 4096"

definition MODE_700 :: nat where
  "MODE_700 = 7 * 8 ^ 2"

definition MODE_600 :: nat where
  "MODE_600 = 6 * 8 ^ 2"

definition is_decimal :: "pystr \<Rightarrow> bool" where
  "is_decimal s \<longleftrightarrow> s \<noteq> [] \<and> hd s \<noteq> 48 \<and> list_all is_digit s \<and> length s \<le> 20"

definition open_directory :: "WAWRuntimeEpochStore \<Rightarrow> unit io" where
  "open_directory st =
     io_bind (convert_OSError stat_directory) (\<lambda>details.
     if st_kind details \<noteq> S_DIR \<or> st_uid details \<noteq> es_expected_uid st \<or> st_gid details \<noteq> es_expected_gid st
        \<or> st_imode details \<noteq> MODE_700
     then io_raise WAWRuntimeEpochError
     else io_bind (convert_OSError plain_call) (\<lambda>_.
     io_catch (io_bind stat_directory (\<lambda>opened.
         if st_kind opened \<noteq> S_DIR \<or> st_dev opened \<noteq> st_dev details \<or> st_ino opened \<noteq> st_ino details
            \<or> st_uid opened \<noteq> es_expected_uid st \<or> st_gid opened \<noteq> es_expected_gid st \<or> st_imode opened \<noteq> MODE_700
         then io_raise WAWRuntimeEpochError else io_return ()))
       (\<lambda>e. io_bind plain_call (\<lambda>_. io_raise e))))"

function read_loop :: "nat \<Rightarrow> nat \<Rightarrow> nat \<Rightarrow> bytes \<Rightarrow> bytes io" where
  "read_loop i off remaining chunks m =
     (if remaining = 0 then (Ret chunks, m)
      else case read_file i off (min 1024 remaining) m of
        (Ret block, m') \<Rightarrow> if block = [] then (Ret chunks, m')
           else read_loop i (off + length block) (remaining - length block) (chunks @ block) m'
      | (Exn e, m') \<Rightarrow> (Exn e, m')
      | (Halted, m') \<Rightarrow> (Halted, m'))"
  by pat_completeness auto
termination
  by (relation "measure (\<lambda>(i, off, remaining, chunks, m). remaining)") auto

declare read_loop.simps [simp del]

definition read_bounded :: "nat \<Rightarrow> pystr io" where
  "read_bounded i =
     io_bind (read_loop i 0 (EPOCH_MAX_BYTES + 1) []) (\<lambda>raw.
     if length raw > EPOCH_MAX_BYTES then io_raise WAWRuntimeEpochError
     else case utf8_decode raw of None \<Rightarrow> io_raise WAWRuntimeEpochError | Some s \<Rightarrow> io_return s)"

definition epoch_record :: "pystr \<Rightarrow> int option" where
  "epoch_record payload =
     (case json_loads payload of
        Inr (JObj ps) \<Rightarrow>
          if set (map fst ps) \<noteq> {lit ''schema_version'', lit ''epoch''} then None
          else if map_of ps (lit ''schema_version'') \<noteq> Some (JStr EPOCH_SCHEMA) then None
          else (case map_of ps (lit ''epoch'') of
                  Some (JStr s) \<Rightarrow>
                    if \<not> is_decimal s then None
                    else let epoch = int (dec_val s) in if \<not> (1 \<le> epoch \<and> epoch \<le> MAX_U64) then None else Some epoch
                | _ \<Rightarrow> None)
      | _ \<Rightarrow> None)"

definition read_epoch :: "WAWRuntimeEpochStore \<Rightarrow> int io" where
  "read_epoch st =
     io_bind (convert_OSError (open_file epoch_json)) (\<lambda>fd.
     io_bind (io_finally (convert_OSError (io_bind (fstat_file fd) (\<lambda>details.
         if in_kind details \<noteq> S_REG \<or> in_uid details \<noteq> es_expected_uid st \<or> in_gid details \<noteq> es_expected_gid st
            \<or> in_imode details \<noteq> MODE_600 \<or> length (in_data details) > EPOCH_MAX_BYTES
         then io_raise WAWRuntimeEpochError else read_bounded fd))) plain_call) (\<lambda>payload.
     case epoch_record payload of None \<Rightarrow> io_raise WAWRuntimeEpochError | Some epoch \<Rightarrow> io_return epoch))"

function write_all :: "nat \<Rightarrow> bytes \<Rightarrow> unit io" where
  "write_all i view m =
     (if view = [] then (Ret (), m)
      else case write_file i view m of
        (Ret written, m') \<Rightarrow> if written = 0 then (Exn OSError, m') else write_all i (drop written view) m'
      | (Exn e, m') \<Rightarrow> (Exn e, m')
      | (Halted, m') \<Rightarrow> (Halted, m'))"
  by pat_completeness auto
termination
  by (relation "measure (\<lambda>(i, view, m). length view)") auto

declare write_all.simps [simp del]

definition epoch_payload :: "int \<Rightarrow> bytes" where
  "epoch_payload epoch =
     map of_nat (json_text (JObj [(lit ''epoch'', JStr (dec_str (nat epoch))), (lit ''schema_version'', JStr EPOCH_SCHEMA)]))"

definition temp_name :: "pystr \<Rightarrow> pystr" where
  "temp_name token = lit ''.epoch.'' @ token @ lit ''.tmp''"

definition replace_epoch :: "WAWRuntimeEpochStore \<Rightarrow> pystr \<Rightarrow> int \<Rightarrow> unit io" where
  "replace_epoch st token epoch =
     io_finally
       (convert_OSError
         (io_bind (create_file (temp_name token)) (\<lambda>fd.
          io_bind (io_finally
              (io_bind (write_all fd (epoch_payload epoch)) (\<lambda>_.
               io_bind (fsync_file fd) (\<lambda>_.
               io_bind (fstat_file fd) (\<lambda>details.
               if in_uid details \<noteq> es_expected_uid st \<or> in_gid details \<noteq> es_expected_gid st
               then io_raise WAWRuntimeEpochError else io_return ()))))
              plain_call) (\<lambda>_.
          io_bind (replace_file (temp_name token) epoch_json) (\<lambda>_.
          fsync_directory)))))
       (suppress_OSError (unlink_file (temp_name token)))"

text \<open>The directory opened, locked, and unlocked and closed at the end whatever happens between.\<close>

definition with_locked_directory :: "WAWRuntimeEpochStore \<Rightarrow> 'a io \<Rightarrow> 'a io" where
  "with_locked_directory st body =
     io_bind (open_directory st) (\<lambda>_.
     io_finally (io_bind (convert_OSError plain_call) (\<lambda>_. body))
       (io_bind (suppress_OSError plain_call) (\<lambda>_. plain_call)))"

definition bootstrap :: "WAWRuntimeEpochStore \<Rightarrow> pystr \<Rightarrow> int io" where
  "bootstrap st token = with_locked_directory st
     (io_try (open_file epoch_json)
       (\<lambda>e. if e = FileNotFoundError then io_bind (replace_epoch st token 1) (\<lambda>_. io_return 1)
            else if is_OSError e then io_raise WAWRuntimeEpochError else io_raise e)
       (\<lambda>fd. io_bind plain_call (\<lambda>_. io_raise WAWRuntimeEpochError)))"

definition consume :: "WAWRuntimeEpochStore \<Rightarrow> pystr \<Rightarrow> int io" where
  "consume st token = with_locked_directory st
     (io_bind (read_epoch st) (\<lambda>current.
      if current = MAX_U64 then io_raise WAWRuntimeEpochError
      else io_bind (replace_epoch st token (current + 1)) (\<lambda>_. io_return (current + 1))))"

text \<open>The callbacks build and check a value in memory; an exception of theirs is a number.\<close>

definition run_callback :: "nat + 'a \<Rightarrow> 'a io" where
  "run_callback r = (case r of Inl n \<Rightarrow> io_raise (CallbackError n) | Inr x \<Rightarrow> io_return x)"

definition consume_prepared ::
  "WAWRuntimeEpochStore \<Rightarrow> pystr \<Rightarrow> (pystr \<Rightarrow> nat + 'a) \<Rightarrow> ('a \<Rightarrow> pystr \<Rightarrow> nat + unit) \<Rightarrow> (int \<times> 'a) io" where
  "consume_prepared st token prepare validate = with_locked_directory st
     (io_bind (read_epoch st) (\<lambda>current.
      if current = MAX_U64 then io_raise WAWRuntimeEpochError
      else let text_epoch = dec_str (nat (current + 1)) in
        io_bind (run_callback (prepare text_epoch)) (\<lambda>prepared.
        io_bind (run_callback (validate prepared text_epoch)) (\<lambda>_.
        io_bind (replace_epoch st token (current + 1)) (\<lambda>_.
        io_return (current + 1, prepared))))))"

section \<open>Reasoning about calls\<close>

text \<open>\<open>hoare P a Q E\<close>: from a disk with \<open>P\<close>, under every script of answers, a return ends with \<open>Q\<close> and an
  exception or a stop with \<open>E\<close>.\<close>

definition hoare :: "(Disk \<Rightarrow> bool) \<Rightarrow> 'a io \<Rightarrow> ('a \<Rightarrow> Disk \<Rightarrow> bool) \<Rightarrow> (Disk \<Rightarrow> bool) \<Rightarrow> bool" where
  "hoare P a Q E \<longleftrightarrow> (\<forall>m. P (mc_disk m) \<longrightarrow>
     (case a m of (Ret x, m') \<Rightarrow> Q x (mc_disk m') | (_, m') \<Rightarrow> E (mc_disk m')))"

lemma hoare_return [intro]: "hoare (Q x) (io_return x) Q E"
  by (simp add: hoare_def io_return_def)

lemma hoare_raise [intro]: "hoare E (io_raise e) Q E"
  by (simp add: hoare_def io_raise_def)

lemma hoare_conseq:
  assumes "hoare P a Q E" "\<And>d. P' d \<Longrightarrow> P d" "\<And>x d. Q x d \<Longrightarrow> Q' x d" "\<And>d. E d \<Longrightarrow> E' d"
  shows "hoare P' a Q' E'"
  unfolding hoare_def
proof (intro allI impI)
  fix m :: Machine assume p: "P' (mc_disk m)"
  have "case a m of (Ret x, m') \<Rightarrow> Q x (mc_disk m') | (_, m') \<Rightarrow> E (mc_disk m')"
    using assms(1) [unfolded hoare_def, rule_format, OF assms(2) [OF p]] .
  then show "case a m of (Ret x, m') \<Rightarrow> Q' x (mc_disk m') | (_, m') \<Rightarrow> E' (mc_disk m')"
    using assms(3,4) by (auto split: prod.splits outcome.splits)
qed

lemma hoare_try:
  assumes "hoare P a R F" "\<And>x. hoare (R x) (k x) Q E" "\<And>e. hoare F (h e) Q E" "\<And>d. F d \<Longrightarrow> E d"
  shows "hoare P (io_try a h k) Q E"
  unfolding hoare_def
proof (intro allI impI)
  fix m :: Machine assume p: "P (mc_disk m)"
  obtain r m' where r: "a m = (r, m')" by fastforce
  have post: "case (r, m') of (Ret x, m') \<Rightarrow> R x (mc_disk m') | (_, m') \<Rightarrow> F (mc_disk m')"
    using assms(1) [unfolded hoare_def, rule_format, OF p] r by simp
  show "case io_try a h k m of (Ret x, m') \<Rightarrow> Q x (mc_disk m') | (_, m') \<Rightarrow> E (mc_disk m')"
  proof (cases r)
    case (Ret x)
    then show ?thesis using post r assms(2) [unfolded hoare_def, rule_format, of x m'] by (simp add: io_try_def)
  next
    case (Exn e)
    then show ?thesis using post r assms(3) [unfolded hoare_def, rule_format, of m' e] by (simp add: io_try_def)
  next
    case Halted
    then show ?thesis using post r assms(4) by (simp add: io_try_def)
  qed
qed

lemma hoare_bind:
  "hoare P a R E \<Longrightarrow> (\<And>x. hoare (R x) (k x) Q E) \<Longrightarrow> hoare P (io_bind a k) Q E"
  unfolding io_bind_def by (rule hoare_try [OF _ _ hoare_raise])

lemma hoare_finally:
  "hoare P a Q F \<Longrightarrow> (\<And>x. hoare (Q x) g (\<lambda>_. R x) E) \<Longrightarrow> hoare F g (\<lambda>_. E) E \<Longrightarrow> (\<And>d. F d \<Longrightarrow> E d) \<Longrightarrow>
     hoare P (io_finally a g) R E"
  unfolding io_finally_def
  by (rule hoare_try [where R = Q and F = F]) (auto intro: hoare_bind)

lemma hoare_convert: "hoare P a Q E \<Longrightarrow> hoare P (convert_OSError a) Q E"
  unfolding convert_OSError_def io_catch_def by (rule hoare_try [OF _ hoare_return hoare_raise])

lemma hoare_sys:
  assumes "\<And>a (m :: Machine). P (mc_disk m) \<Longrightarrow> (case f a m of (Ret x, m') \<Rightarrow> Q x (mc_disk m') | (_, m') \<Rightarrow> E (mc_disk m'))"
    "\<And>d. P d \<Longrightarrow> E d"
  shows "hoare P (sys f) Q E"
  unfolding hoare_def sys_def using assms by (auto simp: Let_def split: list.splits answer.splits)

lemma write_all_unfold:
  "write_all i view = (if view = [] then io_return () else io_bind (write_file i view)
     (\<lambda>n. if n = 0 then io_raise OSError else write_all i (drop n view)))"
  by (rule ext, subst write_all.simps)
     (auto simp: io_bind_def io_try_def io_return_def io_raise_def split: prod.splits outcome.splits)

lemma read_loop_unfold:
  "read_loop i off n ch = (if n = 0 then io_return ch else io_bind (read_file i off (min 1024 n))
     (\<lambda>block. if block = [] then io_return ch else read_loop i (off + length block) (n - length block) (ch @ block)))"
  by (rule ext, subst read_loop.simps)
     (auto simp: io_bind_def io_try_def io_return_def io_raise_def split: prod.splits outcome.splits)

section \<open>The safe disk\<close>

definition epoch_of :: "bytes \<Rightarrow> int option" where
  "epoch_of bs = (if length bs > EPOCH_MAX_BYTES then None else Option.bind (utf8_decode bs) epoch_record)"

definition current_epoch :: "Disk \<Rightarrow> int option" where
  "current_epoch d =
     Option.bind (Option.bind (dk_names d epoch_json) (dk_inodes d)) (\<lambda>nd. epoch_of (in_data nd))"

text \<open>The epoch file of a directory content a power loss may restore is on the medium, and what it reads
  as is below no epoch handed out; once one was handed out it is readable.\<close>

definition entry_ok :: "int list \<Rightarrow> Disk \<Rightarrow> names \<Rightarrow> bool" where
  "entry_ok issued d v \<longleftrightarrow>
     (case v epoch_json of
        None \<Rightarrow> issued = []
      | Some i \<Rightarrow> i < dk_next d \<and> (\<exists>nd. dk_inodes d i = Some nd \<and> in_synced nd
          \<and> (issued \<noteq> [] \<longrightarrow> epoch_of (in_data nd) \<noteq> None)
          \<and> (\<forall>n. epoch_of (in_data nd) = Some n \<longrightarrow> (\<forall>k\<in>set issued. k \<le> n))))"

definition safe :: "int list \<Rightarrow> Disk \<Rightarrow> bool" where
  "safe issued d \<longleftrightarrow> dk_names d \<in> set (dk_versions d) \<and> (\<forall>v\<in>set (dk_versions d). entry_ok issued d v)"

definition settled :: "int \<Rightarrow> Disk \<Rightarrow> bool" where
  "settled n d \<longleftrightarrow> dk_names d \<in> set (dk_versions d)
     \<and> (\<forall>v\<in>set (dk_versions d). \<exists>i nd. v epoch_json = Some i \<and> i < dk_next d \<and> dk_inodes d i = Some nd
          \<and> in_synced nd \<and> epoch_of (in_data nd) = Some n)"

definition tmp_file :: "int list \<Rightarrow> int option \<Rightarrow> pystr \<Rightarrow> nat \<Rightarrow> bytes \<Rightarrow> bool \<Rightarrow> Disk \<Rightarrow> bool" where
  "tmp_file issued c t i bs synced d \<longleftrightarrow> safe issued d \<and> current_epoch d = c \<and> i < dk_next d
     \<and> (\<forall>v\<in>set (dk_versions d). v epoch_json \<noteq> Some i) \<and> dk_names d t = Some i
     \<and> (\<exists>nd. dk_inodes d i = Some nd \<and> in_data nd = bs \<and> (synced \<longrightarrow> in_synced nd))"

lemma temp_name_neq [simp]: "temp_name t \<noteq> epoch_json" "epoch_json \<noteq> temp_name t"
  by (simp_all add: temp_name_def epoch_json_def lit_def)

lemma safe_names: "safe issued d \<Longrightarrow> entry_ok issued d (dk_names d)"
  by (simp add: safe_def)

text \<open>Names other than the epoch file's, and files that are not bound to it, do not matter.\<close>

lemma set_names_keeps:
  assumes "v epoch_json = dk_names d epoch_json"
  shows "safe ks d \<Longrightarrow> safe ks (set_names v d)" "settled n d \<Longrightarrow> settled n (set_names v d)"
    "current_epoch (set_names v d) = current_epoch d"
proof -
  assume "safe ks d"
  moreover have "entry_ok ks (set_names v d) w" if "w epoch_json = w' epoch_json" "entry_ok ks d w'" for w w'
    using that by (auto simp: entry_ok_def set_names_def split: option.splits)
  ultimately show "safe ks (set_names v d)"
    using assms by (auto simp: safe_def set_names_def)
next
  show "settled n d \<Longrightarrow> settled n (set_names v d)" using assms by (auto simp: settled_def set_names_def)
  show "current_epoch (set_names v d) = current_epoch d" using assms by (simp add: current_epoch_def set_names_def)
qed

lemma set_inode_keeps:
  assumes "safe ks d" "\<And>v. v \<in> set (dk_versions d) \<Longrightarrow> v epoch_json \<noteq> Some i" "dk_next d \<le> k"
  shows "safe ks (d\<lparr>dk_inodes := (dk_inodes d)(i := x), dk_next := k\<rparr>)"
    "current_epoch (d\<lparr>dk_inodes := (dk_inodes d)(i := x), dk_next := k\<rparr>) = current_epoch d"
proof -
  have "entry_ok ks (d\<lparr>dk_inodes := (dk_inodes d)(i := x), dk_next := k\<rparr>) v"
    if "v \<in> set (dk_versions d)" for v
  proof -
    have "entry_ok ks d v" using assms(1) that by (simp add: safe_def)
    then show ?thesis using assms(3) assms(2) [OF that] by (auto simp: entry_ok_def split: option.splits)
  qed
  then show "safe ks (d\<lparr>dk_inodes := (dk_inodes d)(i := x), dk_next := k\<rparr>)"
    using assms(1) by (simp add: safe_def)
  have "dk_names d epoch_json \<noteq> Some i" using assms(1,2) by (simp add: safe_def)
  then show "current_epoch (d\<lparr>dk_inodes := (dk_inodes d)(i := x), dk_next := k\<rparr>) = current_epoch d"
    by (cases "dk_names d epoch_json") (auto simp: current_epoch_def)
qed

lemma safe_fresh: "safe ks d \<Longrightarrow> v \<in> set (dk_versions d) \<Longrightarrow> v epoch_json \<noteq> Some (dk_next d)"
  by (auto simp: safe_def entry_ok_def)

lemma create_hoare:
  "hoare (\<lambda>d. safe ks d \<and> current_epoch d = c) (create_file (temp_name t)) (\<lambda>i. tmp_file ks c (temp_name t) i [] False)
     (\<lambda>d. safe ks d \<and> current_epoch d = c)"
  unfolding create_file_def
proof (rule hoare_sys)
  fix a :: answer and m :: Machine
  assume pre: "safe ks (mc_disk m) \<and> current_epoch (mc_disk m) = c"
  define d where "d = mc_disk m"
  define v where "v = (dk_names d)(temp_name t \<mapsto> dk_next d)"
  have v: "v epoch_json = dk_names d epoch_json" by (simp add: v_def)
  have s: "safe ks (set_names v d)" "current_epoch (set_names v d) = c"
    using set_names_keeps(1) [of v d ks] set_names_keeps(3) [of v d] v pre by (simp_all add: d_def)
  have fresh: "w epoch_json \<noteq> Some (dk_next d)" if "w \<in> set (dk_versions (set_names v d))" for w
    using safe_fresh [OF s(1) that] by (simp add: set_names_def)
  have "tmp_file ks c (temp_name t) (dk_next d) []
      False ((set_names v d)\<lparr>dk_inodes := (dk_inodes (set_names v d))(dk_next d := Some nd), dk_next := Suc (dk_next d)\<rparr>)"
    if "in_data nd = []" for nd
    unfolding tmp_file_def using set_inode_keeps [of ks "set_names v d" "dk_next d" "Suc (dk_next d)" "Some nd"] s fresh that
    by (auto simp: set_names_def v_def)
  then show "case (let d = mc_disk m; i = dk_next d;
         nd = \<lparr>in_kind = S_REG, in_uid = mc_new_uid m, in_gid = mc_new_gid m, in_imode = mc_new_imode m,
               in_data = [], in_synced = False\<rparr> in
     if dk_names d (temp_name t) \<noteq> None then (Exn OSError, m)
     else (Ret i, m\<lparr>mc_disk := (set_names ((dk_names d)(temp_name t \<mapsto> i)) d)
                      \<lparr>dk_inodes := (dk_inodes d)(i \<mapsto> nd), dk_next := Suc i\<rparr>\<rparr>)) of
     (Ret i, m') \<Rightarrow> tmp_file ks c (temp_name t) i [] False (mc_disk m')
   | (_, m') \<Rightarrow> safe ks (mc_disk m') \<and> current_epoch (mc_disk m') = c"
    using pre by (simp add: Let_def d_def v_def) (simp add: set_names_def)
qed simp

lemma update_tmp:
  assumes "tmp_file ks c t i bs s d" "\<And>nd. in_data nd = bs \<Longrightarrow> in_data (f nd) = bs'" "\<And>nd. s' \<Longrightarrow> in_synced (f nd)"
  shows "tmp_file ks c t i bs' s' (update_file i f d)"
proof -
  have e: "update_file i f d = d\<lparr>dk_inodes := (dk_inodes d)(i := map_option f (dk_inodes d i)), dk_next := dk_next d\<rparr>"
    by (simp add: update_file_def)
  have "safe ks d" "\<And>v. v \<in> set (dk_versions d) \<Longrightarrow> v epoch_json \<noteq> Some i" using assms(1) by (auto simp: tmp_file_def)
  then have k: "safe ks (update_file i f d)" "current_epoch (update_file i f d) = current_epoch d"
    unfolding e using set_inode_keeps [of ks d i "dk_next d"] by blast+
  show ?thesis using k assms unfolding tmp_file_def by (auto simp: e)
qed

lemma tmp_safe: "tmp_file ks c t i bs s d \<Longrightarrow> safe ks d \<and> current_epoch d = c"
  by (simp add: tmp_file_def)

lemma write_hoare:
  "hoare (tmp_file ks c t i bs False) (write_all i view) (\<lambda>_. tmp_file ks c t i (bs @ view) False)
     (\<lambda>d. safe ks d \<and> current_epoch d = c)"
proof (induction view arbitrary: bs rule: length_induct)
  case (1 view)
  have w: "hoare (tmp_file ks c t i bs False) (write_file i view) (\<lambda>n. tmp_file ks c t i (bs @ take n view) False)
     (\<lambda>d. safe ks d \<and> current_epoch d = c)"
    unfolding write_file_def
    by (rule hoare_sys) (auto simp: Let_def intro: update_tmp dest: tmp_safe)
  note wr = write_all_unfold [of i view]
  have step: "hoare (tmp_file ks c t i (bs @ take n view) False) (if n = 0 then io_raise OSError else write_all i (drop n view))
     (\<lambda>_. tmp_file ks c t i (bs @ view) False) (\<lambda>d. safe ks d \<and> current_epoch d = c)" if "view \<noteq> []" for n
  proof (cases "n = 0")
    case True
    then show ?thesis by (auto intro: hoare_conseq [OF hoare_raise] dest: tmp_safe)
  next
    case False
    then have "hoare (tmp_file ks c t i (bs @ take n view) False) (write_all i (drop n view))
      (\<lambda>_. tmp_file ks c t i ((bs @ take n view) @ drop n view) False) (\<lambda>d. safe ks d \<and> current_epoch d = c)"
      using 1 [rule_format, of "drop n view" "bs @ take n view"] that by simp
    then show ?thesis using False by simp
  qed
  show ?case
    unfolding wr using hoare_return [of "\<lambda>_. tmp_file ks c t i bs False"] hoare_bind [OF w step]
    by (cases "view = []") simp_all
qed

lemma fsync_hoare:
  "hoare (tmp_file ks c t i bs False) (fsync_file i) (\<lambda>_. tmp_file ks c t i bs True) (\<lambda>d. safe ks d \<and> current_epoch d = c)"
  unfolding fsync_file_def by (rule hoare_sys) (auto intro: update_tmp dest: tmp_safe)

lemma fstat_hoare:
  "(\<And>d. P d \<Longrightarrow> E d) \<Longrightarrow> hoare P (fstat_file i) (\<lambda>_. P) E"
  unfolding fstat_file_def by (rule hoare_sys) (auto split: option.splits)

lemma plain_hoare: "(\<And>d. P d \<Longrightarrow> E d) \<Longrightarrow> hoare P plain_call (\<lambda>_. P) E"
  unfolding plain_call_def by (rule hoare_sys) (auto simp: io_return_def)

text \<open>After the rename: the new file is the epoch file, and the old one may still come back.\<close>

definition renamed :: "int list \<Rightarrow> int \<Rightarrow> Disk \<Rightarrow> bool" where
  "renamed ks n d \<longleftrightarrow> safe ks d \<and> current_epoch d = Some n \<and> (\<exists>i nd. dk_names d epoch_json = Some i \<and> i < dk_next d
     \<and> dk_inodes d i = Some nd \<and> in_synced nd \<and> epoch_of (in_data nd) = Some n)"

lemma replace_hoare:
  assumes "epoch_of bs = Some n" "\<forall>k\<in>set ks. k \<le> n"
  shows "hoare (tmp_file ks c (temp_name t) i bs True) (replace_file (temp_name t) epoch_json) (\<lambda>_. renamed ks n)
     (\<lambda>d. safe ks d \<and> current_epoch d = c)"
  unfolding replace_file_def
proof (rule hoare_sys)
  fix a :: answer and m :: Machine
  assume pre: "tmp_file ks c (temp_name t) i bs True (mc_disk m)"
  define d where "d = mc_disk m"
  define v where "v = (dk_names d)(temp_name t := None, epoch_json := Some i)"
  obtain nd where nd: "dk_inodes d i = Some nd" "in_data nd = bs" "in_synced nd" "i < dk_next d"
    using pre by (auto simp: tmp_file_def d_def)
  have old: "entry_ok ks (set_names v d) w" if "w \<in> set (dk_versions d)" for w
  proof -
    have "entry_ok ks d w" using pre that by (simp add: tmp_file_def safe_def d_def)
    then show ?thesis by (auto simp: entry_ok_def set_names_def split: option.splits)
  qed
  have "entry_ok ks (set_names v d) v" using nd assms by (simp add: entry_ok_def v_def set_names_def)
  with old have "safe ks (set_names v d)" by (auto simp: safe_def set_names_def)
  then have "renamed ks n (set_names v d)"
    using nd assms(1) by (auto simp: renamed_def current_epoch_def set_names_def v_def)
  moreover have "dk_names (mc_disk m) (temp_name t) = Some i" using pre by (simp add: tmp_file_def)
  ultimately show "case (case dk_names (mc_disk m) (temp_name t) of None \<Rightarrow> (Exn FileNotFoundError, m)
      | Some i \<Rightarrow> (Ret (), m\<lparr>mc_disk := set_names ((dk_names (mc_disk m))(temp_name t := None, epoch_json := Some i)) (mc_disk m)\<rparr>)) of
      (Ret x, m') \<Rightarrow> renamed ks n (mc_disk m') | (_, m') \<Rightarrow> safe ks (mc_disk m') \<and> current_epoch (mc_disk m') = c"
    by (simp add: d_def v_def)
qed (rule tmp_safe)

lemma fsync_directory_hoare: "hoare (renamed ks n) fsync_directory (\<lambda>_ d. settled n d \<and> current_epoch d = Some n) (renamed ks n)"
  unfolding fsync_directory_def
  by (rule hoare_sys) (auto simp: renamed_def settled_def current_epoch_def)

lemma hoare_suppress:
  "hoare P a (\<lambda>_. Q) F \<Longrightarrow> (\<And>d. F d \<Longrightarrow> Q d) \<Longrightarrow> (\<And>d. F d \<Longrightarrow> E d) \<Longrightarrow> hoare P (suppress_OSError a) (\<lambda>_. Q) E"
  unfolding suppress_OSError_def io_catch_def
  by (rule hoare_try [where R = "\<lambda>_. Q" and F = F])
     (auto intro: hoare_conseq [OF hoare_raise] hoare_conseq [OF hoare_return [of "\<lambda>_. Q"]])

lemma unlink_hoare:
  assumes "\<And>d v. P d \<Longrightarrow> v epoch_json = dk_names d epoch_json \<Longrightarrow> P (set_names v d)" "\<And>d. P d \<Longrightarrow> E d"
  shows "hoare P (suppress_OSError (unlink_file (temp_name t))) (\<lambda>_. P) E"
proof (rule hoare_suppress)
  show "hoare P (unlink_file (temp_name t)) (\<lambda>_. P) P"
    unfolding unlink_file_def by (rule hoare_sys) (auto intro: assms(1))
qed (auto intro: assms(2))

lemma settled_safe: "settled n d \<Longrightarrow> \<forall>k\<in>set ks. k \<le> n \<Longrightarrow> safe ks d"
  by (fastforce simp: settled_def safe_def entry_ok_def)

lemma write_temp_hoare:
  "hoare (tmp_file ks c t fd [] False)
     (io_finally (io_bind (write_all fd bs) (\<lambda>_. io_bind (fsync_file fd) (\<lambda>_. io_bind (fstat_file fd) (\<lambda>details.
        if P details then io_raise WAWRuntimeEpochError else io_return ())))) plain_call)
     (\<lambda>_. tmp_file ks c t fd bs True) (\<lambda>d. safe ks d \<and> current_epoch d = c)"
proof (rule hoare_finally [where Q = "\<lambda>_. tmp_file ks c t fd bs True" and F = "\<lambda>d. safe ks d \<and> current_epoch d = c"])
  have chk: "hoare (tmp_file ks c t fd bs True) (if P details then io_raise WAWRuntimeEpochError else io_return ())
     (\<lambda>_. tmp_file ks c t fd bs True) (\<lambda>d. safe ks d \<and> current_epoch d = c)" for details
    by (auto intro: hoare_conseq [OF hoare_raise] hoare_return [of "\<lambda>_. tmp_file ks c t fd bs True"] dest: tmp_safe)
  have w: "hoare (tmp_file ks c t fd [] False) (write_all fd bs) (\<lambda>_. tmp_file ks c t fd bs False)
      (\<lambda>d. safe ks d \<and> current_epoch d = c)" using write_hoare [of ks c t fd "[]" bs] by simp
  show "hoare (tmp_file ks c t fd [] False)
     (io_bind (write_all fd bs) (\<lambda>_. io_bind (fsync_file fd) (\<lambda>_. io_bind (fstat_file fd) (\<lambda>details.
        if P details then io_raise WAWRuntimeEpochError else io_return ()))))
     (\<lambda>_. tmp_file ks c t fd bs True) (\<lambda>d. safe ks d \<and> current_epoch d = c)"
    by (rule hoare_bind [OF w hoare_bind [OF fsync_hoare hoare_bind [OF fstat_hoare chk]]]) (rule tmp_safe)
qed (auto intro: plain_hoare dest: tmp_safe)

lemma replace_epoch_hoare:
  assumes "epoch_of (epoch_payload n) = Some n" "\<forall>k\<in>set ks. k \<le> n"
  shows "hoare (\<lambda>d. safe ks d \<and> current_epoch d = c) (replace_epoch st t n)
     (\<lambda>_ d. settled n d \<and> current_epoch d = Some n) (\<lambda>d. safe ks d \<and> current_epoch d \<in> {c, Some n})"
proof -
  let ?E = "\<lambda>d. safe ks d \<and> current_epoch d \<in> {c, Some n}"
  have weak: "hoare P a Q ?E" if "hoare P a Q (\<lambda>d. safe ks d \<and> current_epoch d = c)" for P Q and a :: "'b io"
    by (rule hoare_conseq [OF that]) auto
  have fd: "hoare (renamed ks n) fsync_directory (\<lambda>_ d. settled n d \<and> current_epoch d = Some n) ?E"
    by (rule hoare_conseq [OF fsync_directory_hoare]) (auto simp: renamed_def)
  have u1: "hoare (\<lambda>d. settled n d \<and> current_epoch d = Some n) (suppress_OSError (unlink_file (temp_name t)))
       (\<lambda>_ d. settled n d \<and> current_epoch d = Some n) ?E"
    using assms(2) by (intro unlink_hoare) (auto simp: set_names_keeps settled_safe)
  have u2: "hoare ?E (suppress_OSError (unlink_file (temp_name t))) (\<lambda>_. ?E) ?E"
    by (intro unlink_hoare) (auto simp: set_names_keeps)
  show ?thesis
    unfolding replace_epoch_def
    by (rule hoare_finally [OF hoare_convert [OF hoare_bind [OF weak [OF create_hoare] hoare_bind [OF weak [OF write_temp_hoare]
         hoare_bind [OF weak [OF replace_hoare [OF assms]] fd]]]] u1 u2])
qed

lemma dec_str_length: "n < 10 ^ Suc k \<Longrightarrow> length (dec_str n) \<le> Suc k"
proof (induction k arbitrary: n)
  case (Suc k)
  then have "n div 10 < 10 ^ Suc k" by (simp add: less_mult_imp_div_less)
  from Suc.IH [OF this] show ?case by (subst dec_str.simps) simp
qed (subst dec_str.simps, simp)

lemma decimal_dec_str:
  assumes "0 < n" "n \<le> 18446744073709551615"
  shows "is_decimal (dec_str n)"
proof -
  have "length (dec_str n) \<le> Suc 19" using assms(2) by (intro dec_str_length) simp
  then show ?thesis using hd_dec_str_zero [of n] assms(1) dec_str_digits [of n] by (auto simp: is_decimal_def)
qed

lemma ascii_utf8: "list_all (\<lambda>c. c < 128) s \<Longrightarrow> utf8_decode (map of_nat s) = Some s"
proof -
  assume a: "list_all (\<lambda>c. c < 128) s"
  then have "concat (map utf8_char s) = map of_nat s"
    by (induction s) (auto simp: utf8_char_def)
  moreover have "list_all is_scalar s" using a by (auto simp: list_all_iff is_scalar_def is_surrogate_def)
  ultimately have "utf8_encode s = Some (map of_nat s)" by (simp add: utf8_encode_def)
  then show ?thesis by (rule utf8_decode_encode)
qed

lemma json_string_plain: "list_all (\<lambda>c. 32 \<le> c \<and> c \<noteq> 34 \<and> c \<noteq> 92) s \<Longrightarrow> json_string s = [34] @ s @ [34]"
proof -
  assume "list_all (\<lambda>c. 32 \<le> c \<and> c \<noteq> 34 \<and> c \<noteq> 92) s"
  then have "concat (map json_escape s) = s" by (induction s) (auto simp: json_escape_def)
  then show ?thesis by (simp add: json_string_def)
qed

lemma payload_reads_back:
  assumes "1 \<le> n" "n \<le> MAX_U64"
  shows "epoch_of (epoch_payload n) = Some n"
proof -
  let ?j = "JObj [(lit ''epoch'', JStr (dec_str (nat n))), (lit ''schema_version'', JStr EPOCH_SCHEMA)]"
  have n: "0 < nat n" "nat n \<le> 18446744073709551615" using assms by (simp_all add: MAX_U64_eval)
  note dec = decimal_dec_str [OF n]
  have "list_all (\<lambda>c. 32 \<le> c \<and> c \<noteq> 34 \<and> c \<noteq> 92) (dec_str (nat n))"
    using dec_str_digits [of "nat n"] by (auto simp: list_all_iff is_digit_def)
  note str = json_string_plain [OF this]
  have t: "json_text ?j = [123, 34, 101, 112, 111, 99, 104, 34, 58, 34] @ dec_str (nat n) @ [34, 44]
      @ json_string (lit ''schema_version'') @ [58] @ json_string EPOCH_SCHEMA @ [125]"
    by (simp add: str pair_text_def) (simp add: json_string_def json_escape_def lit_def)
  have k: "list_all (\<lambda>c. c < 128) (json_string (lit ''schema_version'') @ [58] @ json_string EPOCH_SCHEMA @ [125])"
    "length (json_string (lit ''schema_version'') @ [58] @ json_string EPOCH_SCHEMA @ [125]) \<le> 100"
    by (simp_all add: json_string_def json_escape_def lit_def EPOCH_SCHEMA_def)
  have "list_all (\<lambda>c. c < 128) (json_text ?j)"
    using k(1) dec_str_digits [of "nat n"] unfolding t by (auto simp: list_all_iff is_digit_def)
  then have u: "utf8_decode (epoch_payload n) = Some (json_text ?j)"
    unfolding epoch_payload_def by (rule ascii_utf8)
  have "length (json_text ?j) \<le> 4096" using k(2) dec unfolding t by (simp add: is_decimal_def)
  then have l: "length (epoch_payload n) \<le> EPOCH_MAX_BYTES" by (simp add: epoch_payload_def EPOCH_MAX_BYTES_def)
  have ne: "lit ''epoch'' \<noteq> lit ''schema_version''" by (simp add: lit_def)
  then have "json_loads (json_text ?j) = Inr ?j" by (intro json_loads_text) simp
  then have "epoch_record (json_text ?j) = Some n"
    using ne dec assms by (auto simp: epoch_record_def insert_commute)
  then show ?thesis using u l by (simp add: epoch_of_def)
qed

section \<open>Reading\<close>

lemma read_file_hoare:
  assumes "dk_inodes D i = Some nd" "0 < n"
  shows "hoare (\<lambda>d. d = D) (read_file i off n)
     (\<lambda>block d. d = D \<and> (\<exists>l. 0 < l \<and> l \<le> n \<and> block = take l (drop off (in_data nd)))) (\<lambda>d. d = D)"
  unfolding read_file_def
proof (rule hoare_sys)
  fix a :: answer and m :: Machine
  assume "mc_disk m = D"
  moreover have "\<exists>l. 0 < l \<and> l \<le> n \<and> take (case a of Counts k \<Rightarrow> min n (max 1 k) | _ \<Rightarrow> n) (drop off (in_data nd))
      = take l (drop off (in_data nd))"
    using assms(2) by (intro exI [of _ "case a of Counts k \<Rightarrow> min n (max 1 k) | _ \<Rightarrow> n"]) (auto split: answer.splits)
  ultimately show "case (case dk_inodes (mc_disk m) i of None \<Rightarrow> (Exn OSError, m)
     | Some nd \<Rightarrow> (Ret (take (case a of Counts k \<Rightarrow> min n (max 1 k) | _ \<Rightarrow> n) (drop off (in_data nd))), m)) of
      (Ret block, m') \<Rightarrow> mc_disk m' = D \<and> (\<exists>l. 0 < l \<and> l \<le> n \<and> block = take l (drop off (in_data nd)))
    | (_, m') \<Rightarrow> mc_disk m' = D"
    using assms(1) by simp
qed

lemma read_loop_hoare:
  assumes "dk_inodes D i = Some nd"
  shows "hoare (\<lambda>d. d = D) (read_loop i off n ch) (\<lambda>bs d. d = D \<and> bs = ch @ take n (drop off (in_data nd))) (\<lambda>d. d = D)"
proof (induction n arbitrary: off ch rule: less_induct)
  case (less n)
  let ?Q = "\<lambda>bs d. d = D \<and> bs = ch @ take n (drop off (in_data nd))"
  note rd = read_loop_unfold [of i off n ch]
  have step: "hoare (\<lambda>d. d = D \<and> (\<exists>l. 0 < l \<and> l \<le> min 1024 n \<and> block = take l (drop off (in_data nd))))
     (if block = [] then io_return ch else read_loop i (off + length block) (n - length block) (ch @ block)) ?Q (\<lambda>d. d = D)"
    if "0 < n" for block
  proof (cases "\<exists>l. 0 < l \<and> l \<le> min 1024 n \<and> block = take l (drop off (in_data nd))")
    case True
    then obtain l where l: "0 < l" "l \<le> n" "block = take l (drop off (in_data nd))" by auto
    show ?thesis
    proof (cases "block = []")
      case True
      then have "drop off (in_data nd) = []" using l by simp
      then show ?thesis using True by (auto intro: hoare_conseq [OF hoare_return [of ?Q]])
    next
      case False
      let ?k = "length block"
      have "block @ take (n - ?k) (drop (off + ?k) (in_data nd)) = take n (drop off (in_data nd))"
      proof -
        have b: "block = take ?k (drop off (in_data nd))"
          using l by (cases "l \<le> length (in_data nd) - off") (simp_all add: min_def)
        have "take n (drop off (in_data nd)) = take ?k (drop off (in_data nd)) @ take (n - ?k) (drop ?k (drop off (in_data nd)))"
          using l take_add [of ?k "n - ?k" "drop off (in_data nd)"] by simp
        then show ?thesis using b by (simp add: add.commute)
      qed
      then have q: "?Q = (\<lambda>bs d. d = D \<and> bs = (ch @ block) @ take (n - ?k) (drop (off + ?k) (in_data nd)))"
        by (simp add: fun_eq_iff)
      have "n - ?k < n" using False that by (cases block) auto
      from less.IH [OF this, of "off + ?k" "ch @ block"] show ?thesis
        unfolding q using False by (auto intro: hoare_conseq)
    qed
  qed (auto simp: hoare_def)
  show ?case
  proof (cases "n = 0")
    case True
    then show ?thesis unfolding rd by (auto intro: hoare_conseq [OF hoare_return [of ?Q]])
  next
    case False
    then show ?thesis
      unfolding rd using hoare_bind [OF read_file_hoare [OF assms] step] by simp
  qed
qed

lemma read_bounded_hoare:
  assumes "dk_inodes D i = Some nd"
  shows "hoare (\<lambda>d. d = D) (read_bounded i) (\<lambda>s d. d = D \<and> length (in_data nd) \<le> EPOCH_MAX_BYTES \<and> utf8_decode (in_data nd) = Some s)
     (\<lambda>d. d = D)"
  unfolding read_bounded_def
proof (rule hoare_bind [OF read_loop_hoare [OF assms]])
  fix raw
  show "hoare (\<lambda>d. d = D \<and> raw = [] @ take (EPOCH_MAX_BYTES + 1) (drop 0 (in_data nd)))
     (if length raw > EPOCH_MAX_BYTES then io_raise WAWRuntimeEpochError
      else case utf8_decode raw of None \<Rightarrow> io_raise WAWRuntimeEpochError | Some s \<Rightarrow> io_return s)
     (\<lambda>s d. d = D \<and> length (in_data nd) \<le> EPOCH_MAX_BYTES \<and> utf8_decode (in_data nd) = Some s) (\<lambda>d. d = D)"
    by (auto simp: hoare_def io_raise_def io_return_def split: option.splits)
qed

lemma open_hoare:
  "hoare (\<lambda>d. d = D) (open_file name) (\<lambda>i d. d = D \<and> dk_names D name = Some i \<and> (\<exists>nd. dk_inodes D i = Some nd)) (\<lambda>d. d = D)"
  unfolding open_file_def by (rule hoare_sys) (auto split: option.splits)

lemma hoare_if: "(b \<Longrightarrow> hoare P a Q E) \<Longrightarrow> (\<not> b \<Longrightarrow> hoare P a' Q E) \<Longrightarrow> hoare P (if b then a else a') Q E"
  by simp

lemma hoare_assume: "(F \<Longrightarrow> hoare P a Q E) \<Longrightarrow> hoare (\<lambda>d. P d \<and> F) a Q E"
  by (auto simp: hoare_def)

lemma hoare_raise': "(\<And>d. P d \<Longrightarrow> E d) \<Longrightarrow> hoare P (io_raise e) Q E"
  by (simp add: hoare_def io_raise_def)

lemma read_epoch_hoare:
  "hoare (\<lambda>d. d = D) (read_epoch st) (\<lambda>n d. d = D \<and> current_epoch D = Some n) (\<lambda>d. d = D)"
  unfolding read_epoch_def
proof (rule hoare_bind [OF hoare_convert [OF open_hoare] hoare_assume], elim conjE exE)
  fix fd nd assume fd: "dk_names D epoch_json = Some fd" "dk_inodes D fd = Some nd"
  let ?R = "\<lambda>s d. d = D \<and> length (in_data nd) \<le> EPOCH_MAX_BYTES \<and> utf8_decode (in_data nd) = Some s"
  have st: "hoare (\<lambda>d. d = D) (io_bind (fstat_file fd) (\<lambda>details. if B details then io_raise WAWRuntimeEpochError else read_bounded fd)) ?R (\<lambda>d. d = D)" for B
    by (rule hoare_bind [OF fstat_hoare]) (auto intro: hoare_raise' read_bounded_hoare [OF fd(2)])
  have fin: "hoare (\<lambda>d. d = D) (io_finally (convert_OSError (io_bind (fstat_file fd)
      (\<lambda>details. if B details then io_raise WAWRuntimeEpochError else read_bounded fd))) plain_call) ?R (\<lambda>d. d = D)" for B
    by (rule hoare_finally [OF hoare_convert [OF st]]) (auto intro: plain_hoare)
  show "hoare (\<lambda>d. d = D)
     (io_bind (io_finally (convert_OSError (io_bind (fstat_file fd) (\<lambda>details.
         if in_kind details \<noteq> S_REG \<or> in_uid details \<noteq> es_expected_uid st \<or> in_gid details \<noteq> es_expected_gid st
            \<or> in_imode details \<noteq> MODE_600 \<or> length (in_data details) > EPOCH_MAX_BYTES
         then io_raise WAWRuntimeEpochError else read_bounded fd))) plain_call) (\<lambda>payload.
     case epoch_record payload of None \<Rightarrow> io_raise WAWRuntimeEpochError | Some epoch \<Rightarrow> io_return epoch))
     (\<lambda>n d. d = D \<and> current_epoch D = Some n) (\<lambda>d. d = D)"
    using fd by (intro hoare_bind [OF fin])
      (auto simp: hoare_def io_raise_def io_return_def current_epoch_def epoch_of_def split: option.splits)
qed

section \<open>Allocation\<close>

lemma open_directory_hoare: "(\<And>d. P d \<Longrightarrow> E d) \<Longrightarrow> hoare P (open_directory st) (\<lambda>_. P) E"
proof -
  assume pe: "\<And>d. P d \<Longrightarrow> E d"
  have sd: "hoare P stat_directory (\<lambda>_. P) P"
    unfolding stat_directory_def by (rule hoare_sys) auto
  have sdc: "hoare P (convert_OSError stat_directory) (\<lambda>_. P) E"
    by (rule hoare_conseq [OF hoare_convert [OF sd]]) (auto intro: pe)
  have close: "hoare P (io_bind plain_call (\<lambda>_. io_raise e)) (\<lambda>_. P) E" for e
    by (rule hoare_bind [OF plain_hoare]) (auto intro: hoare_raise' pe)
  have check: "hoare P (io_catch (io_bind stat_directory (\<lambda>opened. if B opened then io_raise WAWRuntimeEpochError else io_return ()))
      (\<lambda>e. io_bind plain_call (\<lambda>_. io_raise e))) (\<lambda>_. P) E" for B
  proof -
    have "hoare P (io_bind stat_directory (\<lambda>opened. if B opened then io_raise WAWRuntimeEpochError else io_return ())) (\<lambda>_. P) P"
      by (rule hoare_bind [OF sd hoare_if [OF hoare_raise' hoare_return]])
    then show ?thesis
      unfolding io_catch_def by (rule hoare_try [OF _ hoare_return close pe])
  qed
  show ?thesis
    unfolding open_directory_def
    by (rule hoare_bind [OF sdc hoare_if [OF hoare_raise' hoare_bind [OF hoare_convert [OF plain_hoare] check]]]) (auto intro: pe)
qed

lemma with_locked_hoare:
  assumes "hoare P body Q E" "\<And>d. P d \<Longrightarrow> E d" "\<And>x d. Q x d \<Longrightarrow> E d"
  shows "hoare P (with_locked_directory st body) Q E"
proof -
  have un: "hoare R (io_bind (suppress_OSError plain_call) (\<lambda>_. plain_call)) (\<lambda>_. R) E" if "\<And>d. R d \<Longrightarrow> E d" for R
    by (rule hoare_bind [OF hoare_suppress [OF plain_hoare [of R R]] plain_hoare [of R E]]) (auto intro: that)
  show ?thesis
    unfolding with_locked_directory_def
    by (rule hoare_bind [OF open_directory_hoare [where E = E] hoare_finally [OF hoare_bind [OF hoare_convert [OF plain_hoare] assms(1)] un un]])
       (auto intro: assms)
qed

lemma safe_current: "safe ks d \<Longrightarrow> current_epoch d = Some c \<Longrightarrow> \<forall>k\<in>set ks. k \<le> c"
  using safe_names [of ks d] by (auto simp: entry_ok_def current_epoch_def split: option.splits bind_splits)

lemma current_range: "current_epoch d = Some c \<Longrightarrow> 1 \<le> c \<and> c \<le> MAX_U64"
  by (auto simp: current_epoch_def epoch_of_def epoch_record_def Let_def
      split: bind_splits option.splits sum.splits json.splits if_splits)

text \<open>What every call may do: nothing, or the step to the next epoch.\<close>

definition kept :: "int list \<Rightarrow> Disk \<Rightarrow> Disk \<Rightarrow> bool" where
  "kept ks D d \<longleftrightarrow> safe ks d \<and> (current_epoch d = current_epoch D
     \<or> current_epoch d = Some (case current_epoch D of None \<Rightarrow> 1 | Some c \<Rightarrow> c + 1))"

definition stepped :: "int \<Rightarrow> Disk \<Rightarrow> Disk \<Rightarrow> bool" where
  "stepped n D d \<longleftrightarrow> settled n d \<and> current_epoch d = Some n \<and> n = (case current_epoch D of None \<Rightarrow> 1 | Some c \<Rightarrow> c + 1)"

lemma replace_next:
  assumes "safe ks D" "current_epoch D = Some c" "c \<noteq> MAX_U64"
  shows "hoare (\<lambda>d. d = D) (replace_epoch st t (c + 1)) (\<lambda>_. stepped (c + 1) D) (kept ks D)"
proof -
  have "epoch_of (epoch_payload (c + 1)) = Some (c + 1)"
    using current_range [OF assms(2)] assms(3) by (intro payload_reads_back) auto
  moreover have "\<forall>k\<in>set ks. k \<le> c + 1" using safe_current [OF assms(1,2)] by auto
  ultimately show ?thesis
    by (rule hoare_conseq [OF replace_epoch_hoare [of "c + 1" ks "Some c"]])
       (use assms in \<open>auto simp: kept_def stepped_def\<close>)
qed

lemma stepped_kept: "stepped n D d \<Longrightarrow> safe ks D \<Longrightarrow> current_epoch D \<noteq> None \<Longrightarrow> kept ks D d"
  using safe_current [of ks D] settled_safe [of n d ks] by (fastforce simp: stepped_def kept_def)

lemma kept_refl: "safe ks D \<Longrightarrow> kept ks D D"
  by (simp add: kept_def)

lemma consume_hoare:
  assumes "safe ks D"
  shows "hoare (\<lambda>d. d = D) (consume st t) (\<lambda>n d. stepped n D d \<and> current_epoch D \<noteq> None) (kept ks D)"
  unfolding consume_def
proof (rule with_locked_hoare)
  show "hoare (\<lambda>d. d = D) (io_bind (read_epoch st) (\<lambda>current.
      if current = MAX_U64 then io_raise WAWRuntimeEpochError
      else io_bind (replace_epoch st t (current + 1)) (\<lambda>_. io_return (current + 1))))
     (\<lambda>n d. stepped n D d \<and> current_epoch D \<noteq> None) (kept ks D)"
  proof (rule hoare_bind [OF hoare_conseq [OF read_epoch_hoare] hoare_assume])
    fix c assume c: "current_epoch D = Some c"
    have "hoare (\<lambda>d. d = D) (io_bind (replace_epoch st t (c + 1)) (\<lambda>_. io_return (c + 1)))
       (\<lambda>n d. stepped n D d \<and> current_epoch D \<noteq> None) (kept ks D)" if "c \<noteq> MAX_U64"
      by (rule hoare_bind [OF replace_next [OF assms c that]])
         (rule hoare_conseq [OF hoare_return [of "\<lambda>n d. stepped n D d \<and> current_epoch D \<noteq> None"]], auto simp: c)
    then show "hoare (\<lambda>d. d = D) (if c = MAX_U64 then io_raise WAWRuntimeEpochError
      else io_bind (replace_epoch st t (c + 1)) (\<lambda>_. io_return (c + 1)))
     (\<lambda>n d. stepped n D d \<and> current_epoch D \<noteq> None) (kept ks D)"
      using kept_refl [OF assms] by (auto intro: hoare_raise')
  qed (auto intro: kept_refl [OF assms])
qed (auto intro: stepped_kept kept_refl assms)

lemma prepared_hoare:
  assumes "safe ks D"
  shows "hoare (\<lambda>d. d = D) (consume_prepared st t prepare validate)
     (\<lambda>r d. stepped (fst r) D d \<and> current_epoch D \<noteq> None \<and> prepare (dec_str (nat (fst r))) = Inr (snd r)
        \<and> validate (snd r) (dec_str (nat (fst r))) = Inr ()) (kept ks D)"
    (is "hoare _ _ ?Q _")
  unfolding consume_prepared_def
proof (rule with_locked_hoare)
  show "hoare (\<lambda>d. d = D) (io_bind (read_epoch st) (\<lambda>current.
      if current = MAX_U64 then io_raise WAWRuntimeEpochError
      else let text_epoch = dec_str (nat (current + 1)) in
        io_bind (run_callback (prepare text_epoch)) (\<lambda>prepared.
        io_bind (run_callback (validate prepared text_epoch)) (\<lambda>_.
        io_bind (replace_epoch st t (current + 1)) (\<lambda>_.
        io_return (current + 1, prepared)))))) ?Q (kept ks D)"
  proof (rule hoare_bind [OF hoare_conseq [OF read_epoch_hoare] hoare_assume])
    fix c assume c: "current_epoch D = Some c"
    let ?t = "dec_str (nat (c + 1))"
    have cb: "hoare (\<lambda>d. d = D) (run_callback r) (\<lambda>x d. d = D \<and> r = Inr x) (kept ks D)" for r :: "nat + 'b"
      using kept_refl [OF assms] by (cases r) (auto simp: run_callback_def hoare_def io_raise_def io_return_def)
    have ret: "hoare (stepped (c + 1) D) (io_return (c + 1, x)) ?Q (kept ks D)"
      if "prepare ?t = Inr x" "validate x ?t = Inr ()" for x
      by (rule hoare_conseq [OF hoare_return [of ?Q]]) (use that c in auto)
    show "hoare (\<lambda>d. d = D) (if c = MAX_U64 then io_raise WAWRuntimeEpochError
      else let text_epoch = ?t in
        io_bind (run_callback (prepare text_epoch)) (\<lambda>prepared.
        io_bind (run_callback (validate prepared text_epoch)) (\<lambda>_.
        io_bind (replace_epoch st t (c + 1)) (\<lambda>_.
        io_return (c + 1, prepared))))) ?Q (kept ks D)"
      unfolding Let_def
      by (rule hoare_if, (auto intro: hoare_raise' kept_refl assms)[],
          rule hoare_bind [OF cb hoare_assume], rule hoare_bind [OF cb hoare_assume],
          rule hoare_bind [OF replace_next [OF assms c] ret]) simp_all
  qed (auto intro: kept_refl [OF assms])
qed (auto intro: stepped_kept kept_refl assms)

lemma open_try_hoare:
  assumes "dk_names D name = None \<Longrightarrow> hoare (\<lambda>d. d = D) (h FileNotFoundError) Q E"
    "hoare (\<lambda>d. d = D) (h OSError) Q E" "\<And>i. hoare (\<lambda>d. d = D) (k i) Q E" "E D"
  shows "hoare (\<lambda>d. d = D) (io_try (open_file name) h k) Q E"
  using assms unfolding hoare_def io_try_def open_file_def sys_def
  by (auto simp: Let_def split: list.splits answer.splits option.splits)

lemma bootstrap_hoare:
  assumes "safe ks D"
  shows "hoare (\<lambda>d. d = D) (bootstrap st t) (\<lambda>n d. stepped n D d \<and> n = 1 \<and> ks = []) (kept ks D)"
    (is "hoare _ _ ?Q _")
  unfolding bootstrap_def
proof (rule with_locked_hoare)
  let ?h = "\<lambda>e. if e = FileNotFoundError then io_bind (replace_epoch st t 1) (\<lambda>_. io_return 1)
            else if is_OSError e then io_raise WAWRuntimeEpochError else io_raise e"
  have first: "hoare (\<lambda>d. d = D) (?h FileNotFoundError) ?Q (kept ks D)" if none: "dk_names D epoch_json = None"
  proof -
    have ks: "ks = []" "current_epoch D = None"
      using safe_names [OF assms] none by (simp_all add: entry_ok_def current_epoch_def)
    have "epoch_of (epoch_payload 1) = Some 1" by (rule payload_reads_back) (simp_all add: MAX_U64_eval)
    then have "hoare (\<lambda>d. d = D) (replace_epoch st t 1) (\<lambda>_ d. ?Q 1 d) (kept ks D)"
      by (rule hoare_conseq [OF replace_epoch_hoare [of 1 ks None]]) (use assms ks in \<open>auto simp: kept_def stepped_def\<close>)
    from hoare_bind [OF this hoare_return [of ?Q 1]] show ?thesis by simp
  qed
  show "hoare (\<lambda>d. d = D) (io_try (open_file epoch_json) ?h (\<lambda>fd. io_bind plain_call (\<lambda>_. io_raise WAWRuntimeEpochError))) ?Q (kept ks D)"
  proof (rule open_try_hoare)
    show "dk_names D epoch_json = None \<Longrightarrow> hoare (\<lambda>d. d = D) (?h FileNotFoundError) ?Q (kept ks D)" by (rule first)
    show "hoare (\<lambda>d. d = D) (?h OSError) ?Q (kept ks D)"
      by (auto simp: is_OSError_def intro: hoare_raise' kept_refl assms)
    show "hoare (\<lambda>d. d = D) (io_bind plain_call (\<lambda>_. io_raise WAWRuntimeEpochError)) ?Q (kept ks D)"
      by (rule hoare_bind [OF plain_hoare hoare_raise']) (auto intro: kept_refl assms)
  qed (auto intro: kept_refl assms)
qed (auto intro: kept_refl assms simp: kept_def stepped_def intro: settled_safe)

section \<open>Histories\<close>

fun returned :: "int outcome \<Rightarrow> int list" where
  "returned (Ret n) = [n]"
| "returned _ = []"

text \<open>A call by any process with any answers, or a power loss: one of the directory contents since the
  last directory sync comes back, and the data of files that were not synced is arbitrary. The second
  component is the epochs handed out so far; a prepared value is an identity.\<close>

inductive epoch_step :: "WAWRuntimeEpochStore \<Rightarrow> Disk \<times> int list \<Rightarrow> Disk \<times> int list \<Rightarrow> bool" for st where
  Step_bootstrap: "bootstrap st t m = (r, m') \<Longrightarrow> epoch_step st (mc_disk m, ks) (mc_disk m', ks @ returned r)"
| Step_consume: "consume st t m = (r, m') \<Longrightarrow> epoch_step st (mc_disk m, ks) (mc_disk m', ks @ returned r)"
| Step_prepared: "consume_prepared st t prepare validate m = (r, m') \<Longrightarrow>
    epoch_step st (mc_disk m, ks) (mc_disk m', ks @ returned (map_outcome fst (r :: (int \<times> nat) outcome)))"
| Step_power_loss: "v \<in> set (dk_versions d) \<Longrightarrow> (\<And>i nd. dk_inodes d i = Some nd \<Longrightarrow> in_synced nd \<Longrightarrow> inodes i = Some nd) \<Longrightarrow>
    epoch_step st (d, ks) (d\<lparr>dk_names := v, dk_versions := [v], dk_inodes := inodes\<rparr>, ks)"

inductive_cases epoch_stepE: "epoch_step st s s'"

definition history_ok :: "Disk \<times> int list \<Rightarrow> bool" where
  "history_ok s \<longleftrightarrow> safe (snd s) (fst s) \<and> sorted_wrt (<) (snd s)"

lemma stepped_history:
  assumes "history_ok (D, ks)" "stepped n D d" "current_epoch D = None \<longrightarrow> ks = []"
  shows "history_ok (d, ks @ [n])"
proof -
  have "k < n" if "k \<in> set ks" for k
    using assms safe_current [of ks D] that by (fastforce simp: history_ok_def stepped_def)
  then show ?thesis
    using assms settled_safe [of n d "ks @ [n]"] by (fastforce simp: history_ok_def stepped_def sorted_wrt_append)
qed

lemma hoareD:
  assumes "hoare (\<lambda>d. d = mc_disk m) a Q E" "a m = (r, m')"
  shows "(\<exists>x. r = Ret x \<and> Q x (mc_disk m')) \<or> (r = Halted \<or> (\<exists>e. r = Exn e)) \<and> E (mc_disk m')"
  using assms unfolding hoare_def by (cases r) (metis (mono_tags, lifting) case_prod_conv outcome.simps)+

lemma epoch_history_step:
  assumes "epoch_step st s s'" "history_ok s"
  shows "history_ok s'"
  using assms
proof (cases rule: epoch_step.cases)
  case (Step_bootstrap t m r m' ks)
  then have "safe ks (mc_disk m)" using assms(2) by (simp add: history_ok_def)
  from hoareD [OF bootstrap_hoare [OF this] Step_bootstrap(3)] show ?thesis
    using Step_bootstrap assms(2) stepped_history by (fastforce simp: history_ok_def kept_def)
next
  case (Step_consume t m r m' ks)
  then have "safe ks (mc_disk m)" using assms(2) by (simp add: history_ok_def)
  from hoareD [OF consume_hoare [OF this] Step_consume(3)] show ?thesis
    using Step_consume assms(2) stepped_history by (fastforce simp: history_ok_def kept_def)
next
  case (Step_prepared t prepare validate m r m' ks)
  then have "safe ks (mc_disk m)" using assms(2) by (simp add: history_ok_def)
  from hoareD [OF prepared_hoare [OF this] Step_prepared(3)] show ?thesis
    using Step_prepared assms(2) stepped_history by (fastforce simp: history_ok_def kept_def)
next
  case (Step_power_loss v d inodes ks)
  then have "entry_ok ks d v" using assms(2) by (simp add: history_ok_def safe_def)
  then have "entry_ok ks (d\<lparr>dk_names := v, dk_versions := [v], dk_inodes := inodes\<rparr>) v"
    using Step_power_loss(4) by (auto simp: entry_ok_def split: option.splits)
  then show ?thesis using Step_power_loss assms(2) by (simp add: history_ok_def safe_def)
qed

lemma history_run: "(epoch_step st)\<^sup>*\<^sup>* s s' \<Longrightarrow> history_ok s \<Longrightarrow> history_ok s'"
  by (induction rule: rtranclp_induct) (auto intro: epoch_history_step)

section \<open>Calls that work\<close>

text \<open>\<open>succeeds P a Q\<close>: where every call works, if only in part, the action returns.\<close>

fun benign :: "answer \<Rightarrow> bool" where
  "benign Done = True"
| "benign (Counts k) = (0 < k)"
| "benign _ = False"

definition succeeds :: "(Machine \<Rightarrow> bool) \<Rightarrow> 'a io \<Rightarrow> ('a \<Rightarrow> Machine \<Rightarrow> bool) \<Rightarrow> bool" where
  "succeeds P a Q \<longleftrightarrow> (\<forall>m. P m \<and> list_all benign (mc_answers m) \<longrightarrow>
     (\<exists>x m'. a m = (Ret x, m') \<and> Q x m' \<and> list_all benign (mc_answers m')))"

lemma succeeds_return: "succeeds (Q x) (io_return x) Q"
  by (simp add: succeeds_def io_return_def)

lemma succeeds_bind:
  assumes "succeeds P a R" "\<And>x. succeeds (R x) (k x) Q"
  shows "succeeds P (io_bind a k) Q"
  unfolding succeeds_def
proof (intro allI impI)
  fix m :: Machine assume m: "P m \<and> list_all benign (mc_answers m)"
  obtain x m' where 1: "a m = (Ret x, m')" "R x m'" "list_all benign (mc_answers m')"
    using assms(1) [unfolded succeeds_def, rule_format, OF m] by blast
  from assms(2) [unfolded succeeds_def, rule_format, of x m'] 1
  show "\<exists>y m''. io_bind a k m = (Ret y, m'') \<and> Q y m'' \<and> list_all benign (mc_answers m'')"
    by (simp add: io_bind_def io_try_def)
qed

lemma succeeds_catch: "succeeds P a Q \<Longrightarrow> succeeds P (io_catch a h) Q"
  unfolding io_catch_def succeeds_def io_try_def io_return_def by fastforce

lemma succeeds_convert: "succeeds P a Q \<Longrightarrow> succeeds P (convert_OSError a) Q"
  unfolding convert_OSError_def by (rule succeeds_catch)

lemma succeeds_finally:
  assumes "succeeds P a Q" "\<And>x. succeeds (Q x) g (\<lambda>_. R x)"
  shows "succeeds P (io_finally a g) R"
proof -
  have "succeeds P (io_bind a (\<lambda>x. io_bind g (\<lambda>_. io_return x))) R"
    by (rule succeeds_bind [OF assms(1) succeeds_bind [OF assms(2) succeeds_return]])
  then show ?thesis
    unfolding succeeds_def io_finally_def io_bind_def io_try_def
    by (fastforce split: outcome.splits prod.splits simp: io_raise_def)
qed

lemma succeeds_conseq:
  assumes "succeeds P a Q" "\<And>m. P' m \<Longrightarrow> P m" "\<And>x m. Q x m \<Longrightarrow> Q' x m"
  shows "succeeds P' a Q'"
  unfolding succeeds_def using assms(1) [unfolded succeeds_def, rule_format] assms(2,3) by meson

lemma succeeds_if: "succeeds P a Q \<Longrightarrow> (\<And>m. P m \<Longrightarrow> \<not> b) \<Longrightarrow> succeeds P (if b then a' else a) Q"
  by (auto simp: succeeds_def)

lemma succeeds_fixed: "(\<And>m0. P m0 \<Longrightarrow> succeeds (\<lambda>m. m = m0) a Q) \<Longrightarrow> succeeds P a Q"
  by (auto simp: succeeds_def)

lemma succeeds_sys:
  assumes "\<And>a m. P m \<Longrightarrow> benign a \<Longrightarrow> \<exists>x m'. f a m = (Ret x, m') \<and> Q x m' \<and> mc_answers m' = mc_answers m"
    "\<And>m as. P m \<Longrightarrow> P (m\<lparr>mc_answers := as\<rparr>)"
  shows "succeeds P (sys f) Q"
  unfolding succeeds_def
proof (intro allI impI)
  fix m :: Machine assume m: "P m \<and> list_all benign (mc_answers m)"
  show "\<exists>x m'. sys f m = (Ret x, m') \<and> Q x m' \<and> list_all benign (mc_answers m')"
  proof (cases "mc_answers m")
    case Nil
    then show ?thesis using assms(1) [of m Done] m by (auto simp: sys_def)
  next
    case (Cons a rest)
    then have "benign a" using m by simp
    then show ?thesis using assms(1) [of "m\<lparr>mc_answers := rest\<rparr>" a] assms(2) [of m rest] m Cons
      by (cases a) (auto simp: sys_def Let_def)
  qed
qed

definition env_ok :: "WAWRuntimeEpochStore \<Rightarrow> Machine \<Rightarrow> bool" where
  "env_ok st m \<longleftrightarrow> st_kind (mc_dir_stat m) = S_DIR \<and> st_uid (mc_dir_stat m) = es_expected_uid st
     \<and> st_gid (mc_dir_stat m) = es_expected_gid st \<and> st_imode (mc_dir_stat m) = MODE_700
     \<and> mc_new_uid m = es_expected_uid st \<and> mc_new_gid m = es_expected_gid st \<and> mc_new_imode m = MODE_600"

definition has_file :: "WAWRuntimeEpochStore \<Rightarrow> pystr \<Rightarrow> nat \<Rightarrow> bytes \<Rightarrow> Machine \<Rightarrow> bool" where
  "has_file st name i bs m \<longleftrightarrow> env_ok st m \<and> dk_names (mc_disk m) name = Some i \<and> i < dk_next (mc_disk m)
     \<and> (\<exists>nd. dk_inodes (mc_disk m) i = Some nd \<and> in_kind nd = S_REG \<and> in_uid nd = es_expected_uid st
          \<and> in_gid nd = es_expected_gid st \<and> in_imode nd = MODE_600 \<and> in_data nd = bs)"

definition ready :: "WAWRuntimeEpochStore \<Rightarrow> int \<Rightarrow> Machine \<Rightarrow> bool" where
  "ready st n m \<longleftrightarrow> (\<exists>i bs. has_file st epoch_json i bs m \<and> epoch_of bs = Some n)"

lemma answers_irrelevant [simp]:
  "env_ok st (m\<lparr>mc_answers := as\<rparr>) = env_ok st m" "has_file st name i bs (m\<lparr>mc_answers := as\<rparr>) = has_file st name i bs m"
  by (simp_all add: env_ok_def has_file_def)

lemma create_succeeds:
  "succeeds (\<lambda>m. env_ok st m \<and> dk_names (mc_disk m) name = None) (create_file name) (\<lambda>i. has_file st name i [])"
  unfolding create_file_def
  by (rule succeeds_sys) (auto simp: Let_def has_file_def env_ok_def set_names_def)

lemma write_file_succeeds:
  "view \<noteq> [] \<Longrightarrow> succeeds (has_file st name i bs) (write_file i view)
     (\<lambda>n m. 0 < n \<and> has_file st name i (bs @ take n view) m)"
  unfolding write_file_def
  by (rule succeeds_sys) (auto simp: Let_def has_file_def env_ok_def update_file_def split: answer.splits elim!: benign.elims)

lemma write_all_succeeds: "succeeds (has_file st name i bs) (write_all i view) (\<lambda>_. has_file st name i (bs @ view))"
proof (induction view arbitrary: bs rule: length_induct)
  case (1 view)
  show ?case
  proof (cases "view = []")
    case True
    then show ?thesis
      unfolding write_all_unfold [of i view] using succeeds_return [of "\<lambda>_. has_file st name i bs"] by simp
  next
    case False
    have "succeeds (\<lambda>m. 0 < n \<and> has_file st name i (bs @ take n view) m)
       (if n = 0 then io_raise OSError else write_all i (drop n view)) (\<lambda>_. has_file st name i (bs @ view))" for n
    proof (cases "n = 0")
      case False
      then show ?thesis
        using 1 [rule_format, of "drop n view" "bs @ take n view"] \<open>view \<noteq> []\<close> by (auto intro: succeeds_conseq)
    qed (simp add: succeeds_def)
    from succeeds_bind [OF write_file_succeeds [OF False] this] show ?thesis
      unfolding write_all_unfold [of i view] using False by simp
  qed
qed

lemma fsync_succeeds: "succeeds (has_file st name i bs) (fsync_file i) (\<lambda>_. has_file st name i bs)"
  unfolding fsync_file_def
  by (rule succeeds_sys) (auto simp: has_file_def env_ok_def update_file_def)

lemma fstat_succeeds:
  "succeeds (has_file st name i bs) (fstat_file i) (\<lambda>nd m. has_file st name i bs m \<and> in_kind nd = S_REG
     \<and> in_uid nd = es_expected_uid st \<and> in_gid nd = es_expected_gid st \<and> in_imode nd = MODE_600 \<and> in_data nd = bs)"
  unfolding fstat_file_def by (rule succeeds_sys) (auto simp: has_file_def)

lemma plain_succeeds: "(\<And>m as. P m \<Longrightarrow> P (m\<lparr>mc_answers := as\<rparr>)) \<Longrightarrow> succeeds P plain_call (\<lambda>_. P)"
  unfolding plain_call_def by (rule succeeds_sys) (auto simp: io_return_def)

lemma replace_succeeds:
  "a \<noteq> b \<Longrightarrow> succeeds (has_file st a i bs) (replace_file a b) (\<lambda>_ m. has_file st b i bs m \<and> dk_names (mc_disk m) a = None)"
  unfolding replace_file_def
  by (rule succeeds_sys) (auto simp: has_file_def env_ok_def set_names_def)

lemma fsync_directory_succeeds:
  "succeeds (\<lambda>m. has_file st b i bs m \<and> dk_names (mc_disk m) a = None) fsync_directory
     (\<lambda>_ m. has_file st b i bs m \<and> dk_names (mc_disk m) a = None)"
  unfolding fsync_directory_def
  by (rule succeeds_sys) (auto simp: has_file_def env_ok_def)

lemma unlink_succeeds:
  assumes "\<And>m as. P m \<Longrightarrow> P (m\<lparr>mc_answers := as\<rparr>)"
  shows "succeeds (\<lambda>m. P m \<and> dk_names (mc_disk m) a = None) (suppress_OSError (unlink_file a)) (\<lambda>_. P)"
  unfolding succeeds_def
proof (intro allI impI)
  fix m :: Machine assume m: "(P m \<and> dk_names (mc_disk m) a = None) \<and> list_all benign (mc_answers m)"
  show "\<exists>x m'. suppress_OSError (unlink_file a) m = (Ret x, m') \<and> P m' \<and> list_all benign (mc_answers m')"
  proof (cases "mc_answers m")
    case (Cons b rest)
    then show ?thesis using m assms [of m rest]
      by (cases b) (auto simp: suppress_OSError_def io_catch_def io_try_def unlink_file_def sys_def Let_def
          is_OSError_def io_return_def)
  qed (use m in \<open>auto simp: suppress_OSError_def io_catch_def io_try_def unlink_file_def sys_def is_OSError_def io_return_def\<close>)
qed

lemma write_temp_succeeds:
  "succeeds (has_file st name fd [])
     (io_finally (io_bind (write_all fd bs) (\<lambda>_. io_bind (fsync_file fd) (\<lambda>_. io_bind (fstat_file fd) (\<lambda>details.
        if in_uid details \<noteq> es_expected_uid st \<or> in_gid details \<noteq> es_expected_gid st
        then io_raise WAWRuntimeEpochError else io_return ())))) plain_call)
     (\<lambda>_. has_file st name fd bs)"
proof (rule succeeds_finally [OF succeeds_bind [OF write_all_succeeds succeeds_bind [OF fsync_succeeds
        succeeds_bind [OF fstat_succeeds succeeds_if]]]])
  show "succeeds (\<lambda>m. has_file st name fd ([] @ bs) m \<and> in_kind nd = S_REG \<and> in_uid nd = es_expected_uid st
      \<and> in_gid nd = es_expected_gid st \<and> in_imode nd = MODE_600 \<and> in_data nd = [] @ bs) (io_return ()) (\<lambda>_. has_file st name fd bs)" for nd
    by (auto simp: succeeds_def io_return_def)
qed (auto intro: plain_succeeds)

lemma replace_epoch_succeeds:
  "succeeds (\<lambda>m. env_ok st m \<and> dk_names (mc_disk m) (temp_name t) = None) (replace_epoch st t n)
     (\<lambda>_ m. \<exists>i. has_file st epoch_json i (epoch_payload n) m)"
  unfolding replace_epoch_def
proof (rule succeeds_finally)
  show "succeeds (\<lambda>m. (\<exists>i. has_file st epoch_json i (epoch_payload n) m) \<and> dk_names (mc_disk m) (temp_name t) = None)
      (suppress_OSError (unlink_file (temp_name t))) (\<lambda>_ m. \<exists>i. has_file st epoch_json i (epoch_payload n) m)"
    by (rule unlink_succeeds) simp
  show "succeeds (\<lambda>m. env_ok st m \<and> dk_names (mc_disk m) (temp_name t) = None)
     (convert_OSError
         (io_bind (create_file (temp_name t)) (\<lambda>fd.
          io_bind (io_finally
              (io_bind (write_all fd (epoch_payload n)) (\<lambda>_.
               io_bind (fsync_file fd) (\<lambda>_.
               io_bind (fstat_file fd) (\<lambda>details.
               if in_uid details \<noteq> es_expected_uid st \<or> in_gid details \<noteq> es_expected_gid st
               then io_raise WAWRuntimeEpochError else io_return ()))))
              plain_call) (\<lambda>_.
          io_bind (replace_file (temp_name t) epoch_json) (\<lambda>_.
          fsync_directory)))))
     (\<lambda>_ m. (\<exists>i. has_file st epoch_json i (epoch_payload n) m) \<and> dk_names (mc_disk m) (temp_name t) = None)"
    by (rule succeeds_convert [OF succeeds_bind [OF create_succeeds succeeds_bind [OF write_temp_succeeds
          succeeds_bind [OF replace_succeeds succeeds_conseq [OF fsync_directory_succeeds]]]]]) auto
qed

lemma open_succeeds: "succeeds (has_file st name i bs) (open_file name) (\<lambda>j m. has_file st name i bs m \<and> j = i)"
  unfolding open_file_def by (rule succeeds_sys) (auto simp: has_file_def)

lemma succeeds_value:
  assumes "succeeds P a Q" "\<And>m. P m \<Longrightarrow> hoare (\<lambda>d. d = mc_disk m) a R (E m)"
  shows "succeeds P a (\<lambda>x m. Q x m \<and> R x (mc_disk m))"
  unfolding succeeds_def
proof (intro allI impI)
  fix m :: Machine assume m: "P m \<and> list_all benign (mc_answers m)"
  then obtain x m' where 1: "a m = (Ret x, m')" "Q x m'" "list_all benign (mc_answers m')"
    using assms(1) [unfolded succeeds_def, rule_format, OF m] by blast
  moreover have "R x (mc_disk m')" using hoareD [OF assms(2) 1(1)] m by simp
  ultimately show "\<exists>x m'. a m = (Ret x, m') \<and> (Q x m' \<and> R x (mc_disk m')) \<and> list_all benign (mc_answers m')" by blast
qed

lemma read_loop_returns: "succeeds (has_file st name i bs) (read_loop i off n ch) (\<lambda>_. has_file st name i bs)"
proof (induction n arbitrary: off ch rule: less_induct)
  case (less n)
  note ret = succeeds_return [of "\<lambda>_. has_file st name i bs"]
  have rd: "succeeds (has_file st name i bs) (read_file i off k) (\<lambda>_. has_file st name i bs)" for k
    unfolding read_file_def by (rule succeeds_sys) (auto simp: has_file_def)
  have "succeeds (has_file st name i bs) (if block = [] then io_return ch
      else read_loop i (off + length block) (n - length block) (ch @ block)) (\<lambda>_. has_file st name i bs)"
    if "0 < n" for block
    using ret less.IH [of "n - length block"] that by (cases block) auto
  from succeeds_bind [OF rd this] show ?case
    unfolding read_loop_unfold [of i off n ch] using ret by (cases "n = 0") auto
qed

lemma read_bounded_succeeds:
  assumes "epoch_of bs = Some n"
  shows "succeeds (has_file st name i bs) (read_bounded i) (\<lambda>s m. has_file st name i bs m \<and> utf8_decode bs = Some s)"
  unfolding read_bounded_def
proof (rule succeeds_bind [OF succeeds_value [OF read_loop_returns]])
  fix m assume "has_file st name i bs m"
  then show "hoare (\<lambda>d. d = mc_disk m) (read_loop i 0 (EPOCH_MAX_BYTES + 1) []) (\<lambda>x d. x = take (EPOCH_MAX_BYTES + 1) bs) (\<lambda>d. d = mc_disk m)"
    by (auto simp: has_file_def intro: hoare_conseq [OF read_loop_hoare])
next
  fix raw
  have "length bs \<le> EPOCH_MAX_BYTES" "\<exists>s. utf8_decode bs = Some s"
    using assms by (auto simp: epoch_of_def split: if_splits bind_splits)
  then show "succeeds (\<lambda>m. has_file st name i bs m \<and> raw = take (EPOCH_MAX_BYTES + 1) bs)
     (if length raw > EPOCH_MAX_BYTES then io_raise WAWRuntimeEpochError
      else case utf8_decode raw of None \<Rightarrow> io_raise WAWRuntimeEpochError | Some s \<Rightarrow> io_return s)
     (\<lambda>s m. has_file st name i bs m \<and> utf8_decode bs = Some s)"
    by (auto simp: succeeds_def io_return_def)
qed

lemma read_epoch_succeeds:
  assumes "epoch_of bs = Some n"
  shows "succeeds (has_file st epoch_json i bs) (read_epoch st) (\<lambda>k m. has_file st epoch_json i bs m \<and> k = n)"
  unfolding read_epoch_def
proof (rule succeeds_bind [OF succeeds_convert [OF open_succeeds]])
  fix fd
  have len: "length bs \<le> EPOCH_MAX_BYTES" using assms by (simp add: epoch_of_def split: if_splits)
  let ?H = "\<lambda>m. has_file st epoch_json i bs m \<and> fd = i"
  have chk: "succeeds ?H (io_bind (fstat_file fd) (\<lambda>details.
         if in_kind details \<noteq> S_REG \<or> in_uid details \<noteq> es_expected_uid st \<or> in_gid details \<noteq> es_expected_gid st
            \<or> in_imode details \<noteq> MODE_600 \<or> length (in_data details) > EPOCH_MAX_BYTES
         then io_raise WAWRuntimeEpochError else read_bounded fd))
     (\<lambda>s m. has_file st epoch_json i bs m \<and> utf8_decode bs = Some s)"
  proof (cases "fd = i")
    case True
    show ?thesis unfolding True
      by (rule succeeds_conseq [OF succeeds_bind [OF fstat_succeeds [of st epoch_json i bs]
            succeeds_if [OF succeeds_conseq [OF read_bounded_succeeds [OF assms, of st epoch_json i]]]]])
         (use len in auto)
  qed (simp add: succeeds_def)
  show "succeeds ?H
     (io_bind (io_finally (convert_OSError (io_bind (fstat_file fd) (\<lambda>details.
         if in_kind details \<noteq> S_REG \<or> in_uid details \<noteq> es_expected_uid st \<or> in_gid details \<noteq> es_expected_gid st
            \<or> in_imode details \<noteq> MODE_600 \<or> length (in_data details) > EPOCH_MAX_BYTES
         then io_raise WAWRuntimeEpochError else read_bounded fd))) plain_call) (\<lambda>payload.
     case epoch_record payload of None \<Rightarrow> io_raise WAWRuntimeEpochError | Some epoch \<Rightarrow> io_return epoch))
     (\<lambda>k m. has_file st epoch_json i bs m \<and> k = n)"
  proof (rule succeeds_bind [OF succeeds_finally [OF succeeds_convert [OF chk] plain_succeeds]])
    show "succeeds (\<lambda>m. has_file st epoch_json i bs m \<and> utf8_decode bs = Some s)
       (case epoch_record s of None \<Rightarrow> io_raise WAWRuntimeEpochError | Some epoch \<Rightarrow> io_return epoch)
       (\<lambda>k m. has_file st epoch_json i bs m \<and> k = n)" for s
      using assms len by (auto simp: succeeds_def epoch_of_def io_return_def)
  qed auto
qed

lemma open_directory_succeeds:
  "succeeds (\<lambda>m. env_ok st m \<and> P (mc_disk m)) (open_directory st) (\<lambda>_ m. env_ok st m \<and> P (mc_disk m))"
proof -
  let ?H = "\<lambda>ds m. env_ok st m \<and> P (mc_disk m) \<and> mc_dir_stat m = ds"
  have sd: "succeeds (\<lambda>m. ?H ds m \<and> Z) stat_directory (\<lambda>x m. ?H ds m \<and> Z \<and> x = ds)" for ds Z
    unfolding stat_directory_def by (rule succeeds_sys) (auto simp: env_ok_def split: answer.splits)
  have pl: "succeeds (\<lambda>m. ?H ds m \<and> Z) plain_call (\<lambda>_ m. ?H ds m \<and> Z)" for ds Z
    by (rule plain_succeeds) simp
  have ret: "succeeds (\<lambda>m. ?H ds m \<and> Z) (io_return ()) (\<lambda>_ m. env_ok st m \<and> P (mc_disk m))" for ds Z
    by (auto simp: succeeds_def io_return_def)
  have "succeeds (\<lambda>m. ?H ds m \<and> True) (open_directory st) (\<lambda>_ m. env_ok st m \<and> P (mc_disk m))" for ds
    unfolding open_directory_def
    by (rule succeeds_bind [OF succeeds_convert [OF sd] succeeds_if [OF succeeds_bind [OF succeeds_convert [OF pl]
          succeeds_catch [OF succeeds_bind [OF sd succeeds_if [OF ret]]]]]])
       (auto simp: env_ok_def)
  then show ?thesis unfolding succeeds_def by blast
qed

lemma with_locked_succeeds:
  assumes "succeeds (\<lambda>m. env_ok st m \<and> P (mc_disk m)) body Q" "\<And>x m as. Q x m \<Longrightarrow> Q x (m\<lparr>mc_answers := as\<rparr>)"
  shows "succeeds (\<lambda>m. env_ok st m \<and> P (mc_disk m)) (with_locked_directory st body) Q"
  unfolding with_locked_directory_def
  by (rule succeeds_bind [OF open_directory_succeeds succeeds_finally [OF succeeds_bind [OF succeeds_convert [OF plain_succeeds] assms(1)]
        succeeds_bind [OF _ plain_succeeds]]])
     (auto simp: suppress_OSError_def intro: succeeds_catch plain_succeeds assms(2))

lemma has_file_disk:
  "has_file st name i bs m \<longleftrightarrow> env_ok st m \<and> (\<exists>nd. dk_names (mc_disk m) name = Some i \<and> i < dk_next (mc_disk m)
     \<and> dk_inodes (mc_disk m) i = Some nd \<and> in_kind nd = S_REG \<and> in_uid nd = es_expected_uid st
     \<and> in_gid nd = es_expected_gid st \<and> in_imode nd = MODE_600 \<and> in_data nd = bs)"
  by (auto simp: has_file_def)

lemma read_epoch_keeps:
  assumes "epoch_of bs = Some n" "F D"
  shows "succeeds (\<lambda>m. has_file st epoch_json i bs m \<and> mc_disk m = D) (read_epoch st)
     (\<lambda>k m. (env_ok st m \<and> F (mc_disk m)) \<and> k = n)"
proof -
  have a: "succeeds (\<lambda>m. has_file st epoch_json i bs m \<and> mc_disk m = D) (read_epoch st) (\<lambda>k m. has_file st epoch_json i bs m \<and> k = n)"
    by (rule succeeds_conseq [OF read_epoch_succeeds [OF assms(1), of st i]]) auto
  have b: "hoare (\<lambda>d. d = mc_disk m) (read_epoch st) (\<lambda>_ d. d = D) (\<lambda>d. d = D)"
    if "has_file st epoch_json i bs m \<and> mc_disk m = D" for m
    by (rule hoare_conseq [OF read_epoch_hoare [of D]]) (use that in auto)
  show ?thesis
    by (rule succeeds_conseq [OF succeeds_value [OF a b]]) (use assms(2) in \<open>auto simp: has_file_def\<close>)
qed

lemma consume_succeeds:
  assumes "n < MAX_U64"
  shows "succeeds (\<lambda>m. ready st n m \<and> dk_names (mc_disk m) (temp_name t) = None) (consume st t)
     (\<lambda>k m. k = n + 1 \<and> ready st (n + 1) m)"
proof (rule succeeds_fixed)
  fix m0 assume m0: "ready st n m0 \<and> dk_names (mc_disk m0) (temp_name t) = None"
  then obtain i bs where f: "has_file st epoch_json i bs m0" "epoch_of bs = Some n" by (auto simp: ready_def)
  have "current_epoch (mc_disk m0) = Some n" using f by (auto simp: has_file_def current_epoch_def)
  then have pay: "epoch_of (epoch_payload (n + 1)) = Some (n + 1)"
    using current_range [of "mc_disk m0" n] assms by (intro payload_reads_back) auto
  have rd: "succeeds (\<lambda>m. env_ok st m \<and> mc_disk m = mc_disk m0) (read_epoch st)
     (\<lambda>k m. (env_ok st m \<and> dk_names (mc_disk m) (temp_name t) = None) \<and> k = n)"
    by (rule succeeds_conseq [OF read_epoch_keeps [OF f(2), of "\<lambda>d. dk_names d (temp_name t) = None" "mc_disk m0" st i]])
       (use f m0 in \<open>auto simp: has_file_disk\<close>)
  have body: "succeeds (\<lambda>m. env_ok st m \<and> mc_disk m = mc_disk m0) (io_bind (read_epoch st) (\<lambda>current.
      if current = MAX_U64 then io_raise WAWRuntimeEpochError
      else io_bind (replace_epoch st t (current + 1)) (\<lambda>_. io_return (current + 1))))
     (\<lambda>k m. k = n + 1 \<and> ready st (n + 1) m)"
  proof (rule succeeds_bind [OF rd])
    fix k
    have "succeeds (\<lambda>m. env_ok st m \<and> dk_names (mc_disk m) (temp_name t) = None)
       (io_bind (replace_epoch st t (n + 1)) (\<lambda>_. io_return (n + 1))) (\<lambda>k m. k = n + 1 \<and> ready st (n + 1) m)"
      by (rule succeeds_bind [OF replace_epoch_succeeds succeeds_conseq [OF succeeds_return [of "\<lambda>k m. k = n + 1 \<and> ready st (n + 1) m"]]])
         (use pay in \<open>auto simp: ready_def\<close>)
    then show "succeeds (\<lambda>m. (env_ok st m \<and> dk_names (mc_disk m) (temp_name t) = None) \<and> k = n)
       (if k = MAX_U64 then io_raise WAWRuntimeEpochError
        else io_bind (replace_epoch st t (k + 1)) (\<lambda>_. io_return (k + 1))) (\<lambda>k m. k = n + 1 \<and> ready st (n + 1) m)"
      using assms by (cases "k = n") (auto intro: succeeds_conseq simp: succeeds_def)
  qed
  show "succeeds (\<lambda>m. m = m0) (consume st t) (\<lambda>k m. k = n + 1 \<and> ready st (n + 1) m)"
    unfolding consume_def
    by (rule succeeds_conseq [OF with_locked_succeeds [OF body]]) (use f in \<open>auto simp: ready_def has_file_def\<close>)
qed

lemma callbacks_refuse:
  assumes "current_epoch D = Some c"
    "\<And>x. prepare (dec_str (nat (c + 1))) = Inr x \<Longrightarrow> validate x (dec_str (nat (c + 1))) \<noteq> Inr ()"
  shows "hoare (\<lambda>d. d = D) (consume_prepared st t prepare validate) (\<lambda>_ d. d = D) (\<lambda>d. d = D)"
  unfolding consume_prepared_def
proof (rule with_locked_hoare)
  show "hoare (\<lambda>d. d = D) (io_bind (read_epoch st) (\<lambda>current.
      if current = MAX_U64 then io_raise WAWRuntimeEpochError
      else let text_epoch = dec_str (nat (current + 1)) in
        io_bind (run_callback (prepare text_epoch)) (\<lambda>prepared.
        io_bind (run_callback (validate prepared text_epoch)) (\<lambda>_.
        io_bind (replace_epoch st t (current + 1)) (\<lambda>_.
        io_return (current + 1, prepared)))))) (\<lambda>_ d. d = D) (\<lambda>d. d = D)"
  proof (rule hoare_bind [OF read_epoch_hoare hoare_assume])
    fix k assume "current_epoch D = Some k"
    then have k: "k = c" using assms(1) by simp
    show "hoare (\<lambda>d. d = D) (if k = MAX_U64 then io_raise WAWRuntimeEpochError
      else let text_epoch = dec_str (nat (k + 1)) in
        io_bind (run_callback (prepare text_epoch)) (\<lambda>prepared.
        io_bind (run_callback (validate prepared text_epoch)) (\<lambda>_.
        io_bind (replace_epoch st t (k + 1)) (\<lambda>_.
        io_return (k + 1, prepared))))) (\<lambda>_ d. d = D) (\<lambda>d. d = D)"
      using assms(2) unfolding k Let_def
      by (cases "prepare (dec_str (nat (c + 1)))"; cases "validate (projr (prepare (dec_str (nat (c + 1))))) (dec_str (nat (c + 1)))")
         (auto simp: hoare_def run_callback_def io_bind_def io_try_def io_raise_def io_return_def)
  qed
qed auto

section \<open>Properties\<close>

definition sample_store :: WAWRuntimeEpochStore where
  "sample_store = \<lparr>es_expected_uid = 990, es_expected_gid = 991\<rparr>"

definition sample_inode :: Inode where
  "sample_inode = \<lparr>in_kind = S_REG, in_uid = 990, in_gid = 991, in_imode = MODE_600, in_data = epoch_payload 41, in_synced = True\<rparr>"

definition sample_disk :: Disk where
  "sample_disk = \<lparr>dk_names = [epoch_json \<mapsto> 0], dk_versions = [[epoch_json \<mapsto> 0]], dk_inodes = [0 \<mapsto> sample_inode], dk_next = 1\<rparr>"

definition sample_machine :: Machine where
  "sample_machine = \<lparr>mc_answers = [Done, Done, Done, Done, Done, Done, Counts 3],
     mc_dir_stat = \<lparr>st_kind = S_DIR, st_dev = 1, st_ino = 2, st_uid = 990, st_gid = 991, st_imode = MODE_700\<rparr>,
     mc_new_uid = 990, mc_new_gid = 991, mc_new_imode = MODE_600, mc_disk = sample_disk\<rparr>"

lemma sample_facts:
  "safe [] sample_disk" "ready sample_store 41 sample_machine" "current_epoch sample_disk = Some 41"
  "dk_names (mc_disk sample_machine) (temp_name t) = None" "list_all benign (mc_answers sample_machine)"
  "mc_disk sample_machine = sample_disk"
proof -
  have "epoch_of (epoch_payload 41) = Some 41" by (rule payload_reads_back) (simp_all add: MAX_U64_eval)
  then show "ready sample_store 41 sample_machine" "current_epoch sample_disk = Some 41"
    by (auto simp: ready_def has_file_def env_ok_def sample_machine_def sample_store_def sample_disk_def sample_inode_def current_epoch_def)
qed (simp_all add: sample_machine_def sample_disk_def safe_def entry_ok_def sample_inode_def)

text \<open>C7. No epoch is handed out twice, whatever fails: along any sequence of calls with arbitrary failing,
  partial or interrupted system calls and of power losses, the epochs handed out strictly increase, and
  once one was handed out every directory content a power loss may restore has a readable epoch file
  that is not below it.\<close>

theorem epochs_never_repeat:
  assumes "safe [] d0" "(epoch_step st)\<^sup>*\<^sup>* (d0, []) (d, ks)"
  shows "sorted_wrt (<) ks \<and> (ks \<noteq> [] \<longrightarrow>
     (\<exists>n. current_epoch d = Some n \<and> last ks \<le> n)
     \<and> (\<forall>v\<in>set (dk_versions d). \<exists>i nd n. v epoch_json = Some i \<and> dk_inodes d i = Some nd \<and> in_synced nd
          \<and> epoch_of (in_data nd) = Some n \<and> last ks \<le> n))"
proof -
  have h: "safe ks d" "sorted_wrt (<) ks" using history_run [OF assms(2)] assms(1) by (auto simp: history_ok_def)
  have v: "\<exists>i nd n. v epoch_json = Some i \<and> dk_inodes d i = Some nd \<and> in_synced nd
          \<and> epoch_of (in_data nd) = Some n \<and> last ks \<le> n" if "ks \<noteq> []" "entry_ok ks d v" for v
    using that last_in_set [OF that(1)] by (auto simp: entry_ok_def split: option.splits)
  show ?thesis using h v safe_names [OF h(1)]
    by (fastforce simp: safe_def current_epoch_def)
qed

theorem epochs_never_repeat_witness:
  "\<exists>d n. (epoch_step sample_store)\<^sup>*\<^sup>* (sample_disk, []) (d, [42]) \<and> current_epoch d = Some n \<and> 42 \<le> n"
proof -
  obtain m' where "consume sample_store [] sample_machine = (Ret 42, m')"
    using consume_succeeds [of 41, unfolded succeeds_def] sample_facts(2,4,5) by (fastforce simp: MAX_U64_eval)
  from Step_consume [OF this, of "[]"] have r: "(epoch_step sample_store)\<^sup>*\<^sup>* (sample_disk, []) (mc_disk m', [42])"
    by (simp add: sample_facts r_into_rtranclp)
  show ?thesis using epochs_never_repeat [OF sample_facts(1) r] r by auto
qed

text \<open>C23. An epoch is consumed only for a value that was prepared and validated for it, and the counter
  never skips: a return comes with the next epoch on disk and with both callbacks' consent; a refusal by a
  callback leaves the disk as it was; after any other outcome the disk has the old epoch or the next.\<close>

theorem prepared_before_commit:
  assumes "safe ks (mc_disk m)" "current_epoch (mc_disk m) = Some c"
    "consume_prepared st t prepare validate m = (r, m')"
  shows "(\<forall>n x. r = Ret (n, x) \<longrightarrow> n = c + 1 \<and> current_epoch (mc_disk m') = Some n
        \<and> prepare (dec_str (nat n)) = Inr x \<and> validate x (dec_str (nat n)) = Inr ())
     \<and> ((\<forall>x. prepare (dec_str (nat (c + 1))) = Inr x \<longrightarrow> validate x (dec_str (nat (c + 1))) \<noteq> Inr ()) \<longrightarrow> mc_disk m' = mc_disk m)
     \<and> (current_epoch (mc_disk m') = Some c \<or> current_epoch (mc_disk m') = Some (c + 1))"
proof -
  note h = hoareD [OF prepared_hoare [OF assms(1)] assms(3)]
  have "mc_disk m' = mc_disk m"
    if "\<forall>x. prepare (dec_str (nat (c + 1))) = Inr x \<longrightarrow> validate x (dec_str (nat (c + 1))) \<noteq> Inr ()"
    using hoareD [OF callbacks_refuse [OF assms(2)] assms(3)] that by blast
  then show ?thesis using h assms(2) by (auto simp: stepped_def kept_def)
qed

theorem prepared_before_commit_witness:
  "\<exists>r m'. consume_prepared sample_store [] (\<lambda>_. Inl 5 :: nat + nat) (\<lambda>_ _. Inr ()) sample_machine = (r, m')
     \<and> mc_disk m' = sample_disk"
proof -
  obtain r m' where c: "consume_prepared sample_store [] (\<lambda>_. Inl 5 :: nat + nat) (\<lambda>_ _. Inr ()) sample_machine = (r, m')"
    by fastforce
  have "mc_disk m' = sample_disk"
    using prepared_before_commit [OF _ _ c, of "[]" 41] sample_facts(1,3,6) by simp
  then show ?thesis using c by blast
qed

text \<open>C22. A store whose directory and file are in order hands out the next epoch: if every system call
  works, in however many partial reads and writes, \<open>consume\<close> returns the successor of the epoch on disk
  and leaves the store ready to do it again.\<close>

theorem consume_returns_next:
  assumes "ready st n m" "n < MAX_U64" "dk_names (mc_disk m) (temp_name t) = None" "list_all benign (mc_answers m)"
  shows "\<exists>m'. consume st t m = (Ret (n + 1), m') \<and> ready st (n + 1) m' \<and> current_epoch (mc_disk m') = Some (n + 1)"
proof -
  obtain m' where "consume st t m = (Ret (n + 1), m')" "ready st (n + 1) m'"
    using consume_succeeds [OF assms(2), unfolded succeeds_def, rule_format, of st m t] assms by blast
  moreover from this have "current_epoch (mc_disk m') = Some (n + 1)"
    by (auto simp: ready_def has_file_def current_epoch_def)
  ultimately show ?thesis by blast
qed

theorem consume_returns_next_witness:
  "\<exists>m'. consume sample_store (lit ''00'') sample_machine = (Ret 42, m') \<and> current_epoch (mc_disk m') = Some 42"
  using consume_returns_next [OF sample_facts(2) _ sample_facts(4,5)] by (auto simp: MAX_U64_eval)

end
