(* ===== verification/Favorites.thy ===== *)
theory Favorites
  imports Tables
begin

text \<open>
  Project favourites with revision compare-and-set (\<open>agentbox_core/favorites.py\<close>). The database is
  the administrators with their active flag, the projects, the favourite rows under their primary
  key, and the audit entries written in the same transaction. Arguments have their declared types.
\<close>

datatype favorite_error = InvalidSession | ProjectFavoriteValidationError | ProjectNotFound
  | ProjectFavoriteConflict | ProjectFavoriteLimitExceeded

definition MAX_REVISION :: int where "MAX_REVISION = 2 ^ 53 - 1"
definition MAX_RECORDS :: nat where "MAX_RECORDS = 10000"

lemma MAX_REVISION_eval: "MAX_REVISION = 9007199254740991"
  by (simp add: MAX_REVISION_def)

record ProjectFavorite =
  fv_favorite :: bool
  fv_revision :: int
  fv_updated_at :: int

record ProjectFavoriteState =
  fs_project_id :: pystr
  fs_favorite :: bool
  fs_revision :: int
  fs_updated_at :: "int option"

record FavoriteAudit =
  fa_actor_id :: pystr
  fa_request_id :: "pystr option"
  fa_target_id :: pystr
  fa_favorite :: bool
  fa_revision :: int

record FavoriteDb =
  db_admins :: "(pystr \<times> bool) list"
  db_projects :: "pystr list"
  db_favorites :: "((pystr \<times> pystr) \<times> ProjectFavorite) list"
  db_audit :: "FavoriteAudit list"

text \<open>A full match of the prefix and 32 lowercase hexadecimal digits.\<close>

definition prefixed_id :: "string \<Rightarrow> pystr \<Rightarrow> bool" where
  "prefixed_id pre s \<longleftrightarrow> length s = length pre + 32 \<and> take (length pre) s = lit pre
     \<and> list_all (\<lambda>c. 48 \<le> c \<and> c \<le> 57 \<or> 97 \<le> c \<and> c \<le> 102) (drop (length pre) s)"

definition favorite_admin_id :: "pystr \<Rightarrow> favorite_error + pystr" where
  "favorite_admin_id v = (if prefixed_id ''adm_'' v then Inr v else Inl InvalidSession)"

definition favorite_project_id :: "pystr \<Rightarrow> favorite_error + pystr" where
  "favorite_project_id v =
     (if prefixed_id ''prj_'' v then Inr v else Inl ProjectFavoriteValidationError)"

definition favorite_state :: "pystr \<Rightarrow> ProjectFavorite \<Rightarrow> ProjectFavoriteState" where
  "favorite_state project row = \<lparr>fs_project_id = project, fs_favorite = fv_favorite row,
     fs_revision = fv_revision row, fs_updated_at = Some (fv_updated_at row)\<rparr>"

text \<open>\<open>user is None or not user.is_active\<close>\<close>

definition active_admin :: "FavoriteDb \<Rightarrow> pystr \<Rightarrow> bool" where
  "active_admin db a \<longleftrightarrow> map_of (db_admins db) a = Some True"

definition favorite_list :: "FavoriteDb \<Rightarrow> pystr \<Rightarrow> favorite_error + ProjectFavoriteState list" where
  "favorite_list db admin_user_id =
     ebind (favorite_admin_id admin_user_id) (\<lambda>admin.
     if \<not> active_admin db admin then Inl InvalidSession
     else
       let rows = take (MAX_RECORDS + 1)
         (sort_key (snd \<circ> fst) (filter (\<lambda>((a, p), r). a = admin) (db_favorites db)))
       in if length rows > MAX_RECORDS then Inl ProjectFavoriteLimitExceeded
          else Inr (map (\<lambda>((a, p), r). favorite_state p r) rows))"

text \<open>The row changes of \<open>set\<close> after the compare: the result and the new rows.\<close>

definition favorite_write ::
  "((pystr \<times> pystr) \<times> ProjectFavorite) list \<Rightarrow> pystr \<Rightarrow> pystr \<Rightarrow> bool \<Rightarrow> int \<Rightarrow>
   favorite_error + ProjectFavoriteState \<times> ((pystr \<times> pystr) \<times> ProjectFavorite) list" where
  "favorite_write rows admin project favorite now =
     (case map_of rows (admin, project) of
        None \<Rightarrow>
          if \<not> favorite then
            Inr (\<lparr>fs_project_id = project, fs_favorite = False, fs_revision = 0, fs_updated_at = None\<rparr>, rows)
          else if count_rows (\<lambda>k. fst k = admin) rows \<ge> MAX_RECORDS then Inl ProjectFavoriteLimitExceeded
          else
            let row = \<lparr>fv_favorite = True, fv_revision = 1, fv_updated_at = now\<rparr>
            in Inr (favorite_state project row, AList.update (admin, project) row rows)
      | Some row \<Rightarrow>
          if fv_favorite row = favorite then Inr (favorite_state project row, rows)
          else if fv_revision row \<ge> MAX_REVISION then Inl ProjectFavoriteConflict
          else
            let row' = \<lparr>fv_favorite = favorite, fv_revision = fv_revision row + 1, fv_updated_at = now\<rparr>
            in Inr (favorite_state project row', AList.update (admin, project) row' rows))"

definition current_revision :: "((pystr \<times> pystr) \<times> ProjectFavorite) list \<Rightarrow> pystr \<Rightarrow> pystr \<Rightarrow> int" where
  "current_revision rows admin project =
     (case map_of rows (admin, project) of None \<Rightarrow> 0 | Some row \<Rightarrow> fv_revision row)"

definition favorite_set ::
  "FavoriteDb \<Rightarrow> pystr \<Rightarrow> pystr \<Rightarrow> bool \<Rightarrow> int \<Rightarrow> pystr option \<Rightarrow> int \<Rightarrow>
   (favorite_error + ProjectFavoriteState) \<times> FavoriteDb" where
  "favorite_set db admin_user_id project_id favorite expected_revision request_id now =
     (case
        ebind (favorite_admin_id admin_user_id) (\<lambda>admin.
        ebind (favorite_project_id project_id) (\<lambda>target.
        if \<not> (0 \<le> expected_revision \<and> expected_revision \<le> MAX_REVISION)
        then Inl ProjectFavoriteValidationError
        else if \<not> active_admin db admin then Inl InvalidSession
        else if target \<notin> set (db_projects db) then Inl ProjectNotFound
        else if expected_revision \<noteq> current_revision (db_favorites db) admin target
        then Inl ProjectFavoriteConflict
        else favorite_write (db_favorites db) admin target favorite now))
      of
        Inl e \<Rightarrow> (Inl e, db)
      | Inr (result, rows) \<Rightarrow>
          (Inr result,
           db\<lparr>db_favorites := rows,
              db_audit := db_audit db @ [\<lparr>fa_actor_id = admin_user_id, fa_request_id = request_id,
                fa_target_id = project_id, fa_favorite = fs_favorite result,
                fa_revision = fs_revision result\<rparr>]\<rparr>))"

section \<open>Runs\<close>

inductive favorite_step :: "FavoriteDb \<Rightarrow> FavoriteDb \<Rightarrow> bool" where
  step_set: "favorite_set db a p fav expd req now = (r, db') \<Longrightarrow> favorite_step db db'"
| step_list: "favorite_list db a = r \<Longrightarrow> favorite_step db db"

definition favorites_ok :: "FavoriteDb \<Rightarrow> bool" where
  "favorites_ok db \<longleftrightarrow> table (db_favorites db)
     \<and> (\<forall>k r. map_of (db_favorites db) k = Some r \<longrightarrow> 1 \<le> fv_revision r \<and> fv_revision r \<le> MAX_REVISION)
     \<and> (\<forall>a. count_rows (\<lambda>k. fst k = a) (db_favorites db) \<le> MAX_RECORDS)"

text \<open>The two ways a successful write changes the rows.\<close>

lemma favorite_write_cases:
  assumes "favorite_write rows admin project favorite now = Inr (result, rows')"
  obtains (same) "rows' = rows" "fs_revision result = current_revision rows admin project"
      "fs_favorite result = favorite"
  | (changed) "rows' = AList.update (admin, project) \<lparr>fv_favorite = favorite,
        fv_revision = current_revision rows admin project + 1, fv_updated_at = now\<rparr> rows"
      "current_revision rows admin project < MAX_REVISION"
      "fs_revision result = current_revision rows admin project + 1" "fs_favorite result = favorite"
      "map_of rows (admin, project) = None \<longrightarrow> favorite \<and> count_rows (\<lambda>k. fst k = admin) rows < MAX_RECORDS"
      "\<forall>r. map_of rows (admin, project) = Some r \<longrightarrow> fv_favorite r \<noteq> favorite"
  using assms
  by (auto simp: favorite_write_def current_revision_def favorite_state_def MAX_REVISION_eval Let_def
      split: option.splits if_splits)

lemma favorite_set_Inr:
  assumes "favorite_set db a p fav expd req now = (Inr result, db')"
  shows "\<exists>rows. favorite_write (db_favorites db) a p fav now = Inr (result, rows)
    \<and> expd = current_revision (db_favorites db) a p \<and> db_favorites db' = rows"
  using assms
  by (auto simp: favorite_set_def favorite_admin_id_def favorite_project_id_def result_simps
      split: sum.splits if_splits prod.splits)

lemma favorite_set_Inl: "favorite_set db a p fav expd req now = (Inl e, db') \<Longrightarrow> db' = db"
  by (auto simp: favorite_set_def split: sum.splits)

lemma favorite_write_ok:
  assumes "favorites_ok db" "favorite_write (db_favorites db) a p fav now = Inr (result, rows)"
    "db_favorites db' = rows"
  shows "favorites_ok db'"
  using assms(2)
proof (cases rule: favorite_write_cases)
  case same
  then show ?thesis
    using assms(1,3) by (simp add: favorites_ok_def)
next
  case changed
  have "0 \<le> current_revision (db_favorites db) a p"
    using assms(1) by (fastforce simp: current_revision_def favorites_ok_def split: option.splits)
  then show ?thesis
    using changed assms(1,3)
    by (auto simp: favorites_ok_def table_simps count_update split: if_splits)
qed

lemma favorite_step_ok: "favorite_step db db' \<Longrightarrow> favorites_ok db \<Longrightarrow> favorites_ok db'"
proof (induction rule: favorite_step.induct)
  case (step_set db a p fav expd req now r db')
  then show ?case
    by (cases r) (auto dest: favorite_set_Inl favorite_set_Inr favorite_write_ok)
qed

lemma favorite_run_ok: "favorite_step\<^sup>*\<^sup>* db db' \<Longrightarrow> favorites_ok db \<Longrightarrow> favorites_ok db'"
  by (induction rule: rtranclp_induct) (auto dest: favorite_step_ok)

text \<open>What one row can do: a step leaves it alone or raises its revision.\<close>

definition row_evolves :: "FavoriteDb \<Rightarrow> FavoriteDb \<Rightarrow> pystr \<times> pystr \<Rightarrow> bool" where
  "row_evolves db db' k \<longleftrightarrow>
     map_of (db_favorites db') k = map_of (db_favorites db) k
     \<or> current_revision (db_favorites db) (fst k) (snd k) < current_revision (db_favorites db') (fst k) (snd k)"

lemma favorite_step_evolves: "favorite_step db db' \<Longrightarrow> row_evolves db db' k"
proof (induction rule: favorite_step.induct)
  case (step_set db a p fav expd req now r db')
  show ?case
  proof (cases r)
    case (Inl e)
    then show ?thesis
      using step_set favorite_set_Inl by (fastforce simp: row_evolves_def)
  next
    case (Inr result)
    obtain rows where "favorite_write (db_favorites db) a p fav now = Inr (result, rows)" "db_favorites db' = rows"
      using favorite_set_Inr step_set Inr by blast
    then show ?thesis
      by (cases rule: favorite_write_cases) (auto simp: row_evolves_def table_simps current_revision_def split: if_splits)
  qed
qed (simp add: row_evolves_def)

lemma favorite_run_evolves: "favorite_step\<^sup>*\<^sup>* db db' \<Longrightarrow> row_evolves db db' k"
proof (induction rule: rtranclp_induct)
  case (step db1 db2)
  then show ?case
    using favorite_step_evolves [OF step(2), of k]
    by (auto simp: row_evolves_def current_revision_def split: option.splits)
qed (simp add: row_evolves_def)

section \<open>Properties\<close>

text \<open>
  C27. Revision compare-and-set rules out lost updates. Across any sequence of service calls the
  revision of a favourite never decreases, and while it is unchanged so is the row. So when a
  client that read revision \<open>n\<close> later succeeds in setting the favourite with \<open>n\<close> as the expected
  revision, nobody has changed the row since it was read; the result carries the requested value
  and a revision that is \<open>n\<close> or \<open>n + 1\<close>.
\<close>

theorem favorite_no_lost_update:
  assumes "favorite_step\<^sup>*\<^sup>* db db'"
    "favorite_set db' a p fav (current_revision (db_favorites db) a p) req now = (Inr r, db'')"
  shows "map_of (db_favorites db') (a, p) = map_of (db_favorites db) (a, p) \<and> fs_favorite r = fav
    \<and> fs_revision r = current_revision (db_favorites db'') a p
    \<and> current_revision (db_favorites db) a p \<le> fs_revision r
    \<and> fs_revision r \<le> current_revision (db_favorites db) a p + 1"
proof -
  obtain rows where w: "favorite_write (db_favorites db') a p fav now = Inr (r, rows)"
    "current_revision (db_favorites db) a p = current_revision (db_favorites db') a p" "db_favorites db'' = rows"
    using favorite_set_Inr [OF assms(2)] by blast
  have same: "map_of (db_favorites db') (a, p) = map_of (db_favorites db) (a, p)"
    using favorite_run_evolves [OF assms(1), of "(a, p)"] w(2) by (simp add: row_evolves_def)
  show ?thesis
    using w(1) by (cases rule: favorite_write_cases)
      (auto simp: same w(2,3) current_revision_def [of "AList.update _ _ _"] table_simps)
qed

definition sample_favorites :: FavoriteDb where
  "sample_favorites = \<lparr>db_admins = [(lit ''adm_'' @ replicate 32 48, True)],
     db_projects = [lit ''prj_'' @ replicate 32 49], db_favorites = [], db_audit = []\<rparr>"

theorem favorite_no_lost_update_witness:
  "\<exists>r db''. favorite_set sample_favorites (lit ''adm_'' @ replicate 32 48) (lit ''prj_'' @ replicate 32 49) True 0 None 5 = (Inr r, db'')
     \<and> fs_favorite r = True \<and> fs_revision r = 1 \<and> current_revision (db_favorites db'') (lit ''adm_'' @ replicate 32 48) (lit ''prj_'' @ replicate 32 49) = 1"
proof -
  let ?a = "lit ''adm_'' @ replicate 32 48" and ?p = "lit ''prj_'' @ replicate 32 49"
  obtain r db'' where set: "favorite_set sample_favorites ?a ?p True 0 None 5 = (Inr r, db'')" "fs_revision r = 1"
    by (simp add: favorite_set_def favorite_admin_id_def favorite_project_id_def prefixed_id_def lit_def
        active_admin_def sample_favorites_def current_revision_def favorite_write_def count_rows_def
        MAX_RECORDS_def MAX_REVISION_def favorite_state_def list_all_length)
  have "current_revision (db_favorites sample_favorites) ?a ?p = 0"
    by (simp add: current_revision_def sample_favorites_def)
  then show ?thesis
    using favorite_no_lost_update [of sample_favorites sample_favorites ?a ?p True None 5 r db''] set by auto
qed

definition admin_rows :: "FavoriteDb \<Rightarrow> pystr \<Rightarrow> nat" where
  "admin_rows db a = count_rows (\<lambda>k. fst k = a) (db_favorites db)"

text \<open>
  The limits hold in every state the service can reach: revisions stay within the range a web
  client represents exactly, an administrator never has more than 10,000 rows, and therefore
  listing never fails for an active administrator and returns every row.
\<close>

theorem favorites_bounded:
  assumes "favorites_ok db" "favorite_step\<^sup>*\<^sup>* db db'" "prefixed_id ''adm_'' a" "active_admin db' a"
  shows "favorites_ok db' \<and> (\<exists>rows. favorite_list db' a = Inr rows \<and> length rows = admin_rows db' a)"
proof -
  have ok: "favorites_ok db'"
    using favorite_run_ok assms(1,2) by blast
  have eq: "filter (\<lambda>((x, p), r). x = a) (db_favorites db') = filter ((\<lambda>k. fst k = a) \<circ> fst) (db_favorites db')"
    by (rule filter_cong) auto
  have "admin_rows db' a \<le> MAX_RECORDS"
    using ok by (simp add: favorites_ok_def admin_rows_def)
  then show ?thesis
    using ok assms(3,4)
    by (auto simp: favorite_list_def favorite_admin_id_def eq Let_def admin_rows_def count_rows_def)
qed

theorem favorites_bounded_witness:
  "favorites_ok sample_favorites
   \<and> (\<exists>rows. favorite_list sample_favorites (lit ''adm_'' @ replicate 32 48) = Inr rows
        \<and> length rows = admin_rows sample_favorites (lit ''adm_'' @ replicate 32 48))"
proof (rule favorites_bounded)
  show "favorites_ok sample_favorites"
    by (simp add: favorites_ok_def sample_favorites_def count_rows_def)
qed (simp_all add: prefixed_id_def lit_def sample_favorites_def active_admin_def list_all_length)

end
