(* ===== verification/Rate_Limit.thy ===== *)
theory Rate_Limit
  imports Tables Py_Utf8 Py_Hash
begin

text \<open>
  The persistent login throttle (\<open>agentbox_core/rate_limit.py\<close>, with \<open>keyed_digest\<close> of
  \<open>security.py\<close>). Times and durations are microseconds. A stored timestamp is \<open>None\<close> when it is no
  string or does not parse; \<open>isoformat\<close> and \<open>fromisoformat\<close> are inverse on the rest. A locked or
  busy database, which fails the call without any effect, is left out.
\<close>

definition keyed_digest :: "pystr \<Rightarrow> pystr \<Rightarrow> pystr \<Rightarrow> pystr option" where
  "keyed_digest application_secret purpose v =
     Option.bind (utf8_encode application_secret) (\<lambda>key.
       map_option (\<lambda>msg. hex_bytes (hmac_sha256 key msg)) (utf8_encode (purpose @ [0] @ v)))"

record RateLimitDecision =
  rd_allowed :: bool
  rd_retry_after :: int

datatype stored_stamps = Stamps "int option list" | NotAList

record LoginRateLimitBucket =
  rb_failure_timestamps :: stored_stamps
  rb_locked_until :: "int option"
  rb_updated_at :: int

type_synonym buckets = "(pystr \<times> LoginRateLimitBucket) list"

record LoginRateLimiter =
  rl_secret :: pystr
  rl_limit :: nat
  rl_window :: int
  rl_lock :: int
  rl_max_rows :: nat
  rl_purpose :: pystr

datatype rate_error = LoginRateLimited int | RateUnicodeError | RateIntegrityError

definition rate_keys :: "LoginRateLimiter \<Rightarrow> pystr \<Rightarrow> pystr \<Rightarrow> rate_error + pystr \<times> pystr \<times> pystr" where
  "rate_keys rl username source =
     (let pre = (if rl_purpose rl = lit ''login'' then lit ''rate'' else rl_purpose rl @ lit ''-rate'') in
      case (keyed_digest (rl_secret rl) (pre @ lit ''-account'') username,
            keyed_digest (rl_secret rl) (pre @ lit ''-source'') source,
            keyed_digest (rl_secret rl) (pre @ lit ''-combined'') (username @ [0] @ source)) of
        (Some account, Some client, Some combined) \<Rightarrow> Inr (account, client, combined)
      | _ \<Rightarrow> Inl RateUnicodeError)"

definition ceil_seconds :: "int \<Rightarrow> int" where
  "ceil_seconds d = - ((- d) div 1000000)"

definition lock_retry :: "LoginRateLimiter \<Rightarrow> int" where
  "lock_retry rl = max 1 (ceil_seconds (rl_lock rl))"

text \<open>The slice \<open>xs[-n:]\<close>, which is the whole list when \<open>n\<close> is zero.\<close>

definition last_n :: "nat \<Rightarrow> 'a list \<Rightarrow> 'a list" where
  "last_n n xs = (if n = 0 then xs else drop (length xs - n) xs)"

definition delete_expired :: "LoginRateLimiter \<Rightarrow> int \<Rightarrow> buckets \<Rightarrow> buckets" where
  "delete_expired rl now rows =
     delete_rows (\<lambda>(k, b). rb_updated_at b \<le> now - rl_window rl - rl_lock rl) rows"

definition pruned_attempts :: "LoginRateLimiter \<Rightarrow> LoginRateLimitBucket \<Rightarrow> int \<Rightarrow> int list" where
  "pruned_attempts rl b now =
     (case rb_failure_timestamps b of
        NotAList \<Rightarrow> []
      | Stamps raws \<Rightarrow>
          concat (map (\<lambda>raw. case raw of
              None \<Rightarrow> []
            | Some v \<Rightarrow>
                let v' = (if v > now then now else v)
                in if now - rl_window rl < v' then [v'] else [])
            (last_n (rl_limit rl) raws)))"

text \<open>One existing bucket in \<open>check\<close>: the seconds to wait, and the bucket afterwards.\<close>

definition check_bucket :: "LoginRateLimiter \<Rightarrow> int \<Rightarrow> LoginRateLimitBucket \<Rightarrow> int \<times> LoginRateLimitBucket" where
  "check_bucket rl now b =
     (case rb_locked_until b of
        Some u \<Rightarrow>
          if u > now then
            (if u - now > rl_lock rl
             then (lock_retry rl, b\<lparr>rb_locked_until := Some (now + rl_lock rl), rb_updated_at := now\<rparr>)
             else (max 1 (ceil_seconds (u - now)), b))
          else (0, b\<lparr>rb_failure_timestamps := Stamps (map Some (pruned_attempts rl b now)),
                     rb_locked_until := None, rb_updated_at := now\<rparr>)
      | None \<Rightarrow> (0, b\<lparr>rb_failure_timestamps := Stamps (map Some (pruned_attempts rl b now)),
                      rb_locked_until := None, rb_updated_at := now\<rparr>))"

fun check_keys :: "LoginRateLimiter \<Rightarrow> int \<Rightarrow> pystr list \<Rightarrow> buckets \<Rightarrow> int \<Rightarrow> int \<times> buckets" where
  "check_keys rl now [] rows retry = (retry, rows)"
| "check_keys rl now (k # ks) rows retry =
     (case map_of rows k of
        None \<Rightarrow> check_keys rl now ks rows retry
      | Some b \<Rightarrow>
          (case check_bucket rl now b of
             (r, b') \<Rightarrow> check_keys rl now ks (AList.update k b' rows) (max retry r)))"

definition missing_count :: "pystr list \<Rightarrow> buckets \<Rightarrow> nat" where
  "missing_count ks rows = length (filter (\<lambda>k. map_of rows k = None) ks)"

definition rate_check ::
  "LoginRateLimiter \<Rightarrow> buckets \<Rightarrow> pystr \<Rightarrow> pystr \<Rightarrow> int \<Rightarrow> (rate_error + RateLimitDecision) \<times> buckets" where
  "rate_check rl rows username source now =
     (case rate_keys rl username source of
        Inl e \<Rightarrow> (Inl e, rows)
      | Inr (account, client, combined) \<Rightarrow>
          let ks = [account, client, combined];
              rows1 = delete_expired rl now rows;
              missing = missing_count ks rows1
          in if missing \<noteq> 0 \<and> length rows1 + missing > rl_max_rows rl
             then (Inr \<lparr>rd_allowed = False, rd_retry_after = lock_retry rl\<rparr>, rows1)
             else case check_keys rl now (remdups ks) rows1 0 of
               (retry, rows2) \<Rightarrow> (Inr \<lparr>rd_allowed = (retry = 0), rd_retry_after = retry\<rparr>, rows2))"

definition fail_bucket :: "LoginRateLimiter \<Rightarrow> int \<Rightarrow> LoginRateLimitBucket \<Rightarrow> LoginRateLimitBucket" where
  "fail_bucket rl now b =
     (let attempts = last_n (rl_limit rl) (pruned_attempts rl b now @ [now]);
          b' = b\<lparr>rb_failure_timestamps := Stamps (map Some attempts), rb_updated_at := now\<rparr>
      in if length attempts \<ge> rl_limit rl then b'\<lparr>rb_locked_until := Some (now + rl_lock rl)\<rparr> else b')"

definition fresh_bucket :: "int \<Rightarrow> LoginRateLimitBucket" where
  "fresh_bucket now = \<lparr>rb_failure_timestamps = Stamps [], rb_locked_until = None, rb_updated_at = now\<rparr>"

text \<open>
  The loop of \<open>register_failure\<close>; \<open>existing\<close> are the rows selected before it. A key that occurs
  twice and had no row would be inserted twice, which the primary key refuses.
\<close>

fun fail_keys :: "LoginRateLimiter \<Rightarrow> int \<Rightarrow> buckets \<Rightarrow> pystr list \<Rightarrow> buckets \<Rightarrow> rate_error + buckets" where
  "fail_keys rl now existing [] rows = Inr rows"
| "fail_keys rl now existing (k # ks) rows =
     (case map_of rows k of
        Some b \<Rightarrow>
          if map_of existing k = None then Inl RateIntegrityError
          else fail_keys rl now existing ks (AList.update k (fail_bucket rl now b) rows)
      | None \<Rightarrow> fail_keys rl now existing ks (AList.update k (fail_bucket rl now (fresh_bucket now)) rows))"

definition register_failure ::
  "LoginRateLimiter \<Rightarrow> buckets \<Rightarrow> pystr \<Rightarrow> pystr \<Rightarrow> int \<Rightarrow> (rate_error + unit) \<times> buckets" where
  "register_failure rl rows username source now =
     (case
        ebind (rate_keys rl username source) (\<lambda>(account, client, combined).
          let ks = [account, client, combined]; rows1 = delete_expired rl now rows
          in if length rows1 + missing_count ks rows1 > rl_max_rows rl
             then Inl (LoginRateLimited (lock_retry rl))
             else fail_keys rl now rows1 ks rows1)
      of Inl e \<Rightarrow> (Inl e, rows) | Inr rows' \<Rightarrow> (Inr (), rows'))"

definition register_success ::
  "LoginRateLimiter \<Rightarrow> buckets \<Rightarrow> pystr \<Rightarrow> pystr \<Rightarrow> (rate_error + unit) \<times> buckets" where
  "register_success rl rows username source =
     (case rate_keys rl username source of
        Inl e \<Rightarrow> (Inl e, rows)
      | Inr (account, client, combined) \<Rightarrow>
          (Inr (), delete_rows (\<lambda>(k, b). k = account \<or> k = combined) rows))"

definition rate_cleanup :: "LoginRateLimiter \<Rightarrow> buckets \<Rightarrow> int \<Rightarrow> nat \<times> buckets" where
  "rate_cleanup rl rows now =
     (length rows - length (delete_expired rl now rows), delete_expired rl now rows)"

section \<open>Bounds\<close>

lemma ceil_seconds_mono: "d \<le> d' \<Longrightarrow> ceil_seconds d \<le> ceil_seconds d'"
  by (simp add: ceil_seconds_def zdiv_mono1)

lemma check_bucket_retry:
  "check_bucket rl now b = (r, b') \<Longrightarrow> r = 0 \<or> 1 \<le> r \<and> r \<le> lock_retry rl"
  using ceil_seconds_mono [of "the (rb_locked_until b) - now" "rl_lock rl"]
  by (auto simp: check_bucket_def lock_retry_def split: option.splits if_splits)

lemma check_keys_retry:
  "check_keys rl now ks rows retry = (r, rows') \<Longrightarrow> 0 \<le> retry \<Longrightarrow> retry \<le> lock_retry rl \<Longrightarrow>
   retry \<le> r \<and> r \<le> lock_retry rl"
proof (induction ks arbitrary: rows retry)
  case (Cons k ks)
  show ?case
  proof (cases "map_of rows k")
    case (Some b)
    obtain x b' where x: "check_bucket rl now b = (x, b')"
      by fastforce
    then have "0 \<le> max retry x" "max retry x \<le> lock_retry rl"
      using check_bucket_retry [OF x] Cons.prems by auto
    then show ?thesis
      using Cons.IH [of "AList.update k b' rows" "max retry x"] Cons.prems Some x by simp
  qed (use Cons in simp)
qed auto

lemma check_keys_rows:
  "check_keys rl now ks rows retry = (r, rows') \<Longrightarrow> table rows \<Longrightarrow> table rows' \<and> length rows' = length rows"
proof (induction ks arbitrary: rows retry)
  case (Cons k ks)
  then show ?case
    by (fastforce simp: length_update split: option.splits prod.splits)
qed simp

lemma missing_count_Cons:
  "missing_count (k # ks) rows = (if map_of rows k = None then 1 else 0) + missing_count ks rows"
  by (simp add: missing_count_def)

lemma missing_count_update: "missing_count ks (AList.update k b rows) \<le> missing_count ks rows"
  by (induction ks) (auto simp: missing_count_Cons table_simps, simp_all add: missing_count_def)

lemma fail_keys_rows:
  "fail_keys rl now existing ks rows = Inr rows' \<Longrightarrow> table rows \<Longrightarrow>
   table rows' \<and> length rows' \<le> length rows + missing_count ks rows"
proof (induction ks arbitrary: rows)
  case (Cons k ks)
  show ?case
  proof (cases "map_of rows k")
    case None
    let ?rows = "AList.update k (fail_bucket rl now (fresh_bucket now)) rows"
    show ?thesis
      using Cons.IH [of ?rows] Cons.prems None
        missing_count_update [of ks k "fail_bucket rl now (fresh_bucket now)" rows]
      by (auto simp: missing_count_Cons length_update)
  next
    case (Some b)
    let ?rows = "AList.update k (fail_bucket rl now b) rows"
    show ?thesis
      using Cons.IH [of ?rows] Cons.prems Some missing_count_update [of ks k "fail_bucket rl now b" rows]
      by (auto simp: missing_count_Cons length_update split: if_splits)
  qed
qed (simp add: missing_count_def)

lemma delete_expired_rows: "table rows \<Longrightarrow> table (delete_expired rl now rows)"
  "length (delete_expired rl now rows) \<le> length rows"
  by (simp_all add: delete_expired_def length_delete)

inductive rate_step :: "LoginRateLimiter \<Rightarrow> buckets \<Rightarrow> buckets \<Rightarrow> bool" for rl where
  step_check: "rate_check rl rows u s now = (r, rows') \<Longrightarrow> rate_step rl rows rows'"
| step_failure: "register_failure rl rows u s now = (r, rows') \<Longrightarrow> rate_step rl rows rows'"
| step_success: "register_success rl rows u s = (r, rows') \<Longrightarrow> rate_step rl rows rows'"
| step_cleanup: "rate_cleanup rl rows now = (n, rows') \<Longrightarrow> rate_step rl rows rows'"

lemma rate_step_rows:
  assumes "rate_step rl rows rows'" "table rows" "length rows \<le> rl_max_rows rl"
  shows "table rows' \<and> length rows' \<le> rl_max_rows rl"
  using assms
proof (induction rule: rate_step.induct)
  case (step_check rows u s now r rows')
  note del = delete_expired_rows [where rows = rows and rl = rl and now = now]
  show ?case
  proof (cases "rate_keys rl u s")
    case (Inr ks)
    then show ?thesis
      using step_check del
      by (auto simp: rate_check_def Let_def simp del: check_keys.simps remdups.simps
          split: prod.splits if_splits dest!: check_keys_rows)
  qed (use step_check in \<open>simp add: rate_check_def\<close>)
next
  case (step_failure rows u s now r rows')
  note del = delete_expired_rows [where rows = rows and rl = rl and now = now]
  show ?case
    using step_failure del
    by (fastforce simp: register_failure_def Let_def result_simps simp del: fail_keys.simps
        split: sum.splits prod.splits if_splits dest!: fail_keys_rows)
next
  case (step_success rows u s r rows')
  then show ?case
    using length_delete [of _ rows] by (auto simp: register_success_def split: sum.splits intro: le_trans)
next
  case (step_cleanup rows now n rows')
  then show ?case
    using delete_expired_rows [where rows = rows and rl = rl and now = now] by (auto simp: rate_cleanup_def)
qed

section \<open>Locking after repeated failures\<close>

text \<open>\<open>recent m t0 xs\<close>: the last \<open>m\<close> times of \<open>xs\<close> are not before \<open>t0\<close>.\<close>

definition recent :: "nat \<Rightarrow> int \<Rightarrow> int list \<Rightarrow> bool" where
  "recent m t0 xs \<longleftrightarrow> (\<exists>ys zs. xs = ys @ zs \<and> length zs = m \<and> (\<forall>z \<in> set zs. t0 \<le> z))"

lemma recent_0 [simp]: "recent 0 t0 xs"
  by (auto simp: recent_def)

lemma recent_length: "recent m t0 xs \<Longrightarrow> m \<le> length xs"
  by (auto simp: recent_def)

lemma recent_mono: "recent m t0 xs \<Longrightarrow> n \<le> m \<Longrightarrow> recent n t0 xs"
proof -
  assume "recent m t0 xs" "n \<le> m"
  then obtain ys zs where "xs = ys @ zs" "length zs = m" "\<forall>z \<in> set zs. t0 \<le> z"
    by (auto simp: recent_def)
  then show ?thesis
    using \<open>n \<le> m\<close> unfolding recent_def
    by (intro exI [of _ "ys @ take (m - n) zs"] exI [of _ "drop (m - n) zs"]) (auto dest: in_set_dropD)
qed

lemma recent_snoc: "recent m t0 xs \<Longrightarrow> t0 \<le> now \<Longrightarrow> recent (Suc m) t0 (xs @ [now])"
proof -
  assume "recent m t0 xs" "t0 \<le> now"
  then obtain ys zs where "xs = ys @ zs" "length zs = m" "\<forall>z \<in> set zs. t0 \<le> z"
    by (auto simp: recent_def)
  then show ?thesis
    using \<open>t0 \<le> now\<close> unfolding recent_def by (intro exI [of _ ys] exI [of _ "zs @ [now]"]) auto
qed

lemma recent_last_n: "recent m t0 xs \<Longrightarrow> 0 < n \<Longrightarrow> recent (min m n) t0 (last_n n xs)"
proof -
  assume "recent m t0 xs" and n: "0 < n"
  then have "recent (min m n) t0 xs"
    by (auto intro: recent_mono)
  then obtain ys zs where xs: "xs = ys @ zs" "length zs = min m n" "\<forall>z \<in> set zs. t0 \<le> z"
    by (auto simp: recent_def)
  have "last_n n xs = drop (length xs - n) ys @ zs"
    using n xs by (simp add: last_n_def)
  then show ?thesis
    using xs unfolding recent_def by blast
qed

lemma last_n_map: "last_n n (map f xs) = map f (last_n n xs)"
  by (simp add: last_n_def drop_map)

text \<open>Pruning keeps the times that are still in the window.\<close>

lemma pruned_recent:
  assumes "rb_failure_timestamps b = Stamps (map Some xs)" "recent m t0 xs" "m \<le> rl_limit rl" "0 < rl_limit rl"
    "t0 \<le> now" "now - rl_window rl < t0"
  shows "recent m t0 (pruned_attempts rl b now)"
proof -
  let ?f = "\<lambda>raw. case raw of None \<Rightarrow> [] | Some v \<Rightarrow> let v' = (if v > now then now else v)
    in if now - rl_window rl < v' then [v'] else []"
  have "recent m t0 (last_n (rl_limit rl) xs)"
    using recent_last_n [OF assms(2,4)] assms(3) by (simp add: min_def)
  then obtain ys zs where xs: "last_n (rl_limit rl) xs = ys @ zs" "length zs = m" "\<forall>z \<in> set zs. t0 \<le> z"
    by (auto simp: recent_def)
  have keep: "concat (map ?f (map Some zs)) = map (\<lambda>v. if v > now then now else v) zs"
    using xs(3) assms(5,6) by (induction zs) (auto simp: Let_def)
  have "pruned_attempts rl b now = concat (map ?f (map Some ys)) @ concat (map ?f (map Some zs))"
    using assms(1) xs(1) unfolding pruned_attempts_def
    by (simp only: stored_stamps.case last_n_map map_append concat_append)
  then show ?thesis
    using keep xs(2,3) assms(5) unfolding recent_def
    by (intro exI [of _ "concat (map ?f (map Some ys))"]
        exI [of _ "map (\<lambda>v. if v > now then now else v) zs"]) auto
qed

definition failing :: "LoginRateLimiter \<Rightarrow> nat \<Rightarrow> int \<Rightarrow> int \<Rightarrow> LoginRateLimitBucket \<Rightarrow> bool" where
  "failing rl m t0 now b \<longleftrightarrow> rb_updated_at b = now
     \<and> (\<exists>xs. rb_failure_timestamps b = Stamps (map Some xs) \<and> recent m t0 xs)
     \<and> (rl_limit rl \<le> m \<longrightarrow> rb_locked_until b = Some (now + rl_lock rl))"

lemma fail_bucket_failing:
  assumes "recent m t0 (pruned_attempts rl b now)" "0 < rl_limit rl" "t0 \<le> now" "n \<le> Suc m" "n \<le> rl_limit rl"
  shows "failing rl n t0 now (fail_bucket rl now b)"
proof -
  have "recent (min (Suc m) (rl_limit rl)) t0 (last_n (rl_limit rl) (pruned_attempts rl b now @ [now]))"
    using recent_last_n [OF recent_snoc [OF assms(1,3)] assms(2)] .
  then have r: "recent n t0 (last_n (rl_limit rl) (pruned_attempts rl b now @ [now]))"
    using assms(4,5) by (auto intro: recent_mono)
  show ?thesis
    using r recent_length [OF r] by (auto simp: failing_def fail_bucket_def Let_def)
qed

lemma failing_again:
  assumes "failing rl m t0 t b" "m \<le> rl_limit rl" "0 < rl_limit rl" "t0 \<le> now" "now - rl_window rl < t0"
    "n \<le> Suc m" "n \<le> rl_limit rl"
  shows "failing rl n t0 now (fail_bucket rl now b)"
  using assms pruned_recent fail_bucket_failing unfolding failing_def by metis

text \<open>A bucket with \<open>m\<close> failures since \<open>t0\<close>, and one that is locked until \<open>t + rl_lock\<close> at least.\<close>

definition counting :: "nat \<Rightarrow> int \<Rightarrow> LoginRateLimitBucket \<Rightarrow> bool" where
  "counting m t0 b \<longleftrightarrow> t0 \<le> rb_updated_at b
     \<and> (\<exists>xs. rb_failure_timestamps b = Stamps (map Some xs) \<and> recent m t0 xs)"

definition locked_since :: "LoginRateLimiter \<Rightarrow> int \<Rightarrow> LoginRateLimitBucket \<Rightarrow> bool" where
  "locked_since rl t b \<longleftrightarrow> t \<le> rb_updated_at b
     \<and> (case rb_locked_until b of None \<Rightarrow> False | Some u \<Rightarrow> t + rl_lock rl \<le> u)"

lemma counting_recent:
  assumes "counting m t0 b" "m \<le> rl_limit rl" "0 < rl_limit rl" "t0 \<le> now" "now - rl_window rl < t0"
  shows "recent m t0 (pruned_attempts rl b now)"
  using assms pruned_recent unfolding counting_def by metis

lemma failing_counting: "failing rl m t0 now b \<Longrightarrow> t0 \<le> now \<Longrightarrow> counting m t0 b"
  by (auto simp: failing_def counting_def)

lemma failing_locked: "failing rl (rl_limit rl) t0 now b \<Longrightarrow> locked_since rl now b"
  by (simp add: failing_def locked_since_def)

section \<open>A bucket among other calls\<close>

text \<open>
  \<open>survives rl Q now\<close>: whatever a call at time \<open>now\<close> does to a bucket with \<open>Q\<close>, short of a successful
  login, the bucket stays and has \<open>Q\<close> again.
\<close>

definition survives :: "LoginRateLimiter \<Rightarrow> (LoginRateLimitBucket \<Rightarrow> bool) \<Rightarrow> int \<Rightarrow> bool" where
  "survives rl Q now \<longleftrightarrow> (\<forall>b. Q b \<longrightarrow> Q (snd (check_bucket rl now b)) \<and> Q (fail_bucket rl now b)
     \<and> now - rl_window rl - rl_lock rl < rb_updated_at b)"

definition bucket_has :: "(LoginRateLimitBucket \<Rightarrow> bool) \<Rightarrow> pystr \<Rightarrow> buckets \<Rightarrow> bool" where
  "bucket_has Q a rows \<longleftrightarrow> (\<exists>b. map_of rows a = Some b \<and> Q b)"

lemma survivesD:
  assumes "survives rl Q now" "Q b"
  shows "Q (snd (check_bucket rl now b))" "Q (fail_bucket rl now b)" "now - rl_window rl - rl_lock rl < rb_updated_at b"
  using assms by (simp_all add: survives_def)

lemma survives_counting:
  assumes "m \<le> rl_limit rl" "0 < rl_limit rl" "0 \<le> rl_lock rl" "t0 \<le> now" "now < t0 + rl_window rl"
  shows "survives rl (counting m t0) now"
  unfolding survives_def
proof (intro allI impI conjI)
  fix b
  assume c: "counting m t0 b"
  have r: "recent m t0 (pruned_attempts rl b now)"
    using counting_recent [OF c assms(1,2,4)] assms(5) by simp
  show "counting m t0 (snd (check_bucket rl now b))"
    using c r assms(4) by (auto simp: counting_def check_bucket_def split: option.splits)
  show "counting m t0 (fail_bucket rl now b)"
    using fail_bucket_failing [OF r assms(2,4), of m] assms(1,4) failing_counting by auto
  show "now - rl_window rl - rl_lock rl < rb_updated_at b"
    using c assms(3,5) by (simp add: counting_def)
qed

lemma survives_locked:
  assumes "0 \<le> rl_window rl" "t \<le> now" "now < t + rl_lock rl"
  shows "survives rl (locked_since rl t) now"
  using assms
  by (auto simp: survives_def locked_since_def check_bucket_def fail_bucket_def Let_def split: option.splits)

lemma delete_expired_keeps:
  assumes "survives rl Q now" "table rows" "bucket_has Q a rows"
  shows "bucket_has Q a (delete_expired rl now rows)"
proof -
  obtain b where b: "map_of rows a = Some b" "Q b"
    using assms(3) by (auto simp: bucket_has_def)
  then show ?thesis
    using survivesD(3) [OF assms(1) b(2)] assms(2) by (simp add: bucket_has_def delete_expired_def lookup_delete)
qed

lemma check_keys_keeps:
  "check_keys rl now ks rows retry = (r, rows') \<Longrightarrow> survives rl Q now \<Longrightarrow> bucket_has Q a rows \<Longrightarrow> bucket_has Q a rows'"
proof (induction ks arbitrary: rows retry)
  case (Cons k ks)
  show ?case
  proof (cases "map_of rows k")
    case (Some c)
    obtain x c' where x: "check_bucket rl now c = (x, c')"
      by fastforce
    have "Q c \<Longrightarrow> Q c'"
      using survivesD(1) [OF Cons.prems(2), of c] x by simp
    then have "bucket_has Q a (AList.update k c' rows)"
      using Cons.prems(3) Some by (auto simp: bucket_has_def table_simps)
    then show ?thesis
      using Cons.IH [of "AList.update k c' rows" "max retry x"] Cons.prems Some x by simp
  qed (use Cons in simp)
qed simp

lemma fail_keys_step:
  "fail_keys rl now existing (k # ks) rows = Inr rows' \<Longrightarrow>
   fail_keys rl now existing ks (AList.update k (fail_bucket rl now
     (case map_of rows k of None \<Rightarrow> fresh_bucket now | Some b \<Rightarrow> b)) rows) = Inr rows'"
  by (auto split: option.splits if_splits)

lemma fail_keys_keeps:
  "fail_keys rl now existing ks rows = Inr rows' \<Longrightarrow> bucket_has Q a rows \<Longrightarrow>
   (\<And>b. Q b \<Longrightarrow> Q (fail_bucket rl now b)) \<Longrightarrow> bucket_has Q a rows'"
proof (induction ks arbitrary: rows)
  case (Cons k ks)
  show ?case
    by (rule Cons.IH [OF fail_keys_step [OF Cons.prems(1)]])
      (use Cons.prems(2,3) in \<open>auto simp: bucket_has_def table_simps\<close>)
qed simp

lemma fail_keys_reaches:
  assumes "a \<in> set ks" "fail_keys rl now existing ks rows = Inr rows'" "m = 0 \<or> bucket_has (counting m t0) a rows"
    "m \<le> rl_limit rl" "0 < rl_limit rl" "t0 \<le> now" "now - rl_window rl < t0" "n \<le> Suc m" "n \<le> rl_limit rl"
  shows "bucket_has (failing rl n t0 now) a rows'"
  using assms(1-3)
proof (induction ks arbitrary: rows)
  case (Cons k ks)
  show ?case
  proof (cases "k = a")
    case True
    define b0 where "b0 = (case map_of rows a of None \<Rightarrow> fresh_bucket now | Some b \<Rightarrow> b)"
    have "recent m t0 (pruned_attempts rl b0 now)"
      using Cons.prems(3) counting_recent [OF _ assms(4-7)] unfolding b0_def bucket_has_def by auto
    then have f: "failing rl n t0 now (fail_bucket rl now b0)"
      using fail_bucket_failing assms(5,6,8,9) by blast
    have "fail_keys rl now existing ks (AList.update a (fail_bucket rl now b0) rows) = Inr rows'"
      using fail_keys_step [OF Cons.prems(2)] True by (simp add: b0_def)
    then show ?thesis
      by (rule fail_keys_keeps)
        (use f failing_again [OF _ assms(9,5-7), of now _ n] assms(9) in \<open>auto simp: bucket_has_def table_simps\<close>)
  next
    case False
    then show ?thesis
      using Cons.prems
      by (intro Cons.IH [OF _ fail_keys_step [OF Cons.prems(2)]]) (auto simp: bucket_has_def table_simps)
  qed
qed simp

definition account_key :: "LoginRateLimiter \<Rightarrow> pystr \<Rightarrow> pystr option" where
  "account_key rl u = keyed_digest (rl_secret rl)
     ((if rl_purpose rl = lit ''login'' then lit ''rate'' else rl_purpose rl @ lit ''-rate'') @ lit ''-account'') u"

lemma rate_keys_account: "rate_keys rl u s = Inr (a, c, m) \<Longrightarrow> account_key rl u = Some a"
  by (auto simp: rate_keys_def account_key_def Let_def split: option.splits)

lemma register_failure_Inr:
  assumes "register_failure rl rows u s now = (Inr (), rows')"
  obtains a c k where "rate_keys rl u s = Inr (a, c, k)"
    "fail_keys rl now (delete_expired rl now rows) [a, c, k] (delete_expired rl now rows) = Inr rows'"
  using assms
  by (fastforce simp: register_failure_def Let_def result_simps simp del: fail_keys.simps
      split: sum.splits if_splits)

lemma register_failure_account:
  assumes "register_failure rl rows u s now = (Inr (), rows')" "account_key rl u = Some a" "table rows"
    "m = 0 \<or> bucket_has (counting m t0) a rows" "m \<le> rl_limit rl" "0 < rl_limit rl" "0 \<le> rl_lock rl"
    "t0 \<le> now" "now < t0 + rl_window rl" "n \<le> Suc m" "n \<le> rl_limit rl"
  shows "bucket_has (failing rl n t0 now) a rows'"
proof -
  obtain a' c k where ks: "rate_keys rl u s = Inr (a', c, k)"
    and f: "fail_keys rl now (delete_expired rl now rows) [a', c, k] (delete_expired rl now rows) = Inr rows'"
    using assms(1) by (rule register_failure_Inr)
  have a: "a \<in> set [a', c, k]"
    using rate_keys_account [OF ks] assms(2) by simp
  have "m = 0 \<or> bucket_has (counting m t0) a (delete_expired rl now rows)"
    using delete_expired_keeps [OF survives_counting [OF assms(5-9)] assms(3)] assms(4) by blast
  then show ?thesis
    using fail_keys_reaches [OF a f, of m t0 n] assms(5-11) by simp
qed

text \<open>A call of the throttle; a successful login spares a key that it does not delete.\<close>

datatype rate_op = RateCheck pystr pystr int | RateFailure pystr pystr int | RateSuccess pystr pystr | RateCleanup int

fun rate_do :: "LoginRateLimiter \<Rightarrow> rate_op \<Rightarrow> buckets \<Rightarrow> buckets" where
  "rate_do rl (RateCheck u s t) rows = snd (rate_check rl rows u s t)"
| "rate_do rl (RateFailure u s t) rows = snd (register_failure rl rows u s t)"
| "rate_do rl (RateSuccess u s) rows = snd (register_success rl rows u s)"
| "rate_do rl (RateCleanup t) rows = snd (rate_cleanup rl rows t)"

fun op_within :: "int \<Rightarrow> int \<Rightarrow> rate_op \<Rightarrow> bool" where
  "op_within t0 t1 (RateCheck u s t) = (t0 \<le> t \<and> t < t1)"
| "op_within t0 t1 (RateFailure u s t) = (t0 \<le> t \<and> t < t1)"
| "op_within t0 t1 (RateSuccess u s) = True"
| "op_within t0 t1 (RateCleanup t) = (t0 \<le> t \<and> t < t1)"

fun op_spares :: "LoginRateLimiter \<Rightarrow> pystr \<Rightarrow> rate_op \<Rightarrow> bool" where
  "op_spares rl a (RateSuccess u s) =
     (case rate_keys rl u s of Inl _ \<Rightarrow> True | Inr (account, _, combined) \<Rightarrow> account \<noteq> a \<and> combined \<noteq> a)"
| "op_spares rl a _ = True"

text \<open>The registered failures of one user: the calls that did not raise.\<close>

fun counts_failure :: "LoginRateLimiter \<Rightarrow> pystr \<Rightarrow> rate_op \<Rightarrow> buckets \<Rightarrow> bool" where
  "counts_failure rl u (RateFailure v s t) rows = (v = u \<and> is_ok (fst (register_failure rl rows v s t)))"
| "counts_failure rl u _ rows = False"

fun rate_run :: "LoginRateLimiter \<Rightarrow> pystr \<Rightarrow> rate_op list \<Rightarrow> buckets \<Rightarrow> nat \<times> buckets" where
  "rate_run rl u [] rows = (0, rows)"
| "rate_run rl u (c # cs) rows =
     (case rate_run rl u cs (rate_do rl c rows) of
        (n, rows') \<Rightarrow> (if counts_failure rl u c rows then Suc n else n, rows'))"

lemma rate_check_keeps:
  assumes "survives rl Q t" "table rows" "bucket_has Q a rows"
  shows "bucket_has Q a (snd (rate_check rl rows u s t))"
  using delete_expired_keeps [OF assms] check_keys_keeps [OF _ assms(1)] assms(3)
  by (auto simp: rate_check_def Let_def simp del: check_keys.simps remdups.simps split: sum.splits prod.splits)

lemma register_failure_keeps:
  assumes "survives rl Q t" "table rows" "bucket_has Q a rows"
  shows "bucket_has Q a (snd (register_failure rl rows u s t))"
proof (cases "register_failure rl rows u s t")
  case (Pair r rows')
  show ?thesis
  proof (cases r)
    case (Inl e)
    then show ?thesis
      using Pair assms(3) by (auto simp: register_failure_def split: sum.splits)
  next
    case (Inr x)
    then have "register_failure rl rows u s t = (Inr (), rows')"
      using Pair by simp
    then obtain a' c k where f: "fail_keys rl t (delete_expired rl t rows) [a', c, k] (delete_expired rl t rows) = Inr rows'"
      by (rule register_failure_Inr)
    have "bucket_has Q a rows'"
      by (rule fail_keys_keeps [OF f delete_expired_keeps [OF assms]]) (use assms(1) in \<open>simp add: survives_def\<close>)
    then show ?thesis
      using Pair by simp
  qed
qed

lemma rate_do_keeps:
  assumes "\<And>t. t0 \<le> t \<Longrightarrow> t < t1 \<Longrightarrow> survives rl Q t" "op_within t0 t1 c" "op_spares rl a c"
    "table rows" "bucket_has Q a rows"
  shows "bucket_has Q a (rate_do rl c rows)"
proof (cases c)
  case (RateSuccess u s)
  then show ?thesis
    using assms(3-5) by (auto simp: register_success_def bucket_has_def lookup_delete split: sum.splits)
next
  case (RateCleanup t)
  then show ?thesis
    using delete_expired_keeps [OF assms(1) assms(4,5)] assms(2) by (simp add: rate_cleanup_def)
qed (use rate_check_keeps [OF assms(1) assms(4,5)] register_failure_keeps [OF assms(1) assms(4,5)] assms(2) in auto)

lemma rate_do_table: "table rows \<Longrightarrow> table (rate_do rl c rows)"
proof (cases c)
  case (RateCheck u s t)
  assume "table rows"
  then show ?thesis
    using RateCheck delete_expired_rows(1) [of rows rl t]
    by (auto simp: rate_check_def Let_def simp del: check_keys.simps remdups.simps
        split: sum.splits prod.splits dest: check_keys_rows)
next
  case (RateFailure u s t)
  assume "table rows"
  then show ?thesis
    using RateFailure delete_expired_rows(1) [of rows rl t]
    by (auto simp: register_failure_def Let_def result_simps simp del: fail_keys.simps
        split: sum.splits if_splits dest: fail_keys_rows)
qed (auto simp: register_success_def rate_cleanup_def delete_expired_rows split: sum.splits)

lemma rate_run_table: "rate_run rl u cs rows = (n, rows') \<Longrightarrow> table rows \<Longrightarrow> table rows'"
  by (induction cs arbitrary: rows n) (auto split: prod.splits dest: rate_do_table)

lemma rate_run_locked:
  "rate_run rl u cs rows = (n, rows') \<Longrightarrow> list_all (op_within t (t + rl_lock rl)) cs \<Longrightarrow> list_all (op_spares rl a) cs \<Longrightarrow>
   0 \<le> rl_window rl \<Longrightarrow> table rows \<Longrightarrow> bucket_has (locked_since rl t) a rows \<Longrightarrow> bucket_has (locked_since rl t) a rows'"
proof (induction cs arbitrary: rows n)
  case (Cons c cs)
  obtain k where run: "rate_run rl u cs (rate_do rl c rows) = (k, rows')"
    using Cons.prems(1) by (auto split: prod.splits)
  show ?case
    by (rule Cons.IH [OF run])
      (use Cons.prems rate_do_table rate_do_keeps [of t "t + rl_lock rl" rl, OF survives_locked] in auto)
qed simp

lemma rate_do_counts:
  assumes "m = 0 \<or> bucket_has (counting m t0) a rows" "m \<le> rl_limit rl" "account_key rl u = Some a" "table rows"
    "op_within t0 (t0 + rl_window rl) c" "op_spares rl a c" "0 < rl_limit rl" "0 \<le> rl_lock rl"
    "m' = (if counts_failure rl u c rows then min (Suc m) (rl_limit rl) else m)"
  shows "m' = 0 \<or> bucket_has (counting m' t0) a (rate_do rl c rows)"
proof (cases "counts_failure rl u c rows")
  case True
  then obtain s t where c: "c = RateFailure u s t" and ok: "is_ok (fst (register_failure rl rows u s t))"
    by (cases c) auto
  obtain rows' where r: "register_failure rl rows u s t = (Inr (), rows')"
    using ok by (cases "register_failure rl rows u s t"; cases "fst (register_failure rl rows u s t)") auto
  have time: "t0 \<le> t" "t < t0 + rl_window rl"
    using assms(5) c by simp_all
  have "bucket_has (failing rl m' t0 t) a rows'"
    by (rule register_failure_account [OF r assms(3,4,1,2,7,8) time]) (use assms(9) True in auto)
  then show ?thesis
    using r c failing_counting [OF _ time(1)] by (auto simp: bucket_has_def)
next
  case False
  then show ?thesis
    using assms(1,9) rate_do_keeps [OF survives_counting [OF assms(2,7,8)] assms(5,6,4)] by auto
qed

lemma rate_run_counts:
  "rate_run rl u cs rows = (n, rows') \<Longrightarrow> list_all (op_within t0 (t0 + rl_window rl)) cs \<Longrightarrow> list_all (op_spares rl a) cs \<Longrightarrow>
   account_key rl u = Some a \<Longrightarrow> 0 < rl_limit rl \<Longrightarrow> 0 \<le> rl_lock rl \<Longrightarrow> table rows \<Longrightarrow> m \<le> rl_limit rl \<Longrightarrow>
   m = 0 \<or> bucket_has (counting m t0) a rows \<Longrightarrow> m' = min (m + n) (rl_limit rl) \<Longrightarrow>
   m' = 0 \<or> bucket_has (counting m' t0) a rows'"
proof (induction cs arbitrary: rows n m)
  case (Cons c cs)
  obtain k where run: "rate_run rl u cs (rate_do rl c rows) = (k, rows')"
    and n: "n = (if counts_failure rl u c rows then Suc k else k)"
    using Cons.prems(1) by (auto split: prod.splits)
  define m1 where "m1 = (if counts_failure rl u c rows then min (Suc m) (rl_limit rl) else m)"
  have step: "m1 = 0 \<or> bucket_has (counting m1 t0) a (rate_do rl c rows)"
    by (rule rate_do_counts [OF Cons.prems(9,8,4,7)]) (use Cons.prems in \<open>auto simp: m1_def\<close>)
  show ?case
    by (rule Cons.IH [OF run _ _ Cons.prems(4-6) _ _ step])
      (use Cons.prems n in \<open>auto simp: m1_def rate_do_table\<close>)
qed (auto simp: min_def split: if_splits)

lemma check_keys_locked:
  "a \<in> set ks \<Longrightarrow> distinct ks \<Longrightarrow> map_of rows a = Some b \<Longrightarrow> rb_locked_until b = Some u \<Longrightarrow> now < u \<Longrightarrow>
   0 \<le> retry \<Longrightarrow> retry \<le> lock_retry rl \<Longrightarrow> check_keys rl now ks rows retry = (r, rows') \<Longrightarrow> 1 \<le> r"
proof (induction ks arbitrary: rows retry)
  case (Cons k ks)
  show ?case
  proof (cases "map_of rows k")
    case None
    then show ?thesis
      using Cons by auto
  next
    case (Some c)
    obtain x c' where x: "check_bucket rl now c = (x, c')"
      by fastforce
    then have bounds: "0 \<le> max retry x" "max retry x \<le> lock_retry rl"
      using check_bucket_retry [OF x] Cons.prems by auto
    have run: "check_keys rl now ks (AList.update k c' rows) (max retry x) = (r, rows')"
      using Cons.prems(8) Some x by simp
    show ?thesis
    proof (cases "k = a")
      case True
      then have "1 \<le> x"
        using x Some Cons.prems by (auto simp: check_bucket_def lock_retry_def split: if_splits)
      then show ?thesis
        using check_keys_retry [OF run bounds] by linarith
    next
      case False
      then show ?thesis
        using Cons.IH [OF _ _ _ _ _ bounds run] Cons.prems by (auto simp: table_simps)
    qed
  qed
qed simp

lemma locked_check:
  assumes "table rows" "bucket_has (locked_since rl t) a rows" "rate_keys rl u s = Inr (a, c, m)"
    "0 \<le> rl_window rl" "t \<le> now" "now < t + rl_lock rl"
  shows "\<exists>d rows'. rate_check rl rows u s now = (Inr d, rows') \<and> \<not> rd_allowed d
    \<and> 1 \<le> rd_retry_after d \<and> rd_retry_after d \<le> lock_retry rl"
proof -
  obtain b x where b: "map_of (delete_expired rl now rows) a = Some b" "rb_locked_until b = Some x" "now < x"
    using delete_expired_keeps [OF survives_locked [OF assms(4-6)] assms(1,2)] assms(6)
    by (fastforce simp: bucket_has_def locked_since_def split: option.splits)
  obtain r rows2 where r: "check_keys rl now (remdups [a, c, m]) (delete_expired rl now rows) 0 = (r, rows2)"
    by fastforce
  have pos: "0 \<le> lock_retry rl" "1 \<le> lock_retry rl"
    by (simp_all add: lock_retry_def)
  have "1 \<le> r"
    using check_keys_locked [of a "remdups [a, c, m]", OF _ _ b _ pos(1) r] by simp
  moreover have "r \<le> lock_retry rl"
    using check_keys_retry [OF r _ pos(1)] by simp
  ultimately show ?thesis
    using assms(3) r pos
    by (simp add: rate_check_def Let_def del: check_keys.simps remdups.simps)
qed

section \<open>Properties\<close>

text \<open>
  C29. The throttle locks, and stays locked whatever else is called. Take any calls of the throttle
  within one window, checks and cleanups and the calls for other users included, that register
  failures of one user, from whatever sources, up to one less than the limit, and register one more
  failure within the window. From then on, through any further calls, also more failures and denied
  checks, until the lock time has passed, every check of that user from any source denies, with a wait
  of at least a second and at most the lock time; a source that cannot be encoded raises. A successful
  login of the user, or of one with the same digest, is the only exception: it clears the account.
\<close>

theorem login_locked_after_failures:
  assumes "table rows" "0 < rl_limit rl" "0 \<le> rl_window rl" "account_key rl u = Some a"
    "rate_run rl u before rows = (n, rows1)" "rl_limit rl \<le> Suc n"
    "list_all (op_within t0 (t0 + rl_window rl)) before" "list_all (op_spares rl a) before"
    "register_failure rl rows1 u s t = (Inr (), rows2)" "t0 \<le> t" "t < t0 + rl_window rl"
    "rate_run rl u after rows2 = (n', rows3)"
    "list_all (op_within t (t + rl_lock rl)) after" "list_all (op_spares rl a) after"
    "t \<le> now" "now < t + rl_lock rl"
  shows "case rate_check rl rows3 u s' now of
      (Inl e, rows4) \<Rightarrow> rate_keys rl u s' = Inl e \<and> rows4 = rows3
    | (Inr d, _) \<Rightarrow> \<not> rd_allowed d \<and> 1 \<le> rd_retry_after d \<and> rd_retry_after d \<le> max 1 (ceil_seconds (rl_lock rl))"
proof -
  define m where "m = min n (rl_limit rl)"
  have lock: "0 \<le> rl_lock rl"
    using assms(15,16) by simp
  have t1: "table rows1"
    by (rule rate_run_table [OF assms(5,1)])
  have m: "m = 0 \<or> bucket_has (counting m t0) a rows1"
    by (rule rate_run_counts [OF assms(5,7,8,4,2) lock assms(1), of 0]) (simp_all add: m_def)
  have "bucket_has (failing rl (rl_limit rl) t0 t) a rows2"
    by (rule register_failure_account [OF assms(9,4) t1 m _ assms(2) lock assms(10,11)]) (use assms(6) in \<open>auto simp: m_def\<close>)
  then have "bucket_has (locked_since rl t) a rows2"
    using failing_locked by (auto simp: bucket_has_def)
  moreover have t2: "table rows2"
    using rate_do_table [OF t1, of rl "RateFailure u s t"] assms(9) by simp
  ultimately have locked: "bucket_has (locked_since rl t) a rows3"
    using rate_run_locked [OF assms(12-14,3)] by blast
  show ?thesis
  proof (cases "rate_keys rl u s'")
    case (Inr ks)
    then obtain c k where ks: "rate_keys rl u s' = Inr (a, c, k)"
      using rate_keys_account [of rl u s'] assms(4) by (cases ks) auto
    show ?thesis
      using locked_check [OF rate_run_table [OF assms(12) t2] locked ks assms(3,15,16)]
      by (auto simp: lock_retry_def)
  qed (simp add: rate_check_def)
qed

definition sample_limiter :: LoginRateLimiter where
  "sample_limiter = \<lparr>rl_secret = lit ''key'', rl_limit = 1, rl_window = 60000000, rl_lock = 90000000,
     rl_max_rows = 100, rl_purpose = lit ''login''\<rparr>"

lemma utf8_lit: "list_all (\<lambda>c. c < 128) s \<Longrightarrow> utf8_encode s \<noteq> None"
  by (auto simp: utf8_encode_def is_scalar_def is_surrogate_def list_all_iff)

lemma sample_keys: "\<exists>a c m. rate_keys sample_limiter (lit ''bob'') (lit ''host'') = Inr (a, c, m)"
  using utf8_lit [of "lit ''key''"] utf8_lit [of "lit ''rate-account'' @ 0 # lit ''bob''"]
    utf8_lit [of "lit ''rate-source'' @ 0 # lit ''host''"] utf8_lit [of "lit ''rate-combined'' @ 0 # lit ''bob'' @ 0 # lit ''host''"]
  by (auto simp: rate_keys_def keyed_digest_def sample_limiter_def Let_def lit_def)

lemma fail_keys_existing:
  "\<forall>k \<in> set ks. map_of rows k \<noteq> None \<and> map_of existing k \<noteq> None \<Longrightarrow> \<exists>rows'. fail_keys rl now existing ks rows = Inr rows'"
  by (induction ks arbitrary: rows) (auto simp: table_simps)

text \<open>A failure of \<open>bob\<close> from \<open>host\<close> that finds the rows of its keys.\<close>

lemma sample_failure:
  "\<exists>rows rows'. table rows \<and> register_failure sample_limiter rows (lit ''bob'') (lit ''host'') 1000 = (Inr (), rows')"
proof -
  obtain a c m where ks: "rate_keys sample_limiter (lit ''bob'') (lit ''host'') = Inr (a, c, m)"
    using sample_keys by blast
  define rows where "rows = AList.update a (fresh_bucket 0) (AList.update c (fresh_bucket 0) [(m, fresh_bucket 0)])"
  have rows: "table rows" "length rows \<le> 3" "\<forall>k \<in> set [a, c, m]. map_of rows k \<noteq> None"
    by (auto simp: rows_def table_def distinct_update length_update table_simps)
  have "rb_updated_at b = 0" if "map_of rows k = Some b" for k b
    using that by (auto simp: rows_def table_simps fresh_bucket_def split: if_splits)
  then have keep: "delete_expired sample_limiter 1000 rows = rows"
    using rows(1) by (auto simp: delete_expired_def delete_rows_def filter_id_conv lookup_mem sample_limiter_def)
  moreover have "missing_count [a, c, m] rows = 0"
    using rows(3) by (auto simp: missing_count_def)
  moreover obtain rows' where "fail_keys sample_limiter 1000 rows [a, c, m] rows = Inr rows'"
    using fail_keys_existing [of "[a, c, m]" rows rows] rows(3) by blast
  ultimately have "register_failure sample_limiter rows (lit ''bob'') (lit ''host'') 1000 = (Inr (), rows')"
    using ks rows(2) by (simp add: register_failure_def Let_def sample_limiter_def del: fail_keys.simps)
  then show ?thesis
    using rows(1) by blast
qed

text \<open>After the failure \<open>bob\<close> is checked, and denied, twice, and a cleanup runs in between.\<close>

theorem login_locked_after_failures_witness:
  "\<exists>rows rows' n rows'' d rows4. register_failure sample_limiter rows (lit ''bob'') (lit ''host'') 1000 = (Inr (), rows')
     \<and> rate_run sample_limiter (lit ''bob'') [RateCheck (lit ''bob'') (lit ''host'') 2000, RateCleanup 3000] rows' = (n, rows'')
     \<and> rate_check sample_limiter rows'' (lit ''bob'') (lit ''host'') 80000000 = (Inr d, rows4)
     \<and> \<not> rd_allowed d \<and> 1 \<le> rd_retry_after d \<and> rd_retry_after d \<le> 90"
proof -
  obtain a c m where ks: "rate_keys sample_limiter (lit ''bob'') (lit ''host'') = Inr (a, c, m)"
    using sample_keys by blast
  obtain rows rows' where f: "table rows" "register_failure sample_limiter rows (lit ''bob'') (lit ''host'') 1000 = (Inr (), rows')"
    using sample_failure by blast
  obtain n rows'' where run: "rate_run sample_limiter (lit ''bob'')
      [RateCheck (lit ''bob'') (lit ''host'') 2000, RateCleanup 3000] rows' = (n, rows'')"
    by fastforce
  obtain d rows4 where check: "rate_check sample_limiter rows'' (lit ''bob'') (lit ''host'') 80000000 = (Inr d, rows4)"
    using ks by (fastforce simp: rate_check_def Let_def simp del: check_keys.simps remdups.simps split: prod.splits)
  have "case rate_check sample_limiter rows'' (lit ''bob'') (lit ''host'') 80000000 of
      (Inl e, rows4) \<Rightarrow> rate_keys sample_limiter (lit ''bob'') (lit ''host'') = Inl e \<and> rows4 = rows''
    | (Inr d, _) \<Rightarrow> \<not> rd_allowed d \<and> 1 \<le> rd_retry_after d
        \<and> rd_retry_after d \<le> max 1 (ceil_seconds (rl_lock sample_limiter))"
    by (rule login_locked_after_failures [of rows sample_limiter _ a "[]" 0 rows 1000,
          OF f(1) _ _ rate_keys_account [OF ks] _ _ _ _ f(2) _ _ run])
      (simp_all add: sample_limiter_def)
  then have "\<not> rd_allowed d \<and> 1 \<le> rd_retry_after d \<and> rd_retry_after d \<le> max 1 (ceil_seconds (rl_lock sample_limiter))"
    using check by simp
  moreover have "max 1 (ceil_seconds (rl_lock sample_limiter)) = 90"
    by (simp add: sample_limiter_def ceil_seconds_def)
  ultimately show ?thesis
    using f(2) run check by (metis (no_types))
qed

text \<open>The throttle is bounded. In every state reached by its operations the table holds at most
  the configured number of rows; and every decision is either to allow, with nothing to wait, or to
  deny with a wait between one second and the configured lock time rounded up to whole seconds,
  also when the clock was set back.
\<close>

theorem throttle_bounded:
  assumes "table rows" "length rows \<le> rl_max_rows rl" "(rate_step rl)\<^sup>*\<^sup>* rows rows'"
  shows "table rows' \<and> length rows' \<le> rl_max_rows rl
    \<and> (\<forall>u s now d rows''. rate_check rl rows' u s now = (Inr d, rows'') \<longrightarrow>
         (if rd_allowed d then rd_retry_after d = 0
          else 1 \<le> rd_retry_after d \<and> rd_retry_after d \<le> max 1 (ceil_seconds (rl_lock rl))))"
proof -
  have "table rows' \<and> length rows' \<le> rl_max_rows rl"
    using assms(3,1,2) by (induction rule: rtranclp_induct) (auto dest: rate_step_rows)
  moreover have "if rd_allowed d then rd_retry_after d = 0
      else 1 \<le> rd_retry_after d \<and> rd_retry_after d \<le> lock_retry rl"
    if "rate_check rl rows' u s now = (Inr d, rows'')" for u s now d rows''
  proof -
    have "0 \<le> lock_retry rl" "1 \<le> lock_retry rl"
      by (simp_all add: lock_retry_def)
    then show ?thesis
      using that check_keys_retry [of rl now _ _ 0]
      by (fastforce simp: rate_check_def Let_def simp del: check_keys.simps remdups.simps
          split: sum.splits prod.splits if_splits)
  qed
  ultimately show ?thesis
    unfolding lock_retry_def by blast
qed

theorem throttle_bounded_witness:
  "\<exists>d rows''. rate_check sample_limiter [] (lit ''bob'') (lit ''host'') 0 = (Inr d, rows'')
     \<and> 0 \<le> rd_retry_after d \<and> rd_retry_after d \<le> 90"
proof -
  obtain d rows'' where c: "rate_check sample_limiter [] (lit ''bob'') (lit ''host'') 0 = (Inr d, rows'')"
    using sample_keys by (fastforce simp: rate_check_def Let_def simp del: check_keys.simps remdups.simps split: prod.splits)
  have "if rd_allowed d then rd_retry_after d = 0
      else 1 \<le> rd_retry_after d \<and> rd_retry_after d \<le> max 1 (ceil_seconds (rl_lock sample_limiter))"
    by (rule throttle_bounded [of "[]" sample_limiter "[]", THEN conjunct2, THEN conjunct2, rule_format, OF _ _ _ c])
      simp_all
  moreover have "max 1 (ceil_seconds (rl_lock sample_limiter)) = 90"
    by (simp add: sample_limiter_def ceil_seconds_def)
  ultimately show ?thesis
    using c by (intro exI [of _ d] exI [of _ rows'']) (simp split: if_splits)
qed

end
