(* ===== verification/Jobs.thy ===== *)
theory Jobs
  imports Rate_Limit Py_Json "HOL-Library.Product_Lexorder"
begin

text \<open>
  The durable job queue (\<open>agentbox_core/jobs.py\<close>). The database is the job rows under their
  identifier, the event rows with their increasing sequence, and the project identifiers a job may
  refer to. The random identifier of a new job and the observed time are arguments; \<open>redact_text\<close>,
  a chain of substitutions on summaries, is an argument of the operations that store a summary.
  Of the jobs with the same creation time the queue takes the one inserted first.

  A call that begins with \<open>BEGIN IMMEDIATE\<close> is one step. \<open>progress\<close>, \<open>heartbeat\<close> and \<open>_finish\<close> read
  the row before they take the write lock: they get two databases, the one their \<open>SELECT\<close> saw and the
  one their write meets, and other calls run in between. The write is an \<open>UPDATE\<close> of the columns that
  differ from what was read. Jobs also disappear: \<open>RetentionService.cleanup\<close> deletes finished ones,
  and their events with them; discarding a project reservation clears the project of its jobs, which
  is what the mapper does for the relationship before it deletes the project.
\<close>

datatype job_status = queued | running | succeeded | failed | cancelled | needs_attention

fun status_name :: "job_status \<Rightarrow> pystr" where
  "status_name queued = lit ''queued''"
| "status_name running = lit ''running''"
| "status_name succeeded = lit ''succeeded''"
| "status_name failed = lit ''failed''"
| "status_name cancelled = lit ''cancelled''"
| "status_name needs_attention = lit ''needs_attention''"

definition TERMINAL_JOB_STATES :: "job_status set" where
  "TERMINAL_JOB_STATES = {succeeded, failed, cancelled, needs_attention}"

definition JOB_TYPES :: "pystr list" where
  "JOB_TYPES = map lit [''project.create'', ''project.clone'', ''git.pull'', ''git.push'',
     ''git.branch.create'', ''git.branch.switch'', ''github.pr.create'']"

record Job =
  jb_type :: pystr
  jb_status :: job_status
  jb_created_at :: int
  jb_started_at :: "int option"
  jb_finished_at :: "int option"
  jb_requested_by :: pystr
  jb_target_type :: pystr
  jb_target_id :: "pystr option"
  jb_project_id :: "pystr option"
  jb_progress :: "int option"
  jb_phase :: pystr
  jb_result_summary :: "pystr option"
  jb_error_code :: "pystr option"
  jb_error_summary :: "pystr option"
  jb_payload :: "(pystr \<times> json) list"
  jb_digest :: pystr
  jb_lock_key :: pystr
  jb_attempt :: nat
  jb_max_attempts :: nat
  jb_lease_owner :: "pystr option"
  jb_lease_expires_at :: "int option"
  jb_heartbeat_at :: "int option"
  jb_request_id :: "pystr option"

record JobEvent =
  je_sequence :: nat
  je_job_id :: pystr
  je_event_type :: pystr
  je_status :: job_status
  je_progress :: "int option"
  je_phase :: pystr
  je_summary :: "pystr option"
  je_created_at :: int

record JobDb =
  jd_jobs :: "(pystr \<times> Job) list"
  jd_events :: "JobEvent list"
  jd_projects :: "pystr list"

record JobService =
  js_lease_seconds :: int
  js_secret :: pystr
  js_redact :: "pystr \<Rightarrow> pystr"

datatype job_error = JobValueError string | JobRuntimeError string | JobUnicodeError | JobIntegrityError
  | JobStaleDataError

definition lease_time :: "JobService \<Rightarrow> int" where
  "lease_time svc = js_lease_seconds svc * 1000000"

text \<open>\<open>[A-Za-z0-9._:-]{8,128}\<close>\<close>

definition key_char :: "nat \<Rightarrow> bool" where
  "key_char c \<longleftrightarrow> 65 \<le> c \<and> c \<le> 90 \<or> 97 \<le> c \<and> c \<le> 122 \<or> 48 \<le> c \<and> c \<le> 57 \<or> c \<in> {46, 95, 58, 45}"

definition idempotency_key_ok :: "pystr \<Rightarrow> bool" where
  "idempotency_key_ok s \<longleftrightarrow> 8 \<le> length s \<and> length s \<le> 128 \<and> list_all key_char s"

text \<open>
  \<open>str.casefold\<close> as far as it matters for a comparison with ASCII words: the characters whose
  folding is ASCII. Every other character folds to something that contains a character outside
  ASCII and is left alone.
\<close>

definition casefold_char :: "nat \<Rightarrow> pystr" where
  "casefold_char c =
     (if 65 \<le> c \<and> c \<le> 90 then [c + 32]
      else if c = 0x17F then lit ''s'' else if c = 0x212A then lit ''k''
      else if c = 0xDF \<or> c = 0x1E9E then lit ''ss''
      else if c = 0xFB00 then lit ''ff'' else if c = 0xFB01 then lit ''fi''
      else if c = 0xFB02 then lit ''fl'' else if c = 0xFB03 then lit ''ffi''
      else if c = 0xFB04 then lit ''ffl'' else if c = 0xFB05 \<or> c = 0xFB06 then lit ''st''
      else [c])"

definition casefold :: "pystr \<Rightarrow> pystr" where
  "casefold s = concat (map casefold_char s)"

definition FORBIDDEN_KEYS :: "pystr list" where
  "FORBIDDEN_KEYS = map lit [''path'', ''argv'', ''shell'', ''environment'', ''token'', ''password'', ''secret'']"

fun payload_items :: "(pystr \<times> json) list \<Rightarrow> job_error + unit" where
  "payload_items [] = Inr ()"
| "payload_items ((key, v) # items) =
     (if casefold key \<in> set FORBIDDEN_KEYS \<or> length key > 64
      then Inl (JobValueError ''job payload key is forbidden'')
      else case v of
        JStr s \<Rightarrow>
          (case utf8_encode s of
             None \<Rightarrow> Inl JobUnicodeError
           | Some bs \<Rightarrow>
               if length bs > 16 * 1024 then Inl (JobValueError ''job payload value is invalid'')
               else payload_items items)
      | JInt _ \<Rightarrow> payload_items items
      | JBool _ \<Rightarrow> payload_items items
      | JNull \<Rightarrow> payload_items items
      | _ \<Rightarrow> Inl (JobValueError ''job payload value is invalid''))"

definition validate_payload :: "(pystr \<times> json) list \<Rightarrow> job_error + unit" where
  "validate_payload payload =
     (case utf8_encode (json_text (JObj payload)) of
        None \<Rightarrow> Inl JobUnicodeError
      | Some encoded \<Rightarrow>
          if length encoded > 24 * 1024 \<or> length payload > 12
          then Inl (JobValueError ''job payload is too large'')
          else payload_items payload)"

definition job_digest :: "JobService \<Rightarrow> pystr \<Rightarrow> pystr \<Rightarrow> pystr \<Rightarrow> pystr \<Rightarrow> job_error + pystr" where
  "job_digest svc requested_by job_type scope key =
     (case keyed_digest (js_secret svc) (lit ''job-idempotency'')
             (requested_by @ [0] @ job_type @ [0] @ scope @ [0] @ key) of
        None \<Rightarrow> Inl JobUnicodeError
      | Some d \<Rightarrow> Inr d)"

text \<open>The key SQLite gives a new event row: one more than the greatest in the table.\<close>

definition next_sequence :: "JobEvent list \<Rightarrow> nat" where
  "next_sequence events = foldr max (map je_sequence events) 0 + 1"

definition job_event :: "JobService \<Rightarrow> pystr \<Rightarrow> Job \<Rightarrow> pystr \<Rightarrow> pystr \<Rightarrow> int \<Rightarrow> JobDb \<Rightarrow> JobDb" where
  "job_event svc job_id job event_type summary now db =
     db\<lparr>jd_events := jd_events db @ [\<lparr>je_sequence = next_sequence (jd_events db), je_job_id = job_id,
        je_event_type = take 40 event_type, je_status = jb_status job, je_progress = jb_progress job,
        je_phase = jb_phase job,
        je_summary = (if summary = [] then None else Some (js_redact svc summary)),
        je_created_at = now\<rparr>]\<rparr>"

definition put_job :: "pystr \<Rightarrow> Job \<Rightarrow> JobDb \<Rightarrow> JobDb" where
  "put_job job_id job db = db\<lparr>jd_jobs := AList.update job_id job (jd_jobs db)\<rparr>"

definition find_digest :: "pystr \<Rightarrow> JobDb \<Rightarrow> pystr option" where
  "find_digest d db = map_option fst (find (\<lambda>x. jb_digest (snd x) = d) (jd_jobs db))"

text \<open>\<open>idempotency_scope or target_id or ""\<close>\<close>

definition job_scope :: "pystr option \<Rightarrow> pystr option \<Rightarrow> pystr" where
  "job_scope scope target =
     (case scope of Some s \<Rightarrow> if s \<noteq> [] then s else (case target of Some t \<Rightarrow> t | None \<Rightarrow> [])
        | None \<Rightarrow> (case target of Some t \<Rightarrow> t | None \<Rightarrow> []))"

record JobRequest =
  rq_job_type :: pystr
  rq_requested_by :: pystr
  rq_target_type :: pystr
  rq_target_id :: "pystr option"
  rq_project_id :: "pystr option"
  rq_payload :: "(pystr \<times> json) list"
  rq_lock_key :: pystr
  rq_idempotency_key :: pystr
  rq_request_id :: "pystr option"
  rq_scope :: "pystr option"

definition new_job :: "JobRequest \<Rightarrow> pystr \<Rightarrow> int \<Rightarrow> Job" where
  "new_job rq digest now =
     \<lparr>jb_type = rq_job_type rq, jb_status = queued, jb_created_at = now, jb_started_at = None,
      jb_finished_at = None, jb_requested_by = take 80 (rq_requested_by rq),
      jb_target_type = take 32 (rq_target_type rq),
      jb_target_id = (case rq_target_id rq of None \<Rightarrow> None | Some t \<Rightarrow> if t = [] then None else Some (take 80 t)),
      jb_project_id = rq_project_id rq, jb_progress = Some 0, jb_phase = lit ''queued'',
      jb_result_summary = None, jb_error_code = None, jb_error_summary = None,
      jb_payload = rq_payload rq, jb_digest = digest, jb_lock_key = take 96 (rq_lock_key rq),
      jb_attempt = 0, jb_max_attempts = 1, jb_lease_owner = None, jb_lease_expires_at = None,
      jb_heartbeat_at = None,
      jb_request_id = (case rq_request_id rq of None \<Rightarrow> None | Some t \<Rightarrow> if t = [] then None else Some (take 72 t))\<rparr>"

text \<open>\<open>enqueue\<close> returns the identifier of the job and whether it is new.\<close>

definition enqueue :: "JobService \<Rightarrow> JobDb \<Rightarrow> JobRequest \<Rightarrow> pystr \<Rightarrow> int \<Rightarrow> (job_error + pystr \<times> bool) \<times> JobDb" where
  "enqueue svc db rq new_id now =
     (case
        (if rq_job_type rq \<notin> set JOB_TYPES then Inl (JobValueError ''job type is not allowlisted'')
         else if \<not> idempotency_key_ok (rq_idempotency_key rq)
         then Inl (JobValueError ''idempotency key is invalid'')
         else ebind (validate_payload (rq_payload rq)) (\<lambda>_.
           job_digest svc (rq_requested_by rq) (rq_job_type rq)
             (job_scope (rq_scope rq) (rq_target_id rq)) (rq_idempotency_key rq)))
      of
        Inl e \<Rightarrow> (Inl e, db)
      | Inr digest \<Rightarrow>
          (case find_digest digest db of
             Some existing \<Rightarrow> (Inr (existing, False), db)
           | None \<Rightarrow>
               if map_of (jd_jobs db) new_id \<noteq> None
                  \<or> (case rq_project_id rq of None \<Rightarrow> False | Some p \<Rightarrow> p \<notin> set (jd_projects db))
               then (Inl JobIntegrityError, db)
               else
                 let job = new_job rq digest now
                 in (Inr (new_id, True),
                     job_event svc new_id job (lit ''job.queued'') (lit ''Job queued'') now
                       (put_job new_id job db))))"

definition find_idempotent :: "JobService \<Rightarrow> JobDb \<Rightarrow> pystr \<Rightarrow> pystr \<Rightarrow> pystr \<Rightarrow> pystr \<Rightarrow> job_error + pystr option" where
  "find_idempotent svc db job_type requested_by scope key =
     (if \<not> idempotency_key_ok key then Inl (JobValueError ''idempotency key is invalid'')
      else ebind (job_digest svc requested_by job_type scope key) (\<lambda>d. Inr (find_digest d db)))"

definition sql_limit :: "int \<Rightarrow> 'a list \<Rightarrow> 'a list" where
  "sql_limit n xs = (if n < 0 then xs else take (nat n) xs)"

definition job_list :: "JobDb \<Rightarrow> int \<Rightarrow> pystr option \<Rightarrow> (pystr \<times> Job) list" where
  "job_list db limit requested_by =
     sql_limit limit (rev (sort_key (\<lambda>(i, j). (jb_created_at j, i))
       (filter (\<lambda>(i, j). case requested_by of None \<Rightarrow> True | Some r \<Rightarrow> jb_requested_by j = r) (jd_jobs db))))"

definition job_get :: "JobDb \<Rightarrow> pystr \<Rightarrow> Job option" where
  "job_get db job_id = map_of (jd_jobs db) job_id"

definition events_after :: "JobDb \<Rightarrow> pystr \<Rightarrow> int \<Rightarrow> int \<Rightarrow> JobEvent list" where
  "events_after db job_id seq limit =
     sql_limit limit (sort_key je_sequence
       (filter (\<lambda>e. je_job_id e = job_id \<and> int (je_sequence e) > seq) (jd_events db)))"

definition job_expired :: "int \<Rightarrow> pystr \<times> Job \<Rightarrow> bool" where
  "job_expired now x \<longleftrightarrow> jb_status (snd x) = running
     \<and> (case jb_lease_expires_at (snd x) of None \<Rightarrow> False | Some e \<Rightarrow> e \<le> now)"

definition recover_job :: "JobService \<Rightarrow> int \<Rightarrow> pystr \<times> Job \<Rightarrow> JobDb \<Rightarrow> JobDb" where
  "recover_job svc now x db =
     (let job = (snd x)\<lparr>jb_status := needs_attention, jb_finished_at := Some now,
            jb_phase := lit ''recovery_required'', jb_error_code := Some (lit ''JOB_EXECUTION_INTERRUPTED''),
            jb_error_summary := Some (lit ''Job execution was interrupted and was not replayed'')\<rparr>
      in job_event svc (fst x) job (lit ''job.needs_attention'')
           (lit ''Job execution was interrupted and was not replayed'') now (put_job (fst x) job db))"

definition recover_expired :: "JobService \<Rightarrow> JobDb \<Rightarrow> int \<Rightarrow> nat \<times> JobDb" where
  "recover_expired svc db now =
     (let jobs = filter (job_expired now) (jd_jobs db)
      in (length jobs, fold (recover_job svc now) jobs db))"

text \<open>\<open>order_by(created_at.asc()).limit(1)\<close> over the queued jobs whose lock is not held.\<close>

definition next_queued :: "JobDb \<Rightarrow> (pystr \<times> Job) option" where
  "next_queued db =
     (let running_locks = map (jb_lock_key \<circ> snd) (filter (\<lambda>x. jb_status (snd x) = running) (jd_jobs db));
          ready = sort_key (jb_created_at \<circ> snd)
            (filter (\<lambda>x. jb_status (snd x) = queued \<and> jb_lock_key (snd x) \<notin> set running_locks) (jd_jobs db))
      in case ready of [] \<Rightarrow> None | x # _ \<Rightarrow> Some x)"

definition claim_job :: "JobService \<Rightarrow> pystr \<Rightarrow> int \<Rightarrow> Job \<Rightarrow> Job" where
  "claim_job svc worker_id now job =
     job\<lparr>jb_status := running,
         jb_started_at := (case jb_started_at job of None \<Rightarrow> Some now | Some t \<Rightarrow> Some t),
         jb_attempt := jb_attempt job + 1, jb_lease_owner := Some (take 80 worker_id),
         jb_lease_expires_at := Some (now + lease_time svc), jb_heartbeat_at := Some now,
         jb_progress := Some 10, jb_phase := lit ''running''\<rparr>"

definition claim_next :: "JobService \<Rightarrow> JobDb \<Rightarrow> pystr \<Rightarrow> int \<Rightarrow> pystr option \<times> JobDb" where
  "claim_next svc db worker_id now =
     (case next_queued db of
        None \<Rightarrow> (None, db)
      | Some (job_id, job) \<Rightarrow>
          let job' = claim_job svc worker_id now job
          in (Some job_id,
              job_event svc job_id job' (lit ''job.started'') (lit ''Job started'') now (put_job job_id job' db)))"

definition running_job :: "JobDb \<Rightarrow> pystr \<Rightarrow> job_error + Job" where
  "running_job db job_id =
     (case map_of (jd_jobs db) job_id of
        None \<Rightarrow> Inl (JobRuntimeError ''Job is not running'')
      | Some job \<Rightarrow> if jb_status job \<noteq> running then Inl (JobRuntimeError ''Job is not running'') else Inr job)"

text \<open>\<open>UPDATE\<close> of the columns that differ between the row read and the row in memory.\<close>

definition update_column :: "'a \<Rightarrow> 'a \<Rightarrow> 'a \<Rightarrow> 'a" where
  "update_column old new cur = (if new = old then cur else new)"

definition update_row :: "Job \<Rightarrow> Job \<Rightarrow> Job \<Rightarrow> Job" where
  "update_row old new cur =
     cur\<lparr>jb_status := update_column (jb_status old) (jb_status new) (jb_status cur),
         jb_finished_at := update_column (jb_finished_at old) (jb_finished_at new) (jb_finished_at cur),
         jb_progress := update_column (jb_progress old) (jb_progress new) (jb_progress cur),
         jb_phase := update_column (jb_phase old) (jb_phase new) (jb_phase cur),
         jb_result_summary := update_column (jb_result_summary old) (jb_result_summary new) (jb_result_summary cur),
         jb_error_code := update_column (jb_error_code old) (jb_error_code new) (jb_error_code cur),
         jb_error_summary := update_column (jb_error_summary old) (jb_error_summary new) (jb_error_summary cur),
         jb_lease_owner := update_column (jb_lease_owner old) (jb_lease_owner new) (jb_lease_owner cur),
         jb_lease_expires_at := update_column (jb_lease_expires_at old) (jb_lease_expires_at new) (jb_lease_expires_at cur),
         jb_heartbeat_at := update_column (jb_heartbeat_at old) (jb_heartbeat_at new) (jb_heartbeat_at cur)\<rparr>"

text \<open>
  The flush of one changed job and its event, if any: updating a row that is gone is an error, and
  so is an event of a job that is gone.
\<close>

definition flush_job ::
  "pystr \<Rightarrow> Job \<Rightarrow> Job \<Rightarrow> (JobDb \<Rightarrow> JobDb) option \<Rightarrow> JobDb \<Rightarrow> (job_error + unit) \<times> JobDb" where
  "flush_job job_id old new event db =
     (case map_of (jd_jobs db) job_id of
        None \<Rightarrow>
          if new \<noteq> old then (Inl JobStaleDataError, db)
          else if event \<noteq> None then (Inl JobIntegrityError, db)
          else (Inr (), db)
      | Some cur \<Rightarrow>
          (Inr (), (case event of None \<Rightarrow> id | Some f \<Rightarrow> f) (put_job job_id (update_row old new cur) db)))"

text \<open>\<open>db0\<close> is the database the read of the job saw, \<open>db\<close> the one the write meets.\<close>

definition job_progress ::
  "JobService \<Rightarrow> JobDb \<Rightarrow> JobDb \<Rightarrow> pystr \<Rightarrow> int option \<Rightarrow> pystr \<Rightarrow> pystr \<Rightarrow> int \<Rightarrow> (job_error + unit) \<times> JobDb" where
  "job_progress svc db0 db job_id progress phase summary now =
     (case running_job db0 job_id of
        Inl e \<Rightarrow> (Inl e, db)
      | Inr job \<Rightarrow>
          let job' = job\<lparr>jb_progress := progress, jb_phase := take 48 phase, jb_heartbeat_at := Some now,
                jb_lease_expires_at := Some (now + lease_time svc)\<rparr>
          in flush_job job_id job job' (Some (job_event svc job_id job' (lit ''job.progress'') summary now)) db)"

definition heartbeat_interval_seconds :: "JobService \<Rightarrow> rat" where
  "heartbeat_interval_seconds svc = max 5 (min 30 (of_int (js_lease_seconds svc) / 3))"

definition job_heartbeat :: "JobService \<Rightarrow> JobDb \<Rightarrow> JobDb \<Rightarrow> pystr \<Rightarrow> int \<Rightarrow> (job_error + unit) \<times> JobDb" where
  "job_heartbeat svc db0 db job_id now =
     (case running_job db0 job_id of
        Inl e \<Rightarrow> (Inl e, db)
      | Inr job \<Rightarrow>
          flush_job job_id job (job\<lparr>jb_heartbeat_at := Some now,
            jb_lease_expires_at := Some (now + lease_time svc)\<rparr>) None db)"

definition finished_job :: "JobService \<Rightarrow> Job \<Rightarrow> job_status \<Rightarrow> pystr \<Rightarrow> pystr option \<Rightarrow> int \<Rightarrow> Job" where
  "finished_job svc job status safe_summary code now =
     (let base = job\<lparr>jb_status := status, jb_finished_at := Some now,
            jb_progress := (if status = succeeded then Some 100 else jb_progress job),
            jb_phase := status_name status, jb_lease_owner := None, jb_lease_expires_at := None\<rparr>
      in if status = succeeded then base\<lparr>jb_result_summary := Some safe_summary\<rparr>
         else base\<lparr>jb_error_code := Some (take 80 (case code of None \<Rightarrow> lit ''JOB_FAILED''
                    | Some c \<Rightarrow> if c = [] then lit ''JOB_FAILED'' else c)),
                  jb_error_summary := Some safe_summary\<rparr>)"

definition job_finish ::
  "JobService \<Rightarrow> JobDb \<Rightarrow> JobDb \<Rightarrow> pystr \<Rightarrow> job_status \<Rightarrow> pystr \<Rightarrow> pystr option \<Rightarrow> int \<Rightarrow> (job_error + unit) \<times> JobDb" where
  "job_finish svc db0 db job_id status summary code now =
     (if status \<notin> TERMINAL_JOB_STATES then (Inl (JobValueError ''invalid terminal Job state''), db)
      else case running_job db0 job_id of
        Inl e \<Rightarrow> (Inl e, db)
      | Inr job \<Rightarrow>
          let safe_summary = js_redact svc summary;
              job' = finished_job svc job status safe_summary code now
          in flush_job job_id job job'
               (Some (job_event svc job_id job' (lit ''job.'' @ status_name status) safe_summary now)) db)"

definition job_succeed :: "JobService \<Rightarrow> JobDb \<Rightarrow> JobDb \<Rightarrow> pystr \<Rightarrow> pystr \<Rightarrow> int \<Rightarrow> (job_error + unit) \<times> JobDb" where
  "job_succeed svc db0 db job_id summary now = job_finish svc db0 db job_id succeeded summary None now"

definition job_fail :: "JobService \<Rightarrow> JobDb \<Rightarrow> JobDb \<Rightarrow> pystr \<Rightarrow> pystr \<Rightarrow> pystr \<Rightarrow> int \<Rightarrow> (job_error + unit) \<times> JobDb" where
  "job_fail svc db0 db job_id code summary now = job_finish svc db0 db job_id failed summary (Some code) now"

definition job_needs_attention ::
  "JobService \<Rightarrow> JobDb \<Rightarrow> JobDb \<Rightarrow> pystr \<Rightarrow> pystr \<Rightarrow> pystr \<Rightarrow> int \<Rightarrow> (job_error + unit) \<times> JobDb" where
  "job_needs_attention svc db0 db job_id code summary now =
     job_finish svc db0 db job_id needs_attention summary (Some code) now"

section \<open>Removal of jobs and projects\<close>

definition job_retired :: "int \<Rightarrow> int \<Rightarrow> pystr \<times> Job \<Rightarrow> bool" where
  "job_retired retention now x \<longleftrightarrow> jb_status (snd x) \<in> {succeeded, failed, cancelled}
     \<and> (case jb_finished_at (snd x) of None \<Rightarrow> False | Some t \<Rightarrow> t \<le> now - retention)"

text \<open>The part of \<open>RetentionService.cleanup\<close> on the job tables; \<open>retention\<close> is the configured time.\<close>

definition retention_cleanup :: "int \<Rightarrow> JobDb \<Rightarrow> int \<Rightarrow> nat \<times> JobDb" where
  "retention_cleanup retention db now =
     (let gone = map fst (filter (job_retired retention now) (jd_jobs db))
      in (length gone,
          db\<lparr>jd_jobs := delete_rows (job_retired retention now) (jd_jobs db),
             jd_events := filter (\<lambda>e. je_job_id e \<notin> set gone) (jd_events db)\<rparr>))"

definition clear_project :: "pystr \<Rightarrow> Job \<Rightarrow> Job" where
  "clear_project p job = (if jb_project_id job = Some p then job\<lparr>jb_project_id := None\<rparr> else job)"

definition discard_project :: "JobDb \<Rightarrow> pystr \<Rightarrow> JobDb" where
  "discard_project db p =
     db\<lparr>jd_jobs := map (\<lambda>(i, job). (i, clear_project p job)) (jd_jobs db),
        jd_projects := removeAll p (jd_projects db)\<rparr>"

section \<open>Changes of the job rows\<close>

text \<open>
  What one change does to one job: it keeps its identity, is claimed once, and after that only ever
  keeps its status or gets a terminal one. A write of a stale read may replace a terminal status by
  another.
\<close>

definition job_moves :: "Job \<Rightarrow> Job \<Rightarrow> bool" where
  "job_moves j j' \<longleftrightarrow> jb_digest j' = jb_digest j \<and> jb_lock_key j' = jb_lock_key j
     \<and> (jb_status j = queued \<and> jb_status j' = running \<and> jb_attempt j' = jb_attempt j + 1
        \<or> jb_attempt j' = jb_attempt j \<and> (jb_status j' = jb_status j
             \<or> jb_status j \<noteq> queued \<and> jb_status j' \<in> TERMINAL_JOB_STATES))"

definition lock_free :: "(pystr \<times> Job) list \<Rightarrow> pystr \<Rightarrow> bool" where
  "lock_free jobs l \<longleftrightarrow> (\<forall>i j. map_of jobs i = Some j \<longrightarrow> jb_status j = running \<longrightarrow> jb_lock_key j \<noteq> l)"

inductive job_change :: "(pystr \<times> Job) list \<Rightarrow> (pystr \<times> Job) list \<Rightarrow> bool" where
  change_move: "map_of jobs i = Some j \<Longrightarrow> job_moves j j' \<Longrightarrow>
    (jb_status j = queued \<Longrightarrow> jb_status j' = running \<Longrightarrow> lock_free jobs (jb_lock_key j)) \<Longrightarrow>
    job_change jobs (AList.update i j' jobs)"
| change_delete: "job_change jobs (delete_rows P jobs)"
| change_clear: "job_change jobs (map (\<lambda>(i, job). (i, clear_project p job)) jobs)"

definition jobs_ok :: "(pystr \<times> Job) list \<Rightarrow> bool" where
  "jobs_ok jobs \<longleftrightarrow> table jobs
     \<and> (\<forall>i j k l. map_of jobs i = Some j \<longrightarrow> map_of jobs k = Some l \<longrightarrow> jb_digest j = jb_digest l \<longrightarrow> i = k)
     \<and> (\<forall>i j k l. map_of jobs i = Some j \<longrightarrow> map_of jobs k = Some l \<longrightarrow>
          jb_status j = running \<longrightarrow> jb_status l = running \<longrightarrow> jb_lock_key j = jb_lock_key l \<longrightarrow> i = k)
     \<and> (\<forall>i j. map_of jobs i = Some j \<longrightarrow> jb_attempt j = (if jb_status j = queued then 0 else 1))"

lemma jobs_okD:
  assumes "jobs_ok jobs"
  shows "table jobs"
    "map_of jobs i = Some j \<Longrightarrow> map_of jobs k = Some l \<Longrightarrow> jb_digest j = jb_digest l \<Longrightarrow> i = k"
    "map_of jobs i = Some j \<Longrightarrow> map_of jobs k = Some l \<Longrightarrow> jb_status j = running \<Longrightarrow> jb_status l = running \<Longrightarrow>
       jb_lock_key j = jb_lock_key l \<Longrightarrow> i = k"
    "map_of jobs i = Some j \<Longrightarrow> jb_attempt j = (if jb_status j = queued then 0 else 1)"
  using assms unfolding jobs_ok_def by blast+

lemma jobs_ok_move:
  assumes ok: "jobs_ok jobs" and i: "map_of jobs i = Some j" and moves: "job_moves j j'"
    and free: "jb_status j = queued \<Longrightarrow> jb_status j' = running \<Longrightarrow> lock_free jobs (jb_lock_key j)"
  shows "jobs_ok (AList.update i j' jobs)"
proof -
  have d: "jb_digest j' = jb_digest j" "jb_lock_key j' = jb_lock_key j"
    "jb_attempt j' = (if jb_status j' = queued then 0 else 1)"
    using moves jobs_okD(4) [OF ok i] by (auto simp: job_moves_def TERMINAL_JOB_STATES_def split: if_splits)
  have lock: "k = i"
    if "map_of jobs k = Some l" "jb_status l = running" "jb_status j' = running" "jb_lock_key l = jb_lock_key j" for k l
  proof (cases "jb_status j = queued")
    case True
    then show ?thesis
      using free that by (auto simp: lock_free_def)
  next
    case False
    then have "jb_status j = running"
      using moves that(3) by (auto simp: job_moves_def TERMINAL_JOB_STATES_def)
    then show ?thesis
      using jobs_okD(3) [OF ok that(1) i that(2)] that(4) by simp
  qed
  show ?thesis
    using ok i d lock unfolding jobs_ok_def
    by (auto simp: table_simps split: if_splits)
qed

lemma jobs_ok_delete: "jobs_ok jobs \<Longrightarrow> jobs_ok (delete_rows P jobs)"
  unfolding jobs_ok_def by (auto simp: lookup_delete split: option.splits if_splits)

lemma clear_project_keeps [simp]:
  "jb_digest (clear_project p j) = jb_digest j" "jb_lock_key (clear_project p j) = jb_lock_key j"
  "jb_status (clear_project p j) = jb_status j" "jb_attempt (clear_project p j) = jb_attempt j"
  by (simp_all add: clear_project_def)

lemma lookup_clear:
  "map_of (map (\<lambda>(i, job). (i, clear_project p job)) jobs) i = map_option (clear_project p) (map_of jobs i)"
  by (simp add: map_of_map)

lemma jobs_ok_clear: "jobs_ok jobs \<Longrightarrow> jobs_ok (map (\<lambda>(i, job). (i, clear_project p job)) jobs)"
  unfolding jobs_ok_def
  by (auto simp: lookup_clear table_def comp_def case_prod_unfold)

lemma jobs_ok_change: "job_change jobs jobs' \<Longrightarrow> jobs_ok jobs \<Longrightarrow> jobs_ok jobs'"
  by (induction rule: job_change.induct) (auto intro: jobs_ok_move jobs_ok_delete jobs_ok_clear)

lemma jobs_ok_add:
  assumes "jobs_ok jobs" "map_of jobs i = None" "jb_status j = queued" "jb_attempt j = 0"
    "\<And>k j'. map_of jobs k = Some j' \<Longrightarrow> jb_digest j' \<noteq> jb_digest j"
  shows "jobs_ok (AList.update i j jobs)"
  using assms unfolding jobs_ok_def by (auto simp: table_simps split: if_splits) blast

text \<open>How a job seen in one database relates to the job of that identifier in a later one.\<close>

definition job_later :: "Job \<Rightarrow> Job \<Rightarrow> bool" where
  "job_later j j' \<longleftrightarrow> jb_digest j' = jb_digest j \<and> jb_lock_key j' = jb_lock_key j
     \<and> (jb_status j \<in> TERMINAL_JOB_STATES \<longrightarrow> jb_status j' \<in> TERMINAL_JOB_STATES)
     \<and> (jb_status j \<noteq> queued \<longrightarrow> jb_status j' \<noteq> queued)"

definition jobs_follow :: "(pystr \<times> Job) list \<Rightarrow> (pystr \<times> Job) list \<Rightarrow> bool" where
  "jobs_follow jobs jobs' \<longleftrightarrow>
     (\<forall>i j'. map_of jobs' i = Some j' \<longrightarrow> (\<exists>j. map_of jobs i = Some j \<and> job_later j j'))"

lemma job_later_refl [simp]: "job_later j j"
  by (simp add: job_later_def)

lemma job_later_trans: "job_later a b \<Longrightarrow> job_later b c \<Longrightarrow> job_later a c"
  by (auto simp: job_later_def)

lemma job_moves_later: "job_moves j j' \<Longrightarrow> job_later j j'"
  by (auto simp: job_moves_def job_later_def TERMINAL_JOB_STATES_def)

lemma jobs_follow_refl [simp]: "jobs_follow jobs jobs"
  by (simp add: jobs_follow_def)

lemma jobs_follow_trans: "jobs_follow a b \<Longrightarrow> jobs_follow b c \<Longrightarrow> jobs_follow a c"
  unfolding jobs_follow_def by (meson job_later_trans)

lemma jobs_follow_change: "job_change jobs jobs' \<Longrightarrow> table jobs \<Longrightarrow> jobs_follow jobs jobs'"
proof (induction rule: job_change.induct)
  case (change_move jobs i j j')
  then show ?case
    using job_moves_later [of j j'] by (auto simp: jobs_follow_def table_simps)
next
  case (change_delete jobs P)
  then show ?case
    by (auto simp: jobs_follow_def lookup_delete split: option.splits if_splits)
next
  case (change_clear jobs p)
  then show ?case
    by (auto simp: jobs_follow_def lookup_clear job_later_def)
qed

lemma job_changes:
  assumes "job_change\<^sup>*\<^sup>* jobs jobs'" "jobs_ok jobs"
  shows "jobs_ok jobs' \<and> jobs_follow jobs jobs'"
  using assms
proof (induction rule: rtranclp_induct)
  case (step jobs1 jobs2)
  then show ?case
    using jobs_ok_change [OF step(2)] jobs_follow_change [OF step(2)] jobs_follow_trans
    by (auto simp: jobs_okD(1))
qed simp

section \<open>Every operation is a sequence of changes\<close>

lemma jd_jobs_simps [simp]:
  "jd_jobs (job_event svc i job t m now db) = jd_jobs db"
  "jd_jobs (put_job i job db) = AList.update i job (jd_jobs db)"
  by (simp_all add: job_event_def put_job_def)

lemma find_digest_None:
  "find_digest d db = None \<Longrightarrow> map_of (jd_jobs db) k = Some j \<Longrightarrow> jb_digest j \<noteq> d"
  by (auto simp: find_digest_def find_None_iff dest: map_of_SomeD)

lemma find_digest_Some:
  "table (jd_jobs db) \<Longrightarrow> find_digest d db = Some i \<Longrightarrow> \<exists>j. map_of (jd_jobs db) i = Some j \<and> jb_digest j = d"
proof -
  assume t: "table (jd_jobs db)" and "find_digest d db = Some i"
  then obtain x where x: "find (\<lambda>x. jb_digest (snd x) = d) (jd_jobs db) = Some x" "fst x = i"
    by (auto simp: find_digest_def)
  then have "x \<in> set (jd_jobs db)" "jb_digest (snd x) = d"
    by (auto simp: find_Some_iff)
  then have "map_of (jd_jobs db) i = Some (snd x)"
    using x(2) lookup_mem [OF t, of i "snd x"] by auto
  then show ?thesis
    using \<open>jb_digest (snd x) = d\<close> by blast
qed

lemma enqueue_jobs:
  assumes "enqueue svc db rq new_id now = (r, db')"
  obtains (same) "jd_jobs db' = jd_jobs db"
  | (new) d where "map_of (jd_jobs db) new_id = None" "find_digest d db = None"
      "jd_jobs db' = AList.update new_id (new_job rq d now) (jd_jobs db)"
proof -
  have "jd_jobs db' = jd_jobs db \<or> (\<exists>d. map_of (jd_jobs db) new_id = None \<and> find_digest d db = None
      \<and> jd_jobs db' = AList.update new_id (new_job rq d now) (jd_jobs db))"
    using assms by (auto simp: enqueue_def Let_def split: sum.splits option.splits if_splits)
  then show thesis
    using that by blast
qed

lemma enqueue_keeps:
  assumes "enqueue svc db rq new_id now = (r, db')" "jobs_ok (jd_jobs db)"
  shows "jobs_ok (jd_jobs db')"
    "i \<noteq> new_id \<Longrightarrow> map_of (jd_jobs db') i = map_of (jd_jobs db) i"
proof -
  show "jobs_ok (jd_jobs db')"
    using assms(1)
  proof (cases rule: enqueue_jobs)
    case (new d)
    show ?thesis
      unfolding new(3) using find_digest_None [OF new(2)]
      by (intro jobs_ok_add [OF assms(2) new(1)]) (simp_all add: new_job_def)
  qed (use assms(2) in simp)
  show "i \<noteq> new_id \<Longrightarrow> map_of (jd_jobs db') i = map_of (jd_jobs db) i"
    using assms(1) by (cases rule: enqueue_jobs) (simp_all add: table_simps)
qed

lemma enqueue_Inr:
  assumes "enqueue svc db rq new_id now = (Inr (i, b), db')"
  obtains (old) d where "job_digest svc (rq_requested_by rq) (rq_job_type rq)
      (job_scope (rq_scope rq) (rq_target_id rq)) (rq_idempotency_key rq) = Inr d"
      "find_digest d db = Some i" "\<not> b" "db' = db"
  | (new) d where "job_digest svc (rq_requested_by rq) (rq_job_type rq)
      (job_scope (rq_scope rq) (rq_target_id rq)) (rq_idempotency_key rq) = Inr d"
      "find_digest d db = None" "i = new_id" "jd_jobs db' = AList.update new_id (new_job rq d now) (jd_jobs db)"
  using assms
  by (auto simp: enqueue_def result_simps Let_def split: sum.splits if_splits option.splits)

lemma next_queued_Some:
  assumes "table (jd_jobs db)" "next_queued db = Some (i, j)"
  shows "map_of (jd_jobs db) i = Some j \<and> jb_status j = queued \<and> lock_free (jd_jobs db) (jb_lock_key j)"
proof -
  let ?ready = "\<lambda>x. jb_status (snd x) = queued \<and> jb_lock_key (snd x) \<notin>
    set (map (jb_lock_key \<circ> snd) (filter (\<lambda>x. jb_status (snd x) = running) (jd_jobs db)))"
  define rs where "rs = sort_key (jb_created_at \<circ> snd) (filter ?ready (jd_jobs db))"
  have "(i, j) \<in> set rs"
    using assms(2) unfolding next_queued_def Let_def rs_def [symmetric] by (cases rs) auto
  then have "(i, j) \<in> set (filter ?ready (jd_jobs db))"
    by (simp only: rs_def set_sort)
  then have ij: "(i, j) \<in> set (jd_jobs db)" "?ready (i, j)"
    by auto
  have "jb_lock_key l \<noteq> jb_lock_key j" if "map_of (jd_jobs db) k = Some l" "jb_status l = running" for k l
    using map_of_SomeD [OF that(1)] that(2) ij(2) by force
  then show ?thesis
    using ij lookup_mem [OF assms(1)] by (simp add: lock_free_def)
qed

lemma claim_change:
  assumes "table (jd_jobs db)" "claim_next svc db w now = (r, db')"
  shows "job_change\<^sup>*\<^sup>* (jd_jobs db) (jd_jobs db')"
proof (cases "next_queued db")
  case (Some x)
  obtain i j where x: "x = (i, j)"
    by fastforce
  note nq = next_queued_Some [OF assms(1) Some [unfolded x]]
  have "jd_jobs db' = AList.update i (claim_job svc w now j) (jd_jobs db)"
    using assms(2) Some x by (auto simp: claim_next_def Let_def)
  moreover have "job_moves j (claim_job svc w now j)"
    using nq by (simp add: job_moves_def claim_job_def)
  ultimately show ?thesis
    using nq change_move [of "jd_jobs db" i j] by auto
qed (use assms(2) in \<open>simp add: claim_next_def\<close>)

lemma running_job_Inr:
  "running_job db i = Inr j \<longleftrightarrow> map_of (jd_jobs db) i = Some j \<and> jb_status j = running"
  by (auto simp: running_job_def split: option.splits if_splits)

text \<open>
  The write of a job read as running: what is read earlier is no later than what is there now, so
  the row met is not a queued one.
\<close>

lemma update_row_moves:
  assumes "job_later old cur" "jb_status old = running"
    "jb_status new \<in> insert running TERMINAL_JOB_STATES"
  shows "job_moves cur (update_row old new cur)"
  using assms by (auto simp: job_moves_def update_row_def update_column_def job_later_def)

definition follows :: "JobDb \<Rightarrow> JobDb \<Rightarrow> bool" where
  "follows db0 db \<longleftrightarrow> (\<forall>i j c. map_of (jd_jobs db0) i = Some j \<longrightarrow> map_of (jd_jobs db) i = Some c \<longrightarrow> job_later j c)"

lemma flush_change:
  assumes "flush_job i old new ev db = (r, db')" "running_job db0 i = Inr old" "follows db0 db"
    "jb_status new \<in> insert running TERMINAL_JOB_STATES"
    "\<And>f db. ev = Some f \<Longrightarrow> jd_jobs (f db) = jd_jobs db"
  shows "job_change\<^sup>*\<^sup>* (jd_jobs db) (jd_jobs db')"
proof (cases "map_of (jd_jobs db) i")
  case (Some cur)
  have old: "map_of (jd_jobs db0) i = Some old" "jb_status old = running"
    using assms(2) by (simp_all add: running_job_Inr)
  then have later: "job_later old cur"
    using assms(3) Some unfolding follows_def by blast
  have "jd_jobs db' = AList.update i (update_row old new cur) (jd_jobs db)"
    using assms(1,5) Some by (auto simp: flush_job_def split: option.splits)
  moreover have "job_change (jd_jobs db) (AList.update i (update_row old new cur) (jd_jobs db))"
    using later old(2)
    by (intro change_move [OF Some update_row_moves [OF later old(2) assms(4)]]) (simp add: job_later_def)
  ultimately show ?thesis
    by auto
qed (use assms(1) in \<open>auto simp: flush_job_def split: if_splits\<close>)

lemma progress_change:
  assumes "job_progress svc db0 db i p ph m now = (r, db')" "follows db0 db"
  shows "job_change\<^sup>*\<^sup>* (jd_jobs db) (jd_jobs db')"
proof (cases "running_job db0 i")
  case (Inr job)
  show ?thesis
    by (rule flush_change [OF _ Inr assms(2)])
      (use assms(1) Inr in \<open>auto simp: job_progress_def Let_def running_job_Inr\<close>)
qed (use assms(1) in \<open>simp add: job_progress_def\<close>)

lemma heartbeat_change:
  assumes "job_heartbeat svc db0 db i now = (r, db')" "follows db0 db"
  shows "job_change\<^sup>*\<^sup>* (jd_jobs db) (jd_jobs db')"
proof (cases "running_job db0 i")
  case (Inr job)
  show ?thesis
    by (rule flush_change [OF _ Inr assms(2)])
      (use assms(1) Inr in \<open>auto simp: job_heartbeat_def Let_def running_job_Inr\<close>)
qed (use assms(1) in \<open>simp add: job_heartbeat_def\<close>)

lemma finished_job_status [simp]: "jb_status (finished_job svc job st m c now) = st"
  by (simp add: finished_job_def Let_def)

lemma finish_change:
  assumes "job_finish svc db0 db i st m c now = (r, db')" "follows db0 db"
  shows "job_change\<^sup>*\<^sup>* (jd_jobs db) (jd_jobs db')"
proof (cases "running_job db0 i")
  case (Inr job)
  show ?thesis
  proof (cases "st \<in> TERMINAL_JOB_STATES")
    case True
    show ?thesis
      by (rule flush_change [OF _ Inr assms(2)])
        (use assms(1) Inr True in \<open>auto simp: job_finish_def Let_def running_job_Inr\<close>)
  qed (use assms(1) in \<open>simp add: job_finish_def\<close>)
qed (use assms(1) in \<open>simp add: job_finish_def split: if_splits\<close>)

lemma removal_change:
  "retention_cleanup k db now = (n, db') \<Longrightarrow> job_change\<^sup>*\<^sup>* (jd_jobs db) (jd_jobs db')"
  "job_change\<^sup>*\<^sup>* (jd_jobs db) (jd_jobs (discard_project db p))"
  by (auto simp: retention_cleanup_def Let_def discard_project_def
      intro!: r_into_rtranclp [of job_change] intro: change_delete change_clear)

text \<open>Recovery: each expired job is still as it was read when its turn comes.\<close>

definition recovered :: "int \<Rightarrow> Job \<Rightarrow> Job" where
  "recovered now job = job\<lparr>jb_status := needs_attention, jb_finished_at := Some now,
     jb_phase := lit ''recovery_required'', jb_error_code := Some (lit ''JOB_EXECUTION_INTERRUPTED''),
     jb_error_summary := Some (lit ''Job execution was interrupted and was not replayed'')\<rparr>"

lemma recover_job_jobs: "jd_jobs (recover_job svc now x db) = AList.update (fst x) (recovered now (snd x)) (jd_jobs db)"
  by (simp add: recover_job_def Let_def recovered_def)

lemma recover_fold_change:
  "distinct (map fst xs) \<Longrightarrow> \<forall>x \<in> set xs. map_of (jd_jobs db) (fst x) = Some (snd x) \<and> jb_status (snd x) = running \<Longrightarrow>
   job_change\<^sup>*\<^sup>* (jd_jobs db) (jd_jobs (fold (recover_job svc now) xs db))"
proof (induction xs arbitrary: db)
  case (Cons x xs)
  have "job_change (jd_jobs db) (jd_jobs (recover_job svc now x db))"
    unfolding recover_job_jobs using Cons.prems
    by (intro change_move [of _ _ "snd x"]) (auto simp: job_moves_def recovered_def TERMINAL_JOB_STATES_def)
  moreover have "job_change\<^sup>*\<^sup>* (jd_jobs (recover_job svc now x db))
      (jd_jobs (fold (recover_job svc now) xs (recover_job svc now x db)))"
    using Cons.prems by (intro Cons.IH) (auto simp: recover_job_jobs table_simps image_iff)
  ultimately show ?case
    by (simp add: converse_rtranclp_into_rtranclp)
qed simp

lemma recover_change:
  assumes "table (jd_jobs db)" "recover_expired svc db now = (n, db')"
  shows "job_change\<^sup>*\<^sup>* (jd_jobs db) (jd_jobs db')"
proof -
  have "distinct (map fst (filter (job_expired now) (jd_jobs db)))"
    using assms(1) by (simp add: table_def distinct_map_filter)
  moreover have "\<forall>x \<in> set (filter (job_expired now) (jd_jobs db)).
      map_of (jd_jobs db) (fst x) = Some (snd x) \<and> jb_status (snd x) = running"
    using lookup_mem [OF assms(1)] by (auto simp: job_expired_def)
  ultimately show ?thesis
    using recover_fold_change [of "filter (job_expired now) (jd_jobs db)" db svc now] assms(2)
    by (auto simp: recover_expired_def Let_def)
qed

section \<open>Runs\<close>

text \<open>
  A run is the list of the databases it went through, the present one first. A call that reads
  before it locks may have read any of them. The random identifier of a new job is not that of an
  earlier job. Projects come and go by \<open>reserve\<close> and \<open>discard_reservation\<close>.
\<close>

inductive job_step :: "JobService \<Rightarrow> JobDb list \<Rightarrow> JobDb list \<Rightarrow> bool" for svc where
  step_enqueue: "enqueue svc db rq new_id now = (r, db') \<Longrightarrow>
    \<forall>d \<in> set (db # past). map_of (jd_jobs d) new_id = None \<Longrightarrow> job_step svc (db # past) (db' # db # past)"
| step_recover: "recover_expired svc db now = (n, db') \<Longrightarrow> job_step svc (db # past) (db' # db # past)"
| step_claim: "claim_next svc db w now = (c, db') \<Longrightarrow> job_step svc (db # past) (db' # db # past)"
| step_progress: "db0 \<in> set (db # past) \<Longrightarrow> job_progress svc db0 db i p ph m now = (r, db') \<Longrightarrow>
    job_step svc (db # past) (db' # db # past)"
| step_heartbeat: "db0 \<in> set (db # past) \<Longrightarrow> job_heartbeat svc db0 db i now = (r, db') \<Longrightarrow>
    job_step svc (db # past) (db' # db # past)"
| step_succeed: "db0 \<in> set (db # past) \<Longrightarrow> job_succeed svc db0 db i m now = (r, db') \<Longrightarrow>
    job_step svc (db # past) (db' # db # past)"
| step_fail: "db0 \<in> set (db # past) \<Longrightarrow> job_fail svc db0 db i c m now = (r, db') \<Longrightarrow>
    job_step svc (db # past) (db' # db # past)"
| step_attention: "db0 \<in> set (db # past) \<Longrightarrow> job_needs_attention svc db0 db i c m now = (r, db') \<Longrightarrow>
    job_step svc (db # past) (db' # db # past)"
| step_retention: "retention_cleanup keep db now = (n, db') \<Longrightarrow> job_step svc (db # past) (db' # db # past)"
| step_reserve: "job_step svc (db # past) (db\<lparr>jd_projects := p # jd_projects db\<rparr> # db # past)"
| step_discard: "job_step svc (db # past) (discard_project db p # db # past)"

fun trace_ok :: "JobDb list \<Rightarrow> bool" where
  "trace_ok [] = False"
| "trace_ok (db # past) = (jobs_ok (jd_jobs db) \<and> (\<forall>d \<in> set (db # past). follows d db))"

lemma follows_refl [simp]: "follows db db"
  by (auto simp: follows_def)

lemma trace_follows: "trace_ok (db # past) \<Longrightarrow> d \<in> set (db # past) \<Longrightarrow> follows d db"
  by auto

lemma trace_extend:
  assumes "trace_ok (db # past)" "job_change\<^sup>*\<^sup>* (jd_jobs db) (jd_jobs db')"
  shows "trace_ok (db' # db # past)"
proof -
  have ok: "jobs_ok (jd_jobs db')" "jobs_follow (jd_jobs db) (jd_jobs db')"
    using job_changes [OF assms(2)] assms(1) by simp_all
  have "follows d db'" if "d \<in> set (db # past)" for d
    using trace_follows [OF assms(1) that] ok(2) unfolding follows_def jobs_follow_def
    by (meson job_later_trans)
  then show ?thesis
    using ok(1) by auto
qed

lemma trace_enqueue:
  assumes "trace_ok (db # past)" "enqueue svc db rq new_id now = (r, db')"
    "\<forall>d \<in> set (db # past). map_of (jd_jobs d) new_id = None"
  shows "trace_ok (db' # db # past)"
proof -
  note keeps = enqueue_keeps [OF assms(2)]
  have "follows d db'" if d: "d \<in> set (db # past)" for d
    unfolding follows_def
  proof (intro allI impI)
    fix i j c
    assume ij: "map_of (jd_jobs d) i = Some j" "map_of (jd_jobs db') i = Some c"
    then have "i \<noteq> new_id"
      using assms(3) d by force
    then have "map_of (jd_jobs db) i = Some c"
      using keeps(2) assms(1) ij(2) by simp
    then show "job_later j c"
      using trace_follows [OF assms(1) d] ij(1) unfolding follows_def by blast
  qed
  then show ?thesis
    using keeps(1) assms(1) by auto
qed

lemma trace_write:
  assumes "trace_ok (db # past)" "db0 \<in> set (db # past)"
    "follows db0 db \<Longrightarrow> job_change\<^sup>*\<^sup>* (jd_jobs db) (jd_jobs db')"
  shows "trace_ok (db' # db # past)"
  by (rule trace_extend [OF assms(1) assms(3) [OF trace_follows [OF assms(1,2)]]])

lemma trace_step: "job_step svc tr tr' \<Longrightarrow> trace_ok tr \<Longrightarrow> trace_ok tr'"
proof (induction rule: job_step.induct)
  case (step_enqueue db rq new_id now r db' past)
  show ?case
    by (rule trace_enqueue [OF step_enqueue(3,1,2)])
next
  case (step_recover db now n db' past)
  show ?case
    by (rule trace_extend [OF step_recover(2) recover_change [OF _ step_recover(1)]])
      (use step_recover(2) in \<open>simp add: jobs_okD(1)\<close>)
next
  case (step_claim db w now c db' past)
  show ?case
    by (rule trace_extend [OF step_claim(2) claim_change [OF _ step_claim(1)]])
      (use step_claim(2) in \<open>simp add: jobs_okD(1)\<close>)
next
  case (step_progress db0 db past i p ph m now r db')
  show ?case
    by (rule trace_write [OF step_progress(3,1) progress_change [OF step_progress(2)]])
next
  case (step_heartbeat db0 db past i now r db')
  show ?case
    by (rule trace_write [OF step_heartbeat(3,1) heartbeat_change [OF step_heartbeat(2)]])
next
  case (step_succeed db0 db past i m now r db')
  show ?case
    by (rule trace_write [OF step_succeed(3,1) finish_change [OF step_succeed(2) [unfolded job_succeed_def]]])
next
  case (step_fail db0 db past i c m now r db')
  show ?case
    by (rule trace_write [OF step_fail(3,1) finish_change [OF step_fail(2) [unfolded job_fail_def]]])
next
  case (step_attention db0 db past i c m now r db')
  show ?case
    by (rule trace_write [OF step_attention(3,1) finish_change [OF step_attention(2) [unfolded job_needs_attention_def]]])
next
  case (step_retention keep db now n db' past)
  show ?case
    by (rule trace_extend [OF step_retention(2) removal_change(1) [OF step_retention(1)]])
next
  case (step_reserve db past p)
  show ?case
    by (rule trace_extend [OF step_reserve]) simp
next
  case (step_discard db past p)
  show ?case
    by (rule trace_extend [OF step_discard removal_change(2)])
qed

lemma trace_steps: "(job_step svc)\<^sup>*\<^sup>* tr tr' \<Longrightarrow> trace_ok tr \<Longrightarrow> trace_ok tr'"
  by (induction rule: rtranclp_induct) (auto dest: trace_step)

lemma trace_grows: "(job_step svc)\<^sup>*\<^sup>* tr tr' \<Longrightarrow> set tr \<subseteq> set tr'"
  by (induction rule: rtranclp_induct) (auto elim!: job_step.cases)

section \<open>Properties\<close>

text \<open>
  C19. Two running jobs never hold the same resource lock, a job is started at most once, and a
  finished job never runs again. In every state a run reaches, whichever earlier state the calls
  without a write lock have read, at most one running job has any given resource lock key, a job
  that has left the queue has been claimed exactly once and a queued job never. Between two states of
  the run, a job that is in both keeps its lock and its idempotency digest, does not return to the
  queue once it has left it, and is still in a terminal state if it was in one.
\<close>

theorem job_lock_exclusive:
  assumes "jobs_ok (jd_jobs db)" "(job_step svc)\<^sup>*\<^sup>* [db] (db1 # past)" "(job_step svc)\<^sup>*\<^sup>* (db1 # past) (db2 # past')"
  shows "(\<forall>i j k l. map_of (jd_jobs db2) i = Some j \<longrightarrow> map_of (jd_jobs db2) k = Some l \<longrightarrow>
       jb_status j = running \<longrightarrow> jb_status l = running \<longrightarrow> jb_lock_key j = jb_lock_key l \<longrightarrow> i = k)
    \<and> (\<forall>i j. map_of (jd_jobs db2) i = Some j \<longrightarrow> jb_attempt j = (if jb_status j = queued then 0 else 1))
    \<and> (\<forall>i j j'. map_of (jd_jobs db1) i = Some j \<longrightarrow> map_of (jd_jobs db2) i = Some j' \<longrightarrow>
         jb_lock_key j' = jb_lock_key j \<and> jb_digest j' = jb_digest j
         \<and> (jb_status j \<noteq> queued \<longrightarrow> jb_status j' \<noteq> queued)
         \<and> (jb_status j \<in> TERMINAL_JOB_STATES \<longrightarrow> jb_status j' \<in> TERMINAL_JOB_STATES))"
proof -
  have ok: "trace_ok (db2 # past')"
    using trace_steps [OF assms(2)] trace_steps [OF assms(3)] assms(1) by simp
  then have "follows db1 db2"
    using trace_grows [OF assms(3)] by (auto dest: trace_follows)
  then show ?thesis
    using ok unfolding trace_ok.simps jobs_ok_def follows_def job_later_def by blast
qed

text \<open>
  What the read without the lock allows: a worker that read its job as running and writes after
  \<open>recover_expired\<close> has set it to \<open>needs_attention\<close> turns it into a succeeded job that keeps the error
  code of the recovery.
\<close>

lemma stale_success:
  assumes "running_job db0 i = Inr old" "map_of (jd_jobs db) i = Some cur" "jb_status cur = needs_attention"
  shows "\<exists>db' j. job_succeed svc db0 db i m now = (Inr (), db') \<and> map_of (jd_jobs db') i = Some j
    \<and> jb_status j = succeeded \<and> jb_error_code j = jb_error_code cur"
proof -
  have "map_of (jd_jobs db0) i = Some old" "jb_status old = running"
    using assms(1) by (simp_all add: running_job_Inr)
  then show ?thesis
    using assms(2,3) by (simp add: job_succeed_def job_finish_def flush_job_def TERMINAL_JOB_STATES_def Let_def
        running_job_def table_simps update_row_def update_column_def finished_job_def)
qed

lemma find_digest_unique:
  assumes "jobs_ok (jd_jobs db)" "map_of (jd_jobs db) i = Some j"
  shows "find_digest (jb_digest j) db = Some i"
proof (cases "find_digest (jb_digest j) db")
  case None
  then show ?thesis
    using find_digest_None assms(2) by blast
next
  case (Some k)
  then show ?thesis
    using find_digest_Some [OF jobs_okD(1) [OF assms(1)] Some] jobs_okD(2) [OF assms(1) _ assms(2)] by auto
qed

lemma enqueue_stored:
  assumes "enqueue svc db rq new_id now = (Inr (i, b), db')" "table (jd_jobs db)"
  obtains d j where "job_digest svc (rq_requested_by rq) (rq_job_type rq)
      (job_scope (rq_scope rq) (rq_target_id rq)) (rq_idempotency_key rq) = Inr d"
    "map_of (jd_jobs db') i = Some j" "jb_digest j = d"
    "rq_job_type rq \<in> set JOB_TYPES" "idempotency_key_ok (rq_idempotency_key rq)"
proof -
  have valid: "rq_job_type rq \<in> set JOB_TYPES" "idempotency_key_ok (rq_idempotency_key rq)"
    using assms(1) by (auto simp: enqueue_def split: if_splits)
  show thesis
    using assms(1)
  proof (cases rule: enqueue_Inr)
    case (old d)
    then show ?thesis
      using that valid find_digest_Some [OF assms(2)] by blast
  next
    case (new d)
    then show ?thesis
      using that valid by (simp add: table_simps new_job_def)
  qed
qed

text \<open>
  C24. Enqueueing is idempotent. After a request was accepted, a later one with the same requester,
  type, scope and idempotency key and an acceptable payload succeeds, returns the same job, says
  that it is not new, and changes nothing, whatever the service did in between and however far the
  job has got, as long as the retention cleanup has not removed it.
\<close>

theorem enqueue_idempotent:
  assumes "jobs_ok (jd_jobs db0)" "(job_step svc)\<^sup>*\<^sup>* [db0] (db # past)"
    "\<forall>d \<in> set (db # past). map_of (jd_jobs d) new_id = None"
    "enqueue svc db rq new_id now = (Inr (i, b), db1)"
    "(job_step svc)\<^sup>*\<^sup>* (db1 # db # past) (db2 # past2)" "map_of (jd_jobs db2) i \<noteq> None"
    "rq_requested_by rq' = rq_requested_by rq" "rq_job_type rq' = rq_job_type rq"
    "job_scope (rq_scope rq') (rq_target_id rq') = job_scope (rq_scope rq) (rq_target_id rq)"
    "rq_idempotency_key rq' = rq_idempotency_key rq" "validate_payload (rq_payload rq') = Inr ()"
  shows "enqueue svc db2 rq' new_id' now' = (Inr (i, False), db2)"
proof -
  have ok: "trace_ok (db # past)"
    using trace_steps [OF assms(2)] assms(1) by simp
  then have ok2: "trace_ok (db2 # past2)"
    using trace_steps [OF assms(5)] trace_enqueue [OF _ assms(4,3)] by blast
  have "table (jd_jobs db)"
    using ok by (simp add: jobs_okD(1))
  then obtain d j where d: "job_digest svc (rq_requested_by rq) (rq_job_type rq)
      (job_scope (rq_scope rq) (rq_target_id rq)) (rq_idempotency_key rq) = Inr d"
    and j: "map_of (jd_jobs db1) i = Some j" "jb_digest j = d"
    and valid: "rq_job_type rq \<in> set JOB_TYPES" "idempotency_key_ok (rq_idempotency_key rq)"
    by (rule enqueue_stored [OF assms(4)])
  obtain j2 where j2: "map_of (jd_jobs db2) i = Some j2"
    using assms(6) by blast
  have "follows db1 db2"
    using ok2 trace_grows [OF assms(5)] by (auto dest: trace_follows)
  then have "jb_digest j2 = d"
    using j j2 unfolding follows_def job_later_def by blast
  then have "find_digest d db2 = Some i"
    using find_digest_unique [OF _ j2] ok2 by simp
  then show ?thesis
    using d valid by (simp add: enqueue_def assms(7-11))
qed

definition sample_service :: JobService where
  "sample_service = \<lparr>js_lease_seconds = 60, js_secret = lit ''key'', js_redact = take 512\<rparr>"

definition sample_request :: JobRequest where
  "sample_request = \<lparr>rq_job_type = lit ''git.pull'', rq_requested_by = lit ''adm'', rq_target_type = lit ''project'',
     rq_target_id = None, rq_project_id = None, rq_payload = [], rq_lock_key = lit ''lock'',
     rq_idempotency_key = lit ''12345678'', rq_request_id = None, rq_scope = None\<rparr>"

lemma sample_digest:
  "\<exists>d. job_digest sample_service (lit ''adm'') (lit ''git.pull'') [] (lit ''12345678'') = Inr d"
  using utf8_lit [of "lit ''key''"] utf8_lit [of "lit ''job-idempotency'' @ 0 # lit ''adm'' @ 0 # lit ''git.pull'' @ 0 # 0 # lit ''12345678''"]
  by (auto simp: job_digest_def keyed_digest_def sample_service_def lit_def)

definition sample_db :: JobDb where
  "sample_db = \<lparr>jd_jobs = [], jd_events = [], jd_projects = []\<rparr>"

lemma sample_db_ok: "jobs_ok (jd_jobs sample_db)"
  by (simp add: sample_db_def jobs_ok_def)

lemma sample_payload: "validate_payload (rq_payload sample_request) = Inr ()"
  by (simp add: validate_payload_def utf8_encode_def is_scalar_def is_surrogate_def utf8_char_def lit_def
      sample_request_def)

text \<open>A job is queued, claimed by a worker, and finished by it.\<close>

lemma sample_job_run:
  "\<exists>d db1 db2 db3. enqueue sample_service sample_db sample_request (lit ''job_1'') 0 = (Inr (lit ''job_1'', True), db1)
     \<and> claim_next sample_service db1 (lit ''w'') 5 = (Some (lit ''job_1''), db2)
     \<and> job_succeed sample_service db2 db2 (lit ''job_1'') (lit ''ok'') 7 = (Inr (), db3)
     \<and> map_of (jd_jobs db2) (lit ''job_1'') = Some (claim_job sample_service (lit ''w'') 5 (new_job sample_request d 0))
     \<and> (\<exists>j. map_of (jd_jobs db3) (lit ''job_1'') = Some j \<and> jb_status j = succeeded)"
proof -
  obtain d where d: "job_digest sample_service (lit ''adm'') (lit ''git.pull'') [] (lit ''12345678'') = Inr d"
    using sample_digest by blast
  have valid: "validate_payload [] = Inr ()" "idempotency_key_ok (lit ''12345678'')" "lit ''git.pull'' \<in> set JOB_TYPES"
    using sample_payload
    by (simp_all add: sample_request_def idempotency_key_ok_def key_char_def JOB_TYPES_def lit_def)
  define j1 where "j1 = new_job sample_request d 0"
  define db1 where "db1 = job_event sample_service (lit ''job_1'') j1 (lit ''job.queued'')
    (lit ''Job queued'') 0 (put_job (lit ''job_1'') j1 sample_db)"
  define j2 where "j2 = claim_job sample_service (lit ''w'') 5 j1"
  define db2 where "db2 = job_event sample_service (lit ''job_1'') j2 (lit ''job.started'')
    (lit ''Job started'') 5 (put_job (lit ''job_1'') j2 db1)"
  have 1: "enqueue sample_service sample_db sample_request (lit ''job_1'') 0 = (Inr (lit ''job_1'', True), db1)"
    using d valid
    by (simp add: enqueue_def sample_request_def job_scope_def find_digest_def db1_def j1_def sample_db_def Let_def)
  have "next_queued db1 = Some (lit ''job_1'', j1)"
    by (simp add: next_queued_def db1_def sample_db_def j1_def new_job_def)
  then have 2: "claim_next sample_service db1 (lit ''w'') 5 = (Some (lit ''job_1''), db2)"
    by (simp add: claim_next_def db2_def j2_def Let_def)
  have row: "map_of (jd_jobs db2) (lit ''job_1'') = Some j2" and run: "jb_status j2 = running"
    by (simp_all add: db2_def table_simps j2_def claim_job_def)
  define db3 where "db3 = snd (job_succeed sample_service db2 db2 (lit ''job_1'') (lit ''ok'') 7)"
  have "job_succeed sample_service db2 db2 (lit ''job_1'') (lit ''ok'') 7 = (Inr (), db3)
     \<and> (\<exists>j. map_of (jd_jobs db3) (lit ''job_1'') = Some j \<and> jb_status j = succeeded)"
    using row run by (simp add: db3_def job_succeed_def job_finish_def running_job_def flush_job_def
        TERMINAL_JOB_STATES_def Let_def table_simps update_row_def update_column_def)
  then show ?thesis
    using 1 2 row unfolding j2_def j1_def by blast
qed

lemma sample_fresh: "map_of (jd_jobs sample_db) i = None"
  by (simp add: sample_db_def)

theorem job_lock_exclusive_witness:
  "\<exists>db1 db2 db3 j. enqueue sample_service sample_db sample_request (lit ''job_1'') 0 = (Inr (lit ''job_1'', True), db1)
     \<and> claim_next sample_service db1 (lit ''w'') 5 = (Some (lit ''job_1''), db2)
     \<and> job_succeed sample_service db2 db2 (lit ''job_1'') (lit ''ok'') 7 = (Inr (), db3)
     \<and> map_of (jd_jobs db3) (lit ''job_1'') = Some j
     \<and> jb_lock_key j = lit ''lock'' \<and> jb_attempt j = 1 \<and> jb_status j \<noteq> queued"
proof -
  obtain d db1 db2 db3 j where run:
    "enqueue sample_service sample_db sample_request (lit ''job_1'') 0 = (Inr (lit ''job_1'', True), db1)"
    "claim_next sample_service db1 (lit ''w'') 5 = (Some (lit ''job_1''), db2)"
    "job_succeed sample_service db2 db2 (lit ''job_1'') (lit ''ok'') 7 = (Inr (), db3)"
    and rows: "map_of (jd_jobs db2) (lit ''job_1'') = Some (claim_job sample_service (lit ''w'') 5 (new_job sample_request d 0))"
    "map_of (jd_jobs db3) (lit ''job_1'') = Some j"
    using sample_job_run by blast
  have 1: "job_step sample_service [sample_db] [db1, sample_db]"
    using step_enqueue [OF run(1), of "[]"] sample_fresh by simp
  have 2: "job_step sample_service [db1, sample_db] [db2, db1, sample_db]"
    by (rule step_claim [OF run(2)])
  have 3: "job_step sample_service [db2, db1, sample_db] [db3, db2, db1, sample_db]"
    by (rule step_succeed [OF _ run(3)]) simp
  note all = job_lock_exclusive [OF sample_db_ok rtranclp.rtrancl_into_rtrancl [OF r_into_rtranclp, of "job_step sample_service", OF 1 2]
      r_into_rtranclp [of "job_step sample_service", OF 3]]
  have "jb_lock_key j = lit ''lock'' \<and> jb_status j \<noteq> queued"
    using all [THEN conjunct2, THEN conjunct2, rule_format, OF rows]
    by (simp add: claim_job_def new_job_def sample_request_def lit_def)
  moreover from this have "jb_attempt j = 1"
    using all [THEN conjunct2, THEN conjunct1, rule_format, OF rows(2)] by simp
  ultimately show ?thesis
    using run rows(2) by blast
qed

text \<open>The request is repeated after the job has run and finished.\<close>

theorem enqueue_idempotent_witness:
  "\<exists>db1 db2 db3. enqueue sample_service sample_db sample_request (lit ''job_1'') 0 = (Inr (lit ''job_1'', True), db1)
     \<and> claim_next sample_service db1 (lit ''w'') 5 = (Some (lit ''job_1''), db2)
     \<and> job_succeed sample_service db2 db2 (lit ''job_1'') (lit ''ok'') 7 = (Inr (), db3)
     \<and> enqueue sample_service db3 sample_request (lit ''job_2'') 9 = (Inr (lit ''job_1'', False), db3)"
proof -
  obtain db1 db2 db3 j where run:
    "enqueue sample_service sample_db sample_request (lit ''job_1'') 0 = (Inr (lit ''job_1'', True), db1)"
    "claim_next sample_service db1 (lit ''w'') 5 = (Some (lit ''job_1''), db2)"
    "job_succeed sample_service db2 db2 (lit ''job_1'') (lit ''ok'') 7 = (Inr (), db3)"
    and row: "map_of (jd_jobs db3) (lit ''job_1'') = Some j"
    using sample_job_run by blast
  have 2: "job_step sample_service [db1, sample_db] [db2, db1, sample_db]"
    by (rule step_claim [OF run(2)])
  have 3: "job_step sample_service [db2, db1, sample_db] [db3, db2, db1, sample_db]"
    by (rule step_succeed [OF _ run(3)]) simp
  have "enqueue sample_service db3 sample_request (lit ''job_2'') 9 = (Inr (lit ''job_1'', False), db3)"
    by (rule enqueue_idempotent [OF sample_db_ok rtranclp.rtrancl_refl _ run(1)
          rtranclp.rtrancl_into_rtrancl [OF r_into_rtranclp, of "job_step sample_service", OF 2 3] _ refl refl refl refl sample_payload])
      (use sample_fresh row in auto)
  then show ?thesis
    using run by blast
qed

end
