(* ===== verification/Spec2Isabelle.thy ===== *)
theory Spec2Isabelle
  imports Prelude Py_Utf8 Py_Hash Py_Json Tables Waw_Domain Output_Ring Redraw Recovery Lease_Fence Input_Budget Conflicts Awce Abws Abws_Stream Tickets Ticket_Safety Ticket_Trace Ticket_Properties Sanitizer WebSocket Epoch_Store Favorites Rate_Limit Jobs
begin

text \<open>
  A verification of the Web Agent Workspace (WAW) core of AgentBox.

  \<^bold>\<open>The program.\<close> AgentBox lets a browser work with a coding agent that runs in a terminal on a
  host. The API (\<open>src/apps/api\<close>) admits a browser to a workspace: the attachment authority issues a
  single-use ticket, stages the admission and grants the one writer slot of the workspace. The Runtime
  (\<open>agentbox_runtime\<close>) owns the terminal, keeps its recent output in a bounded ring and replays it to a
  browser that comes back. The two speak ABWS frames over a stream, inside AWCE envelopes towards the
  browser, whose transport is WebSocket. The core (\<open>agentbox_core\<close>) holds the domain rules: identities,
  lifecycle, leases, resume decisions, and the favourites, login throttle and job tables.

  \<^bold>\<open>Conventions.\<close> Bytes are lists of 8-bit words and a \<open>str\<close> is a list of code points. A call that may
  raise returns a sum, \<open>Inl\<close> the error; one that changes state before it raises returns the result
  beside the state. A dataclass is a record and its \<open>__post_init__\<close> a definition named
  \<open>..._init\<close>. Object identity is a number; a dict or a database table is an association list with
  distinct keys. Times are reals or integers, so float rounding is not modelled. A lock makes a call
  atomic, so a call is one step. Random values, clock readings and the answers of probes are arguments
  of the calls. Type tests of Python arguments are the types of the model unless a theory says otherwise.

  \<^bold>\<open>Shared theories.\<close>
  \<^item> \<open>Prelude\<close>: values, results with their inversion rules (\<open>result_simps\<close>), decimal text, big-endian
    integers, and the locales \<open>codec\<close> and \<open>canonical_codec\<close>.
  \<^item> \<open>Py_Utf8\<close>, \<open>Py_Hash\<close>, \<open>Py_Json\<close>: the parts of the standard library the code relies on: strict
    UTF-8 with both round trips, SHA-256 and HMAC, and \<open>json\<close> with the round trip of printed values.
  \<^item> \<open>Tables\<close>: rows under a primary key.

  \<^bold>\<open>Components.\<close>
  \<^item> \<open>Waw_Domain\<close> (\<open>agentbox_core/waw.py\<close>): identifiers, workspace identity and marker, generation
    counter, lifecycle, writer lease slot, Stop. The lifecycle and its generations over all runs of
    session steps; marker payloads determine their fields; generations are consecutive.
  \<^item> \<open>Output_Ring\<close> (\<open>agentbox_runtime/waw_pty.py\<close>): the ring always holds the exact last bytes of what
    was appended, a replay returns exactly the bytes after a cursor, an append ends and says when it
    fails. The locale \<open>byte_log\<close> states the contract; \<open>ring\<close> interprets it.
  \<^item> \<open>Redraw\<close> (\<open>agentbox_runtime/waw_redraw.py\<close>): capture limits, and the trimmed redraw equals its
    reference definition.
  \<^item> \<open>Recovery\<close> (\<open>agentbox_core/waw_recovery.py\<close>): \<open>classify_resume\<close> resumes exactly when the presented
    identity and cursor allow it, and which of the resumes it grants \<open>replay\<close> of \<open>Output_Ring\<close> serves.
  \<^item> \<open>Lease_Fence\<close> (\<open>agentbox_core/waw_lease.py\<close>): over all reachable fences the slot is freed only by
    proof of cleanup, the deadlines stay ordered, and the clock moves an expired lease on.
  \<^item> \<open>Input_Budget\<close> (\<open>agentbox_api/waw_input_budget.py\<close>): the ledger balances after every sequence of
    calls and a token is released once.
  \<^item> \<open>Conflicts\<close> (\<open>agentbox_runtime/waw_conflicts.py\<close>): any number of coordinators on one host lock,
    with the threads interleaved inside \<open>release\<close>. At most one start is under way while no two threads
    release one lease at once; a run of two that do shows two starts under way.
  \<^item> \<open>Awce\<close> (\<open>agentbox_protocol/awce.py\<close>): decoding and encoding are inverse, through the
    interpretation \<open>awce_codec\<close>.
  \<^item> \<open>Abws\<close> (\<open>agentbox_protocol/abws.py\<close>): frame codec, batch reader and incremental parser; a stream
    of encoded frames is delivered whole however it is chunked, and the parser refines the decoder.
    \<open>control_codec\<close> interprets \<open>codec\<close> on control payloads.
  \<^item> \<open>Abws_Stream\<close> (\<open>agentbox_protocol/waw_stream_contract.py\<close>, \<open>abws_stream.py\<close>): the frame
    interpreters and the pump, as steps of reading, writing and draining with every outcome, exceptions
    the pump does not catch included; what is sent is what arrives.
  \<^item> \<open>Tickets\<close>, \<open>Ticket_Safety\<close>, \<open>Ticket_Trace\<close>, \<open>Ticket_Properties\<close>
    (\<open>agentbox_core/waw_tickets.py\<close>): every public method of \<open>AttachmentAuthority\<close>; the invariant
    \<open>authority_ok\<close> and its preservation; labelled runs and the abstract contract \<open>slot_step\<close>, which the
    authority refines (locale \<open>stepwise_refinement\<close>, interpretation \<open>tickets\<close>); then the guarantees: one
    writer per workspace, frames only after admission, single-use tickets, bounds, revocation, shutdown.
  \<^item> \<open>Sanitizer\<close> (\<open>agentbox_protocol/waw_terminal_sanitizer.py\<close>): the output has no control or format
    character but the three kept ones, and displayable text is kept unchanged.
  \<^item> \<open>WebSocket\<close> (\<open>agentbox_protocol/waw_websocket_contract.py\<close>, \<open>waw_websocket_parser.py\<close>): the parser
    accepts exactly the canonical encodings, what it returns passes the contract, and accepted
    sequences respect the message, fragment and close limits.
  \<^item> \<open>Epoch_Store\<close> (\<open>agentbox_runtime/waw_epoch.py\<close>): the durable epoch counter over a disk with
    failing, partial and interrupted system calls and power losses. \<open>hoare\<close> proves what holds after
    every outcome, \<open>succeeds\<close> that a call returns when its system calls work; no epoch is handed out
    twice, a callback's refusal consumes none, and a store in order hands out the next one.
  \<^item> \<open>Favorites\<close> (\<open>agentbox_core/favorites.py\<close>): no lost update of a favourite over all runs of the
    service's calls.
  \<^item> \<open>Rate_Limit\<close> (\<open>agentbox_core/rate_limit.py\<close>, \<open>keyed_digest\<close> of \<open>security.py\<close>): a user is locked out
    after failed logins, through any other calls. \<open>survives\<close> says what a call may do to a bucket, and the
    counting and the locked bucket are two instances of it.
  \<^item> \<open>Jobs\<close> (\<open>agentbox_core/jobs.py\<close>, the job part of \<open>RetentionService.cleanup\<close> in \<open>services.py\<close>, and
    \<open>discard_reservation\<close> of \<open>projects.py\<close> as far as it touches jobs): a run is the list of the databases it
    went through, and the calls that read before they lock read any of them. Exclusive job locks, one
    claim per job, no way back from a terminal state, idempotent enqueue.

  \<^bold>\<open>Fuel and termination.\<close> The JSON scanner recurses on fuel \<open>2 * length s + 1\<close>, and \<open>json_loads_fuel\<close>
  shows it never runs out. Every other loop is structural or has a termination proof.

  \<^bold>\<open>Behaviours recorded as theorems.\<close> \<open>replay_future_cursor\<close>, \<open>append_batch_may_evict\<close>,
  \<open>nonascii_context_raises\<close> and \<open>event_limit_drops_silently\<close> state what the code does where its comments,
  documentation or tests suggest otherwise.

  \<^bold>\<open>Not modelled.\<close> Cryptography (Noise, AEAD, argon2) is third-party code. Sockets, processes, cgroups,
  tmux and the native C helpers are operating-system behaviour. The HTTP routers, servers, executors,
  worker and command lines compose the modelled parts with asyncio and process I/O. The Runtime
  supervisor (\<open>waw_supervisor.py\<close>) and the stream bridge over it compose the ring, redraws, leases and
  Stop operations with a transport of optional ports; the parts are modelled, the composition is not. The SQLAlchemy
  repositories other than the three above, the provider manager, approvals, installer, privileged
  helper, migrations and the web client are outside the library. Within modelled components the
  redacting \<open>__repr__\<close> methods, a busy or failing database and the interpreter's recursion limit are left out.
\<close>

end
